(* ===== verification/Prelude.thy ===== *)
theory Prelude
  imports Main
begin

section \<open>Python computations\<close>

text \<open>
  What every component shares: the exceptions the scripts can die with, computations that
  thread a state and may raise, Python's integer division and \<open>range\<close>, list indexing with
  negative indices, and the rules that carry the component proofs.

  A method that mutates \<open>self\<close> (or prints) is a value of \<open>('s, 'a) py\<close>: it takes the
  state and either returns a value with the new state or raises, and then the state at the
  moment of the exception is kept, because everything printed before a crash has been printed.
\<close>

subsection \<open>Outcomes\<close>

datatype exn =
    ZeroDivisionError
  | AssertionError
  | IndexError
  | KeyError
  | ValueError
  | AttributeError
  | UnboundLocalError
  | SystemExit int

datatype ('s, 'a) outcome = Ok (val: 'a) (final: 's) | Raise exn (final: 's)

type_synonym ('s, 'a) py = "'s \<Rightarrow> ('s, 'a) outcome"

definition return :: "'a \<Rightarrow> ('s, 'a) py" where
  "return a = (\<lambda>s. Ok a s)"

definition raise :: "exn \<Rightarrow> ('s, 'a) py" where
  "raise e = (\<lambda>s. Raise e s)"

definition pbind :: "('s, 'a) py \<Rightarrow> ('a \<Rightarrow> ('s, 'b) py) \<Rightarrow> ('s, 'b) py" where
  "pbind m k = (\<lambda>s. case m s of Ok a s' \<Rightarrow> k a s' | Raise e s' \<Rightarrow> Raise e s')"

definition pseq :: "('s, 'a) py \<Rightarrow> ('s, 'b) py \<Rightarrow> ('s, 'b) py" where
  "pseq m n = pbind m (\<lambda>_. n)"

definition gets :: "('s \<Rightarrow> 'a) \<Rightarrow> ('s, 'a) py" where
  "gets f = (\<lambda>s. Ok (f s) s)"

definition modify :: "('s \<Rightarrow> 's) \<Rightarrow> ('s, unit) py" where
  "modify f = (\<lambda>s. Ok () (f s))"

text \<open>\<open>assert(b)\<close>, and reading an attribute that \<open>__init__\<close> may not have set.\<close>

definition py_assert :: "bool \<Rightarrow> ('s, unit) py" where
  "py_assert b = (if b then return () else raise AssertionError)"

definition getattr :: "('s \<Rightarrow> 'a option) \<Rightarrow> ('s, 'a) py" where
  "getattr f = (\<lambda>s. case f s of None \<Rightarrow> Raise AttributeError s | Some a \<Rightarrow> Ok a s)"

text \<open>A \<open>for\<close> loop over a list, in order; the first exception ends it.\<close>

fun for_each :: "'a list \<Rightarrow> ('a \<Rightarrow> ('s, unit) py) \<Rightarrow> ('s, unit) py" where
  "for_each [] body = return ()"
| "for_each (x # xs) body = pseq (body x) (for_each xs body)"

text \<open>The same loop with a local variable that the body updates.\<close>

fun for_acc :: "'a list \<Rightarrow> 'b \<Rightarrow> ('a \<Rightarrow> 'b \<Rightarrow> ('s, 'b) py) \<Rightarrow> ('s, 'b) py" where
  "for_acc [] acc body = return acc"
| "for_acc (x # xs) acc body = pbind (body x acc) (\<lambda>acc'. for_acc xs acc' body)"

subsection \<open>Integers\<close>

text \<open>
  \<open>int(a / b)\<close> on Python 2 integers and \<open>a % b\<close>: both round towards minus infinity,
  both raise on a zero divisor.
\<close>

definition py_div :: "int \<Rightarrow> int \<Rightarrow> ('s, int) py" where
  "py_div a b = (if b = 0 then raise ZeroDivisionError else return (a div b))"

definition py_mod :: "int \<Rightarrow> int \<Rightarrow> ('s, int) py" where
  "py_mod a b = (if b = 0 then raise ZeroDivisionError else return (a mod b))"

text \<open>\<open>range(a, b)\<close>.\<close>

definition py_range :: "int \<Rightarrow> int \<Rightarrow> int list" where
  "py_range a b = [a..b - 1]"

text \<open>The position a Python index denotes in a list of length \<open>n\<close>, if it denotes one.\<close>

definition py_index :: "nat \<Rightarrow> int \<Rightarrow> nat option" where
  "py_index n i =
     (if 0 \<le> i \<and> i < int n then Some (nat i)
      else if i < 0 \<and> - int n \<le> i then Some (nat (int n + i))
      else None)"

text \<open>Indexing a list: \<open>xs[i]\<close>.\<close>

definition py_getitem :: "'a list \<Rightarrow> int \<Rightarrow> ('s, 'a) py" where
  "py_getitem xs i =
     (case py_index (length xs) i of None \<Rightarrow> raise IndexError | Some j \<Rightarrow> return (xs ! j))"

text \<open>Assigning to an element, and looking up a dictionary, both of which may raise.\<close>

definition py_setitem :: "'a list \<Rightarrow> int \<Rightarrow> 'a \<Rightarrow> ('s, 'a list) py" where
  "py_setitem xs i x =
     (case py_index (length xs) i of None \<Rightarrow> raise IndexError | Some j \<Rightarrow> return (xs[j := x]))"

definition py_lookup :: "('k \<rightharpoonup> 'v) \<Rightarrow> 'k \<Rightarrow> ('s, 'v) py" where
  "py_lookup m k = (case m k of None \<Rightarrow> raise KeyError | Some v \<Rightarrow> return v)"

named_theorems py_simps \<open>unfolding of the primitive computations\<close>

subsection \<open>Rules for computations\<close>

text \<open>
  The simplifier runs a computation from a given state: every rule here is applied to the
  state, and the first step's outcome decides how the rest goes on.
\<close>

lemma return_apply [simp]: "return a s = Ok a s"
  by (simp add: return_def)

lemma raise_apply [simp]: "raise e s = Raise e s"
  by (simp add: raise_def)

lemma gets_apply [simp]: "gets f s = Ok (f s) s"
  by (simp add: gets_def)

lemma modify_apply [simp]: "modify f s = Ok () (f s)"
  by (simp add: modify_def)

lemma py_assert_apply [simp]:
  "py_assert b s = (if b then Ok () s else Raise AssertionError s)"
  by (simp add: py_assert_def)

lemma getattr_apply [simp]:
  "f s = Some a \<Longrightarrow> getattr f s = Ok a s"
  "f s = None \<Longrightarrow> getattr f s = Raise AttributeError s"
  by (simp_all add: getattr_def)

lemma py_div_apply [simp]:
  "b \<noteq> 0 \<Longrightarrow> py_div a b s = Ok (a div b) s"
  "py_div a 0 s = Raise ZeroDivisionError s"
  by (simp_all add: py_div_def)

lemma py_mod_apply [simp]:
  "b \<noteq> 0 \<Longrightarrow> py_mod a b s = Ok (a mod b) s"
  "py_mod a 0 s = Raise ZeroDivisionError s"
  by (simp_all add: py_mod_def)

lemma py_if_apply [simp]:
  "(if b then m else n) (s :: 's) = (if b then m s else (n s :: ('s, 'a) outcome))"
  by simp

lemma py_lookup_apply [simp]:
  "m k = Some v \<Longrightarrow> py_lookup m k s = Ok v s"
  "m k = None \<Longrightarrow> py_lookup m k s = Raise KeyError s"
  by (simp_all add: py_lookup_def)

lemma pbind_simps [simp]:
  "m s = Ok a s' \<Longrightarrow> pbind m k s = k a s'"
  "m s = Raise e s' \<Longrightarrow> pbind m k s = Raise e s'"
  by (simp_all add: pbind_def)

text \<open>
  A condition \<open>True = ?a\<close> is simplified before it can instantiate, so booleans and options have
  instances of their own.
\<close>

lemma pbind_bool [simp]:
  "m s = Ok True s' \<Longrightarrow> pbind m k s = k True s'"
  "m s = Ok False s' \<Longrightarrow> pbind m k s = k False s'"
  by (simp_all add: pbind_def)

lemma pbind_option [simp]:
  "m s = Ok None s' \<Longrightarrow> pbind m k s = k None s'"
  "m s = Ok (Some x) s' \<Longrightarrow> pbind m k s = k (Some x) s'"
  by (simp_all add: pbind_def)

lemma pseq_simps [simp]:
  "m s = Ok a s' \<Longrightarrow> pseq m n s = n s'"
  "m s = Raise e s' \<Longrightarrow> pseq m n s = Raise e s'"
  by (simp_all add: pseq_def)

lemma pbind_if [simp]:
  "m s = (if b then Ok a t else Raise e u) \<Longrightarrow>
     pbind m k s = (if b then k a t else Raise e u)"
  by (simp add: pbind_def)

lemma pseq_if [simp]:
  "m s = (if b then Ok a t else Raise e u) \<Longrightarrow>
     pseq m n s = (if b then n t else Raise e u)"
  by (simp add: pseq_def)

lemma pbind_return: "pbind (return a) k = k a"
  by (simp add: fun_eq_iff)

lemma pbind_raise: "pbind (raise e) k = raise e"
  by (simp add: fun_eq_iff)

lemma pseq_return: "pseq (return a) n = n"
  by (simp add: fun_eq_iff)

lemma pbind_assoc: "pbind (pbind m f) g = pbind m (\<lambda>a. pbind (f a) g)"
  by (auto simp: pbind_def fun_eq_iff split: outcome.split)

lemma pseq_assoc: "pseq (pseq m n) k = pseq m (pseq n k)"
  by (simp add: pseq_def pbind_assoc)

lemma pseq_return_unit [simp]: "pseq m (return ()) = m"
  by (auto simp: pseq_def pbind_def return_def fun_eq_iff split: outcome.split)

lemma pbind_Ok_iff:
  "pbind m k s = Ok b t \<longleftrightarrow> (\<exists>a s'. m s = Ok a s' \<and> k a s' = Ok b t)"
  by (auto simp: pbind_def split: outcome.split)

lemma pbind_Raise_iff:
  "pbind m k s = Raise e t \<longleftrightarrow>
     m s = Raise e t \<or> (\<exists>a s'. m s = Ok a s' \<and> k a s' = Raise e t)"
  by (auto simp: pbind_def split: outcome.split)

lemma pseq_Ok_iff:
  "pseq m n s = Ok b t \<longleftrightarrow> (\<exists>a s'. m s = Ok a s' \<and> n s' = Ok b t)"
  by (simp add: pseq_def pbind_Ok_iff)

lemmas py_unfold [py_simps] = return_def raise_def pbind_def pseq_def gets_def modify_def

lemma pbind_cong_at:
  assumes "m s = m' s" and "\<And>a s'. m s = Ok a s' \<Longrightarrow> k a s' = k' a s'"
  shows "pbind m k s = pbind m' k' s"
  using assms by (auto simp: pbind_def split: outcome.split)

lemma pseq_cong_at:
  assumes "m s = m' s" and "\<And>a s'. m s = Ok a s' \<Longrightarrow> n s' = n' s'"
  shows "pseq m n s = pseq m' n' s"
  unfolding pseq_def by (rule pbind_cong_at) (use assms in auto)

lemma pbind_cong1: "m s = m' s \<Longrightarrow> pbind m k s = pbind m' k s"
  by (simp add: pbind_def)

lemma pseq_cong1: "m s = m' s \<Longrightarrow> pseq m n s = pseq m' n s"
  by (simp add: pseq_def pbind_def)

lemma pbind_pseq_return: "pbind (pseq m (return x)) k = pseq m (k x)"
  by (auto simp: fun_eq_iff pseq_def pbind_def return_def split: outcome.split)

subsection \<open>Loops\<close>

lemma for_each_append: "for_each (xs @ ys) body = pseq (for_each xs body) (for_each ys body)"
  by (induction xs) (simp_all add: pseq_assoc pseq_return)

text \<open>
  Two loops agree from a state when their bodies agree in every state the loop can pass
  through; \<open>I\<close> says what is known of those states.
\<close>

lemma for_each_cong_at:
  assumes "I s"
    and "\<And>x t. x \<in> set xs \<Longrightarrow> I t \<Longrightarrow> f x t = g x t"
    and "\<And>x t a t'. x \<in> set xs \<Longrightarrow> I t \<Longrightarrow> f x t = Ok a t' \<Longrightarrow> I t'"
  shows "for_each xs f s = for_each xs g s"
  using assms
proof (induction xs arbitrary: s)
  case Nil
  then show ?case by simp
next
  case (Cons x xs)
  have "pseq (f x) (for_each xs f) s = pseq (g x) (for_each xs g) s"
  proof (rule pseq_cong_at)
    show "f x s = g x s" using Cons.prems by simp
    fix a s' assume "f x s = Ok a s'"
    then have "I s'" using Cons.prems by (meson list.set_intros(1))
    then show "for_each xs f s' = for_each xs g s'"
      using Cons.IH Cons.prems(2,3) by (meson list.set_intros(2))
  qed
  then show ?case by simp
qed

text \<open>A loop whose body is itself a loop over a list runs over the concatenation.\<close>

lemma for_each_concat: "for_each xs (\<lambda>x. for_each (f x) g) = for_each (concat (map f xs)) g"
  by (induction xs) (simp_all add: for_each_append)

lemma for_each_map: "for_each (map h xs) g = for_each xs (\<lambda>x. g (h x))"
  by (induction xs) simp_all

text \<open>An invariant of the body is an invariant of the loop, whether it ends or raises.\<close>

lemma for_each_invariant:
  assumes "I s" and "\<And>x t. x \<in> set xs \<Longrightarrow> I t \<Longrightarrow> I (final (f x t))"
  shows "I (final (for_each xs f s))"
  using assms
proof (induction xs arbitrary: s)
  case Nil
  then show ?case by simp
next
  case (Cons x xs)
  show ?case
  proof (cases "f x s")
    case (Ok a s')
    have "I (final (f x s))" by (rule Cons.prems) (simp_all add: Cons.prems(1))
    then have "I s'" using Ok by simp
    then have "I (final (for_each xs f s'))"
      by (rule Cons.IH) (simp add: Cons.prems(2))
    with Ok show ?thesis by simp
  next
    case (Raise e s')
    have "I (final (f x s))" by (rule Cons.prems) (simp_all add: Cons.prems(1))
    with Raise show ?thesis by simp
  qed
qed

subsection \<open>Ranges and indices\<close>

lemma set_py_range [simp]: "set (py_range a b) = {a..<b}"
  by (auto simp: py_range_def)

lemma py_range_empty [simp]: "b \<le> a \<Longrightarrow> py_range a b = []"
  by (simp add: py_range_def)

lemma py_range_Cons: "a < b \<Longrightarrow> py_range a b = a # py_range (a + 1) b"
  by (simp add: py_range_def upto_rec1)

lemma py_range_snoc: "a \<le> b \<Longrightarrow> py_range a (b + 1) = py_range a b @ [b]"
  by (simp add: py_range_def upto_rec2)

lemma length_py_range [simp]: "length (py_range a b) = nat (b - a)"
  by (simp add: py_range_def)

lemma distinct_py_range [simp]: "distinct (py_range a b)"
  by (simp add: py_range_def)

lemma py_range_append:
  assumes "a \<le> b" "b \<le> c"
  shows "py_range a b @ py_range b c = py_range a c"
proof -
  have "[a..b - 1] @ [b..c - 1] = [a..c - 1]" if "a < b"
    using upto_split1 [of a "b - 1" "c - 1"] assms that upto_rec2 [of a "b - 1"]
      upto_rec1 [of "b - 1" "c - 1"] by simp
  then show ?thesis using assms by (cases "a < b") (simp_all add: py_range_def)
qed

text \<open>Loops over a range that cannot raise, with an invariant that counts the rounds.\<close>

lemma for_each_range:
  assumes "a \<le> b" "I a s"
    and "\<And>i t. a \<le> i \<Longrightarrow> i < b \<Longrightarrow> I i t \<Longrightarrow> \<exists>t'. f i t = Ok () t' \<and> I (i + 1) t'"
  shows "\<exists>s'. for_each (py_range a b) f s = Ok () s' \<and> I b s'"
  using assms
proof (induction "nat (b - a)" arbitrary: a s)
  case 0
  then show ?case by simp
next
  case (Suc n)
  then have l: "a < b" by simp
  obtain t where t: "f a s = Ok () t" "I (a + 1) t" using Suc.prems l by (metis order_refl)
  have "\<exists>s'. for_each (py_range (a + 1) b) f t = Ok () s' \<and> I b s'"
    using Suc.hyps(2) l t(2) by (intro Suc.hyps(1)) (auto intro: Suc.prems(3))
  then show ?case using t(1) by (simp add: py_range_Cons [OF l])
qed

lemma for_each_upt:
  assumes "a \<le> b" "I a s"
    and "\<And>i t. a \<le> i \<Longrightarrow> i < b \<Longrightarrow> I i t \<Longrightarrow> \<exists>t'. f i t = Ok () t' \<and> I (Suc i) t'"
  shows "\<exists>s'. for_each [a..<b] f s = Ok () s' \<and> I b s'"
  using assms
proof (induction "b - a" arbitrary: a s)
  case 0
  then show ?case by simp
next
  case (Suc n)
  then have l: "a < b" by simp
  obtain t where t: "f a s = Ok () t" "I (Suc a) t" using Suc.prems l by (metis order_refl)
  have "\<exists>s'. for_each [Suc a..<b] f t = Ok () s' \<and> I b s'"
    using Suc.hyps(2) l t(2) by (intro Suc.hyps(1)) (auto intro: Suc.prems(3))
  then show ?case using t(1) l by (simp add: upt_conv_Cons)
qed

lemma for_acc_nth:
  assumes "I 0 s"
    and "\<And>k x t. k < length xs \<Longrightarrow> I k t \<Longrightarrow> \<exists>y t'. f (xs ! k) x t = Ok y t' \<and> I (Suc k) t'"
  shows "\<exists>y s'. for_acc xs x f s = Ok y s' \<and> I (length xs) s'"
  using assms
proof (induction xs arbitrary: x s I)
  case Nil
  then show ?case by simp
next
  case (Cons a xs)
  obtain y t where t: "f a x s = Ok y t" "I (Suc 0) t" using Cons.prems(2) [of 0 s x] Cons.prems(1) by auto
  have "\<exists>z s'. for_acc xs y f t = Ok z s' \<and> I (Suc (length xs)) s'"
  proof (rule Cons.IH [of "\<lambda>k. I (Suc k)", OF t(2)])
    fix k x t assume k: "k < length xs" "I (Suc k) t"
    then show "\<exists>y t'. f (xs ! k) x t = Ok y t' \<and> I (Suc (Suc k)) t'" using Cons.prems(2) [of "Suc k" t x] by simp
  qed
  then show ?case using t(1) by simp
qed

lemma nth_py_range [simp]: "i < nat (b - a) \<Longrightarrow> py_range a b ! i = a + int i"
  by (simp add: py_range_def)

lemma py_index_nonneg [simp]: "0 \<le> i \<Longrightarrow> i < int n \<Longrightarrow> py_index n i = Some (nat i)"
  by (simp add: py_index_def)

lemma py_getitem_apply [simp]:
  "0 \<le> i \<Longrightarrow> i < int (length xs) \<Longrightarrow> py_getitem xs i s = Ok (xs ! nat i) s"
  by (simp add: py_getitem_def)

lemma py_setitem_apply [simp]:
  "0 \<le> i \<Longrightarrow> i < int (length xs) \<Longrightarrow> py_setitem xs i x s = Ok (xs[nat i := x]) s"
  by (simp add: py_setitem_def)

lemma py_index_less: "py_index n i = Some j \<Longrightarrow> j < n"
  by (auto simp: py_index_def split: if_splits)

lemma mod_shift:
  fixes n :: int
  assumes "0 \<le> j" "j < n" "0 \<le> m" "m < n"
  shows "(j - m) mod n = (if m \<le> j then j - m else j - m + n)"
proof (cases "m \<le> j")
  case True
  then show ?thesis using assms by (simp add: mod_pos_pos_trivial)
next
  case False
  have "(j - m) mod n = (j - m + n) mod n" by simp
  also have "\<dots> = j - m + n" using assms False by (intro mod_pos_pos_trivial) auto
  finally show ?thesis using False by simp
qed

lemma int_div_less_iff:
  fixes x y r :: int
  assumes "0 < y"
  shows "x div y < r \<longleftrightarrow> x < r * y"
proof
  assume "x div y < r"
  then have "(x div y + 1) * y \<le> r * y" using assms by (intro mult_right_mono) auto
  then show "x < r * y"
    using pos_mod_bound [OF assms, of x] div_mult_mod_eq [of x y]
    unfolding distrib_right by linarith
next
  assume l: "x < r * y"
  show "x div y < r"
  proof (rule ccontr)
    assume "\<not> x div y < r"
    then have "r * y \<le> x div y * y" using assms by (intro mult_right_mono) auto
    then show False
      using l pos_mod_sign [OF assms, of x] div_mult_mod_eq [of x y] by linarith
  qed
qed

lemma div_mod_eqI:
  fixes a b n :: int
  shows "a div n = b div n \<Longrightarrow> a mod n = b mod n \<Longrightarrow> a = b"
  by (metis div_mult_mod_eq)

end
