(* ===== verification/Convert.thy ===== *)
theory Convert
  imports Prelude
begin

section \<open>Sizes on the command line\<close>

text \<open>
  \<open>convert\<close> of \<open>lecture-15/raid.py\<close> turns a size such as \<open>4k\<close> into a number of bytes. It
  leans on two parts of Python that are modelled first: \<open>int\<close> of a string (an optional sign
  and decimal digits, surrounded by white space; anything else is a \<open>ValueError\<close>) and the
  decimal printing of an integer, which the round trip below inverts.
\<close>

subsection \<open>Decimal strings\<close>

definition is_digit :: "char \<Rightarrow> bool" where
  "is_digit c \<longleftrightarrow> 48 \<le> (of_char c :: nat) \<and> (of_char c :: nat) \<le> 57"

definition digit_val :: "char \<Rightarrow> nat" where
  "digit_val c = of_char c - 48"

definition is_space :: "char \<Rightarrow> bool" where
  "is_space c \<longleftrightarrow> (of_char c :: nat) \<in> {9, 10, 11, 12, 13, 32}"

fun digits_val :: "nat \<Rightarrow> string \<Rightarrow> nat option" where
  "digits_val acc [] = Some acc"
| "digits_val acc (c # cs) =
     (if is_digit c then digits_val (10 * acc + digit_val c) cs else None)"

definition nat_of_string :: "string \<Rightarrow> nat option" where
  "nat_of_string cs = (if cs = [] then None else digits_val 0 cs)"

definition strip :: "string \<Rightarrow> string" where
  "strip cs = rev (dropWhile is_space (rev (dropWhile is_space cs)))"

definition int_of_string :: "string \<Rightarrow> int option" where
  "int_of_string cs =
     (case strip cs of
        [] \<Rightarrow> None
      | c # ds \<Rightarrow>
          (if c = CHR ''-'' then map_option (\<lambda>n. - int n) (nat_of_string ds)
           else if c = CHR ''+'' then map_option int (nat_of_string ds)
           else map_option int (nat_of_string (c # ds))))"

definition py_int :: "string \<Rightarrow> ('s, int) py" where
  "py_int cs = (case int_of_string cs of None \<Rightarrow> raise ValueError | Some n \<Rightarrow> return n)"

fun show_nat :: "nat \<Rightarrow> string" where
  "show_nat n =
     (if n < 10 then [char_of (48 + n)] else show_nat (n div 10) @ [char_of (48 + n mod 10)])"

declare show_nat.simps [simp del]

definition show_int :: "int \<Rightarrow> string" where
  "show_int n = (if n < 0 then CHR ''-'' # show_nat (nat (- n)) else show_nat (nat n))"

subsection \<open>The conversion\<close>

definition convert :: "string \<Rightarrow> ('s, int) py" where
  "convert sz =
     (let length' = int (length sz) in
      pbind (py_getitem sz (length' - 1)) (\<lambda>lastchar.
        if lastchar = CHR ''k'' \<or> lastchar = CHR ''K'' then
          pbind (py_int (take (nat (length' - 1)) sz)) (\<lambda>n. return (n * 1024))
        else if lastchar = CHR ''m'' \<or> lastchar = CHR ''M'' then
          pbind (py_int (take (nat (length' - 1)) sz)) (\<lambda>n. return (n * (1024 * 1024)))
        else if lastchar = CHR ''g'' \<or> lastchar = CHR ''G'' then
          pbind (py_int (take (nat (length' - 1)) sz)) (\<lambda>n. return (n * (1024 * 1024 * 1024)))
        else py_int sz))"

definition unit_factor :: "char \<Rightarrow> int option" where
  "unit_factor c =
     (if c \<in> {CHR ''k'', CHR ''K''} then Some (2 ^ 10)
      else if c \<in> {CHR ''m'', CHR ''M''} then Some (2 ^ 20)
      else if c \<in> {CHR ''g'', CHR ''G''} then Some (2 ^ 30)
      else None)"

subsection \<open>Parsing what was printed\<close>

lemma digit_char:
  assumes "d < 10"
  shows "is_digit (char_of (48 + d))" "digit_val (char_of (48 + d)) = d"
    "\<not> is_space (char_of (48 + d))"
  using assms by (auto simp: is_digit_def digit_val_def is_space_def of_char_of)

lemma digits_val_append:
  "digits_val acc (xs @ ys) =
     (case digits_val acc xs of None \<Rightarrow> None | Some n \<Rightarrow> digits_val n ys)"
  by (induction xs arbitrary: acc) auto

lemma digits_val_show_nat: "digits_val 0 (show_nat n) = Some n"
proof (induction n rule: show_nat.induct)
  case (1 n)
  then show ?case
    by (subst show_nat.simps) (auto simp: digits_val_append digit_char)
qed

lemma show_nat_nonempty: "show_nat n \<noteq> []"
  by (subst show_nat.simps) simp

lemma nat_of_string_show_nat: "nat_of_string (show_nat n) = Some n"
  by (simp add: nat_of_string_def digits_val_show_nat show_nat_nonempty)

lemma is_digit_show_nat: "c \<in> set (show_nat n) \<Longrightarrow> is_digit c"
proof (induction n rule: show_nat.induct)
  case (1 n)
  from "1.prems" show ?case
    by (subst (asm) show_nat.simps) (auto split: if_splits simp: digit_char intro: "1.IH")
qed

lemma is_digit_not_space: "is_digit c \<Longrightarrow> \<not> is_space c"
  by (auto simp: is_digit_def is_space_def)

lemma is_digit_not_sign: "is_digit c \<Longrightarrow> c \<noteq> CHR ''-'' \<and> c \<noteq> CHR ''+''"
  by (auto simp: is_digit_def)

lemma dropWhile_no_space: "\<forall>c \<in> set cs. \<not> is_space c \<Longrightarrow> dropWhile is_space cs = cs"
  by (cases cs) auto

lemma strip_no_space: "\<forall>c \<in> set cs. \<not> is_space c \<Longrightarrow> strip cs = cs"
  by (simp add: strip_def dropWhile_no_space)

lemma show_int_no_space: "c \<in> set (show_int n) \<Longrightarrow> \<not> is_space c"
  by (auto simp: show_int_def is_space_def [of "CHR ''-''"] split: if_splits
      dest!: is_digit_show_nat is_digit_not_space)

lemma int_of_string_show_int [simp]: "int_of_string (show_int n) = Some n"
proof -
  have s: "strip (show_int n) = show_int n"
    by (rule strip_no_space) (simp add: show_int_no_space)
  show ?thesis
  proof (cases "n < 0")
    case True
    then show ?thesis
      unfolding int_of_string_def s by (simp add: show_int_def nat_of_string_show_nat)
  next
    case False
    obtain c cs where c: "show_nat (nat n) = c # cs"
      using show_nat_nonempty by (meson neq_Nil_conv)
    then have "is_digit c" using is_digit_show_nat [of c "nat n"] by simp
    with False c show ?thesis
      unfolding int_of_string_def s using nat_of_string_show_nat [of "nat n"]
      by (simp add: show_int_def is_digit_not_sign)
  qed
qed

lemma last_show_int: "is_digit (last (show_int n))"
proof -
  have "is_digit (last (show_nat m))" for m
    using is_digit_show_nat [of "last (show_nat m)" m] show_nat_nonempty [of m] by simp
  then show ?thesis by (simp add: show_int_def show_nat_nonempty)
qed

lemma unit_factor_not_digit: "is_digit c \<Longrightarrow> unit_factor c = None"
  by (auto simp: unit_factor_def is_digit_def)

subsection \<open>Behaviour of \<open>convert\<close>\<close>

lemma convert_Nil: "convert [] = raise IndexError"
  by (simp add: convert_def py_getitem_def py_index_def pbind_raise)

lemma py_getitem_last: "py_getitem (xs @ [x]) (int (length xs)) = return x"
  by (simp add: py_getitem_def)

lemma convert_snoc:
  "convert (cs @ [u]) =
     (case unit_factor u of
        Some f \<Rightarrow> pbind (py_int cs) (\<lambda>n. return (n * f))
      | None \<Rightarrow> py_int (cs @ [u]))"
  by (auto simp: convert_def Let_def py_getitem_last unit_factor_def pbind_return)

text \<open>
  C28. Printing an integer and appending one of the six unit letters gives a string that
  \<open>convert\<close> reads back as that integer times the unit; without a letter it reads the integer
  itself.
\<close>

theorem convert_roundtrip:
  "convert (show_int n) = return n \<and>
   convert (show_int n @ ''k'') = return (n * 2 ^ 10) \<and>
   convert (show_int n @ ''K'') = return (n * 2 ^ 10) \<and>
   convert (show_int n @ ''m'') = return (n * 2 ^ 20) \<and>
   convert (show_int n @ ''M'') = return (n * 2 ^ 20) \<and>
   convert (show_int n @ ''g'') = return (n * 2 ^ 30) \<and>
   convert (show_int n @ ''G'') = return (n * 2 ^ 30)"
proof -
  obtain cs c where c: "show_int n = cs @ [c]"
    using show_nat_nonempty by (metis append_butlast_last_id list.distinct(1) show_int_def)
  then have "is_digit c" using last_show_int [of n] by simp
  then have "convert (cs @ [c]) = py_int (cs @ [c])"
    by (simp only: convert_snoc unit_factor_not_digit option.case)
  then have "convert (show_int n) = return n" by (simp add: c [symmetric] py_int_def)
  then show ?thesis by (simp add: convert_snoc unit_factor_def py_int_def pbind_return del: return_apply)
qed

text \<open>
  What \<open>int\<close> accepts: an optional sign and at least one digit, inside white space. The two
  versions of Python the script is written for agree on this for the characters of \<open>plain_char\<close>;
  outside them, Python 3 knows more digits and white space, and from 3.6 on underscores between
  digits.
\<close>

definition plain_char :: "char \<Rightarrow> bool" where
  "plain_char c \<longleftrightarrow> (let n = (of_char c :: nat) in 9 \<le> n \<and> n \<le> 13 \<or> 32 \<le> n \<and> n < 127) \<and> c \<noteq> CHR ''_''"

definition decimal :: "string \<Rightarrow> bool" where
  "decimal txt \<longleftrightarrow>
     (let cs = strip txt; ds = (if cs \<noteq> [] \<and> hd cs \<in> {CHR ''-'', CHR ''+''} then tl cs else cs)
      in ds \<noteq> [] \<and> list_all is_digit ds)"

lemma digits_val_None: "digits_val acc ds = None \<longleftrightarrow> \<not> list_all is_digit ds"
  by (induction acc ds rule: digits_val.induct) auto

lemma nat_of_string_None: "nat_of_string ds = None \<longleftrightarrow> \<not> (ds \<noteq> [] \<and> list_all is_digit ds)"
  by (auto simp: nat_of_string_def digits_val_None)

lemma int_of_string_None: "int_of_string txt = None \<longleftrightarrow> \<not> decimal txt"
  using nat_of_string_None by (auto simp: int_of_string_def decimal_def Let_def split: list.split)

lemma unit_factor_None: "unit_factor u = None \<longleftrightarrow> u \<notin> set ''kKmMgG''"
  by (auto simp: unit_factor_def)

text \<open>
  C29. \<open>convert\<close> raises \<open>IndexError\<close> on the empty string (\<open>size[-1]\<close>). Otherwise the text before a
  unit letter, or the whole text if it does not end in one, decides: if it is a decimal numeral,
  the result is that number times the unit, and if not, \<open>convert\<close> raises \<open>ValueError\<close>.
\<close>

theorem convert_errors:
  assumes "list_all plain_char cs"
  shows "(cs = [] \<longrightarrow> convert cs = raise IndexError) \<and>
    (\<forall>ts u. cs = ts @ [u] \<longrightarrow>
      (let num = (if u \<in> set ''kKmMgG'' then ts else cs) in
        (\<not> decimal num \<longrightarrow> convert cs = raise ValueError) \<and>
        (decimal num \<longrightarrow> (\<exists>n. int_of_string num = Some n \<and>
           convert cs = return (case unit_factor u of Some f \<Rightarrow> n * f | None \<Rightarrow> n)))))"
proof (intro conjI allI impI)
  show "convert cs = raise IndexError" if "cs = []" using that convert_Nil by simp
  fix ts u assume cs: "cs = ts @ [u]"
  show "let num = (if u \<in> set ''kKmMgG'' then ts else cs) in
        (\<not> decimal num \<longrightarrow> convert cs = raise ValueError) \<and>
        (decimal num \<longrightarrow> (\<exists>n. int_of_string num = Some n \<and>
           convert cs = return (case unit_factor u of Some f \<Rightarrow> n * f | None \<Rightarrow> n)))"
  proof (cases "unit_factor u")
    case None
    then have u: "u \<notin> set ''kKmMgG''" using unit_factor_None [of u] by blast
    show ?thesis
      unfolding Let_def if_not_P [OF u] cs convert_snoc None option.case
      using int_of_string_None [of "ts @ [u]"]
      by (cases "int_of_string (ts @ [u])") (auto simp: py_int_def simp del: return_apply raise_apply)
  next
    case (Some f)
    then have u: "u \<in> set ''kKmMgG''" using unit_factor_None [of u] by (metis option.distinct(1))
    show ?thesis
      unfolding Let_def if_P [OF u] cs convert_snoc Some option.case
      using int_of_string_None [of ts]
      by (cases "int_of_string ts")
        (auto simp: py_int_def pbind_return pbind_raise simp del: return_apply raise_apply)
  qed
qed

theorem convert_errors_witness:
  "convert [] = raise IndexError \<and> convert ''k'' = raise ValueError \<and> convert ''4 b'' = raise ValueError \<and>
   convert '' -4k'' = return (- 4096)"
proof -
  have p: "list_all plain_char ''k''" "list_all plain_char ''4 b''" "list_all plain_char '' -4k''" by code_simp+
  have d: "\<not> decimal []" "\<not> decimal ''4 b''" "decimal '' -4''" "int_of_string '' -4'' = Some (- 4)" by code_simp+
  have "''k'' = [] @ ''k''" "''4 b'' = ''4 '' @ ''b''" "'' -4k'' = '' -4'' @ ''k''" by simp_all
  then show ?thesis
    using convert_errors [of "[]"]
      convert_errors [OF p(1), THEN conjunct2, rule_format, of "[]" "CHR ''k''"]
      convert_errors [OF p(2), THEN conjunct2, rule_format, of "''4 ''" "CHR ''b''"]
      convert_errors [OF p(3), THEN conjunct2, rule_format, of "'' -4''" "CHR ''k''"] d
    by (simp add: Let_def unit_factor_def)
qed

end
