(* ===== verification/PyFloat.thy ===== *)
theory PyFloat
  imports Complex_Main "HOL-Library.Log_Nat" Prelude
begin

section \<open>Double precision arithmetic\<close>

text \<open>
  Python's \<open>float\<close> as the rational number it denotes. Every operation is the exact rational
  operation followed by \<open>rnd\<close>, rounding to 53 significant bits, ties to even, as IEEE 754
  prescribes for the default rounding mode. The exponent is not bounded here: the values the
  scripts compute (sums of seek and transfer times, fractions, percentages) stay far inside the
  normal range of a double, where the bound has no effect. A float that the user types can be any
  double; the last section has those.
\<close>

type_synonym pyfloat = rat

definition fl_exp :: "rat \<Rightarrow> int" where
  "fl_exp x =
     (let (p, q) = quotient_of \<bar>x\<bar>; k = bitlen p - bitlen q
      in if 2 powi k \<le> \<bar>x\<bar> then k else k - 1)"

definition round_even :: "rat \<Rightarrow> int" where
  "round_even y =
     (let f = \<lfloor>y\<rfloor>; d = y - of_int f
      in if d < 1 / 2 then f else if d > 1 / 2 then f + 1
         else if even f then f else f + 1)"

definition fl_ulp :: "rat \<Rightarrow> rat" where
  "fl_ulp x = 2 powi (fl_exp x - 52)"

definition rnd :: "rat \<Rightarrow> pyfloat" where
  "rnd x = (if x = 0 then 0 else of_int (round_even (x / fl_ulp x)) * fl_ulp x)"

definition fl_add :: "pyfloat \<Rightarrow> pyfloat \<Rightarrow> pyfloat" where
  "fl_add a b = rnd (a + b)"

definition fl_mul :: "pyfloat \<Rightarrow> pyfloat \<Rightarrow> pyfloat" where
  "fl_mul a b = rnd (a * b)"

definition fl_div :: "pyfloat \<Rightarrow> pyfloat \<Rightarrow> pyfloat" where
  "fl_div a b = rnd (a / b)"

definition fl_of_int :: "int \<Rightarrow> pyfloat" where
  "fl_of_int n = rnd (of_int n)"

text \<open>\<open>int(x)\<close> of a float truncates towards zero.\<close>

definition fl_trunc :: "pyfloat \<Rightarrow> int" where
  "fl_trunc x = (if 0 \<le> x then \<lfloor>x\<rfloor> else - \<lfloor>- x\<rfloor>)"

text \<open>
  \<open>int(a / b)\<close> the way Python 3 computes it: true division gives the double nearest to the
  quotient, then \<open>int\<close> truncates.
\<close>

definition py3_int_div :: "int \<Rightarrow> int \<Rightarrow> ('s, int) py" where
  "py3_int_div a b =
     (if b = 0 then raise ZeroDivisionError
      else return (fl_trunc (rnd (of_int a / of_int b))))"

subsection \<open>The exponent\<close>

lemma powi2_mono: "a \<le> b \<Longrightarrow> (2::rat) powi a \<le> 2 powi b"
  by (rule power_int_increasing) auto

lemma powi2_strict_mono: "a < b \<Longrightarrow> (2::rat) powi a < 2 powi b"
  by (rule power_int_strict_increasing) auto

lemma powi2_less_imp: "(2::rat) powi a < 2 powi b \<Longrightarrow> a < b"
  using powi2_mono [of b a] by force

lemma bitlen_powi:
  assumes "0 < n"
  shows "2 powi (bitlen n - 1) \<le> (of_int n :: rat)" "(of_int n :: rat) < 2 powi (bitlen n)"
proof -
  have "bitlen n \<noteq> 0" using assms by (simp add: bitlen_eq_zero_iff)
  then have pos: "0 < bitlen n" using bitlen_nonneg [of n] by simp
  from bitlen_bounds [of n] assms
  have l: "(2::int) ^ nat (bitlen n - 1) \<le> n" and u: "n < 2 ^ nat (bitlen n)" by auto
  from l have "(of_int (2 ^ nat (bitlen n - 1)) :: rat) \<le> of_int n" by (simp only: of_int_le_iff)
  with pos show "2 powi (bitlen n - 1) \<le> (of_int n :: rat)" by (simp add: power_int_def)
  from u have "(of_int n :: rat) < of_int (2 ^ nat (bitlen n))" by (simp only: of_int_less_iff)
  with pos show "(of_int n :: rat) < 2 powi (bitlen n)" by (simp add: power_int_def)
qed

lemma fl_exp_bounds:
  assumes "x \<noteq> 0"
  shows "2 powi fl_exp x \<le> \<bar>x\<bar>" "\<bar>x\<bar> < 2 powi (fl_exp x + 1)"
proof -
  obtain p q where pq: "quotient_of \<bar>x\<bar> = (p, q)" by fastforce
  have q: "0 < q" using pq by (rule quotient_of_denom_pos)
  have x: "\<bar>x\<bar> = of_int p / of_int q" using pq by (rule quotient_of_div)
  have p: "0 < p" using assms q x by (simp add: zero_less_divide_iff flip: zero_less_abs_iff)
  then have p': "0 \<le> p" by simp
  let ?k = "bitlen p - bitlen q"
  note bp = bitlen_powi [OF p] and bq = bitlen_powi [OF q]
  have "\<bar>x\<bar> < 2 powi (bitlen p) / 2 powi (bitlen q - 1)"
    unfolding x using bp bq q p' by (intro frac_less) auto
  then have hi: "\<bar>x\<bar> < 2 powi (?k + 1)"
    by (simp add: power_int_diff power_int_add field_simps)
  have "2 powi (bitlen p - 1) / 2 powi (bitlen q) \<le> \<bar>x\<bar>"
    unfolding x using bp bq q p' by (intro frac_le) auto
  then have lo: "2 powi (?k - 1) \<le> \<bar>x\<bar>"
    by (simp add: power_int_diff power_int_add field_simps)
  show "2 powi fl_exp x \<le> \<bar>x\<bar>" using lo by (simp add: fl_exp_def pq Let_def)
  show "\<bar>x\<bar> < 2 powi (fl_exp x + 1)" using hi by (simp add: fl_exp_def pq Let_def)
qed

lemma fl_exp_mono:
  assumes "0 < x" "x \<le> y"
  shows "fl_exp x \<le> fl_exp y"
proof -
  have "(2::rat) powi fl_exp x < 2 powi (fl_exp y + 1)"
    using fl_exp_bounds [of x] fl_exp_bounds [of y] assms by simp
  then show ?thesis by (auto dest: powi2_less_imp)
qed

lemma fl_ulp_pos [simp]: "0 < fl_ulp x"
  by (simp add: fl_ulp_def)

lemma fl_ulp_neq_0 [simp]: "fl_ulp x \<noteq> 0"
  using fl_ulp_pos [of x] by linarith

subsection \<open>Rounding\<close>

lemma round_even_bounds: "of_int (round_even y) \<le> y + 1 / 2" "y - 1 / 2 \<le> of_int (round_even y)"
proof -
  define d where "d = y - of_int \<lfloor>y\<rfloor>"
  have y: "y = of_int \<lfloor>y\<rfloor> + d" and d: "0 \<le> d" "d < 1"
    using floor_correct [of y] by (auto simp: d_def)
  show "of_int (round_even y) \<le> y + 1 / 2" "y - 1 / 2 \<le> of_int (round_even y)"
    using y d by (simp_all add: round_even_def Let_def flip: d_def)
qed

lemma round_even_of_int [simp]: "round_even (of_int n) = n"
  by (simp add: round_even_def)

lemma round_even_mono: "x \<le> y \<Longrightarrow> round_even x \<le> round_even y"
  using floor_mono [of x y] by (cases "\<lfloor>x\<rfloor> = \<lfloor>y\<rfloor>") (auto simp: round_even_def Let_def)

lemma round_even_ge_int: "of_int n \<le> y \<Longrightarrow> n \<le> round_even y"
  using round_even_mono [of "of_int n" y] by simp

lemma round_even_le_int: "y \<le> of_int n \<Longrightarrow> round_even y \<le> n"
  using round_even_mono [of y "of_int n"] by simp

lemma round_even_scaled:
  assumes "x / fl_ulp x = of_int k"
  shows "of_int (round_even (x / fl_ulp x)) * fl_ulp x = x"
proof -
  have "of_int (round_even (x / fl_ulp x)) * fl_ulp x = (x / fl_ulp x) * fl_ulp x"
    unfolding assms round_even_of_int ..
  then show ?thesis by simp
qed

lemma rnd_0 [simp]: "rnd 0 = 0"
  by (simp add: rnd_def)

lemma rnd_error: "\<bar>rnd x - x\<bar> \<le> fl_ulp x / 2"
proof (cases "x = 0")
  case False
  let ?r = "of_int (round_even (x / fl_ulp x)) :: rat"
  have "rnd x - x = (?r - x / fl_ulp x) * fl_ulp x"
    using False fl_ulp_pos [of x] by (simp add: rnd_def algebra_simps)
  moreover have "\<bar>?r - x / fl_ulp x\<bar> \<le> 1 / 2"
    using round_even_bounds [of "x / fl_ulp x"] by linarith
  ultimately show ?thesis using mult_right_mono [of _ "1 / 2" "\<bar>fl_ulp x\<bar>"] fl_ulp_pos [of x]
    by (simp add: abs_mult less_imp_le)
qed (simp add: less_imp_le)

text \<open>A value within a binade rounds into the closed binade.\<close>

lemma rnd_binade:
  assumes "0 < x"
  shows "2 powi fl_exp x \<le> rnd x" "rnd x \<le> 2 powi (fl_exp x + 1)"
proof -
  let ?u = "fl_ulp x"
  have e: "2 powi fl_exp x = (of_int (2 ^ 52) :: rat) * ?u"
    by (simp add: fl_ulp_def power_int_diff)
  have e1: "2 powi (fl_exp x + 1) = (of_int (2 ^ 53) :: rat) * ?u"
    by (simp add: fl_ulp_def power_int_diff power_int_add)
  have b: "2 powi fl_exp x \<le> x" "x < 2 powi (fl_exp x + 1)"
    using fl_exp_bounds [of x] assms by auto
  have "of_int (2 ^ 52) \<le> x / ?u" using b(1) unfolding e by (simp add: pos_le_divide_eq)
  then have "2 ^ 52 \<le> round_even (x / ?u)" by (rule round_even_ge_int)
  then have "of_int (2 ^ 52) * ?u \<le> of_int (round_even (x / ?u)) * ?u"
    by (intro mult_right_mono) (simp_all only: of_int_le_iff less_imp_le fl_ulp_pos)
  then show "2 powi fl_exp x \<le> rnd x" using assms by (simp only: e) (simp add: rnd_def)
  have "x / ?u \<le> of_int (2 ^ 53)" using b(2) unfolding e1 by (simp add: pos_divide_le_eq)
  then have "round_even (x / ?u) \<le> 2 ^ 53" by (rule round_even_le_int)
  then have "of_int (round_even (x / ?u)) * ?u \<le> of_int (2 ^ 53) * ?u"
    by (intro mult_right_mono) (simp_all only: of_int_le_iff less_imp_le fl_ulp_pos)
  then show "rnd x \<le> 2 powi (fl_exp x + 1)" using assms by (simp only: e1) (simp add: rnd_def)
qed

lemma rnd_pos: "0 < x \<Longrightarrow> 0 < rnd x"
  using rnd_binade(1) [of x] by (meson less_le_trans zero_less_power_int zero_less_numeral)

lemma rnd_nonneg [simp, intro]: "0 \<le> x \<Longrightarrow> 0 \<le> rnd x"
  using rnd_pos [of x] by (cases "x = 0") auto

lemma rnd_mono:
  assumes "0 \<le> x" "x \<le> y"
  shows "rnd x \<le> rnd y"
proof (cases "x = 0")
  case True
  then show ?thesis using assms by simp
next
  case False
  with assms have x: "0 < x" and y: "0 < y" by auto
  show ?thesis
  proof (cases "fl_exp x = fl_exp y")
    case True
    then have u: "fl_ulp x = fl_ulp y" by (simp add: fl_ulp_def)
    have "round_even (x / fl_ulp y) \<le> round_even (y / fl_ulp y)"
      using assms by (intro round_even_mono divide_right_mono) (auto intro: less_imp_le)
    then show ?thesis using x y u by (auto simp: rnd_def intro: mult_right_mono less_imp_le)
  next
    case False
    with fl_exp_mono [OF x assms(2)] have "fl_exp x + 1 \<le> fl_exp y" by simp
    then show ?thesis
      using rnd_binade(2) [OF x] rnd_binade(1) [OF y] powi2_mono by (meson order_trans)
  qed
qed

text \<open>The doubles are the fixed points of rounding; integers up to \<open>2 ^ 53\<close> are among them.\<close>

definition is_double :: "rat \<Rightarrow> bool" where
  "is_double x \<longleftrightarrow> rnd x = x"

lemma is_double_scaled:
  assumes "x = of_int m * 2 powi e" "\<bar>m\<bar> \<le> 2 ^ 53"
  shows "is_double x"
proof (cases "x = 0")
  case False
  let ?f = "fl_exp x - 52"
  have pow: "(0::rat) < 2 powi e" by simp
  have "\<bar>x\<bar> = of_int \<bar>m\<bar> * 2 powi e" using assms(1) by (simp add: abs_mult)
  also have "\<dots> \<le> of_int (2 ^ 53) * 2 powi e"
    using assms(2) pow by (intro mult_right_mono) (simp_all only: of_int_le_iff less_imp_le)
  also have "\<dots> = 2 powi (e + 53)" by (simp add: power_int_add)
  finally have le: "\<bar>x\<bar> \<le> 2 powi (e + 53)" .
  show ?thesis
  proof (cases "\<bar>x\<bar> = 2 powi (e + 53)")
    case True
    then have "fl_exp x = e + 53"
      using fl_exp_bounds [OF False] powi2_less_imp [of "e + 53" "fl_exp x + 1"]
        powi2_strict_mono [of "e + 53" "fl_exp x"] by fastforce
    then have u: "fl_ulp x = 2 powi (e + 1)" by (simp add: fl_ulp_def add.commute)
    have "of_int \<bar>m\<bar> * 2 powi e = (of_int (2 ^ 53) :: rat) * 2 powi e"
      using True assms(1) by (simp add: abs_mult power_int_add)
    then have "\<bar>m\<bar> = 2 ^ 53" using pow by (simp only: mult_right_cancel of_int_eq_iff)
    then have m: "m = (sgn m * 2 ^ 52) * 2" by (simp add: sgn_if abs_if split: if_splits)
    have "x / fl_ulp x = of_int (sgn m * 2 ^ 52)"
      unfolding u by (subst assms(1), subst m) (simp add: power_int_add)
    then have "of_int (round_even (x / fl_ulp x)) * fl_ulp x = x" by (rule round_even_scaled)
    then show ?thesis using False by (simp add: is_double_def rnd_def)
  next
    case neq: False
    then have "(2::rat) powi fl_exp x < 2 powi (e + 53)"
      using le fl_exp_bounds(1) [OF False] by simp
    then have f: "?f \<le> e" by (auto dest: powi2_less_imp)
    have "x / fl_ulp x = of_int m * 2 powi (e - ?f)"
      using assms(1) by (simp add: fl_ulp_def power_int_diff)
    also have "\<dots> = of_int (m * 2 ^ nat (e - ?f))" using f by (simp add: power_int_def)
    finally have "of_int (round_even (x / fl_ulp x)) * fl_ulp x = x" by (rule round_even_scaled)
    then show ?thesis using False by (simp add: is_double_def rnd_def)
  qed
qed (simp add: is_double_def)

lemma is_double_of_int: "\<bar>n\<bar> \<le> 2 ^ 53 \<Longrightarrow> is_double (of_int n)"
  by (rule is_double_scaled [where m = n and e = 0]) simp_all

lemma fl_of_int_exact [simp]: "\<bar>n\<bar> \<le> 2 ^ 53 \<Longrightarrow> fl_of_int n = of_int n"
  using is_double_of_int by (simp add: fl_of_int_def is_double_def)

lemma is_double_rnd: "is_double (rnd x)"
proof (cases "x = 0")
  case False
  let ?u = "fl_ulp x" and ?r = "round_even (x / fl_ulp x)"
  have "\<bar>x / ?u\<bar> < of_int (2 ^ 53)"
    using fl_exp_bounds(2) [OF False]
    by (simp add: fl_ulp_def power_int_diff power_int_add field_simps abs_mult)
  then have "- of_int (2 ^ 53) \<le> x / ?u" "x / ?u \<le> of_int (2 ^ 53)" by linarith+
  then have "- (2 ^ 53) \<le> ?r" "?r \<le> 2 ^ 53"
    using round_even_ge_int [of "- (2 ^ 53)" "x / ?u"] round_even_le_int [of "x / ?u" "2 ^ 53"]
    by auto
  then have "\<bar>?r\<bar> \<le> 2 ^ 53" by linarith
  with False show ?thesis
    by (intro is_double_scaled [where m = ?r and e = "fl_exp x - 52"])
      (simp_all add: rnd_def fl_ulp_def)
qed (simp add: is_double_def)

lemma rnd_rnd [simp]: "rnd (rnd x) = rnd x"
  using is_double_rnd by (simp add: is_double_def)

text \<open>Adding a nonnegative amount to a double never makes it smaller.\<close>

lemma fl_add_ge: "is_double a \<Longrightarrow> 0 \<le> a \<Longrightarrow> 0 \<le> b \<Longrightarrow> a \<le> fl_add a b"
  using rnd_mono [of a "a + b"] by (simp add: fl_add_def is_double_def)

lemma is_double_fl_add [simp]: "is_double (fl_add a b)"
  by (simp add: fl_add_def is_double_rnd)

lemma fl_nonneg [simp]:
  "0 \<le> a \<Longrightarrow> 0 \<le> b \<Longrightarrow> 0 \<le> fl_add a b"
  "0 \<le> a \<Longrightarrow> 0 \<le> b \<Longrightarrow> 0 \<le> fl_mul a b"
  by (simp_all add: fl_add_def fl_mul_def)

lemma fl_of_int_nonneg [simp]: "0 \<le> n \<Longrightarrow> 0 \<le> fl_of_int n"
  by (simp add: fl_of_int_def)

subsection \<open>Integer division on Python 2 and Python 3\<close>

text \<open>
  For a nonnegative dividend below \<open>2 ^ 53\<close> the rounding of the quotient never reaches the
  next integer, so truncating it gives the floor.
\<close>

lemma floor_rnd_quotient:
  fixes a b :: int
  assumes a: "0 \<le> a" "a < 2 ^ 53" and b: "0 < b"
  shows "\<lfloor>rnd (of_int a / of_int b)\<rfloor> = a div b"
proof -
  define q :: rat where "q = of_int a / of_int b"
  let ?n = "a div b"
  have q0: "0 \<le> q" using a b by (simp add: q_def)
  have n: "0 \<le> ?n" "?n \<le> a" using a b zdiv_mono2 [of a 1 b] by (simp_all add: pos_imp_zdiv_nonneg_iff)
  have "of_int (b * ?n) \<le> (of_int a :: rat)"
    using b by (simp only: of_int_le_iff) (simp add: minus_mod_eq_mult_div [symmetric])
  then have lo: "of_int ?n \<le> q" using b by (simp add: q_def field_simps)
  have "a + 1 \<le> b * (?n + 1)" 
    unfolding distrib_left using pos_mod_bound [OF b, of a] mult_div_mod_eq [of b a] by linarith
  then have "of_int (a + 1) \<le> (of_int (b * (?n + 1)) :: rat)" by (simp only: of_int_le_iff)
  then have hi: "q + 1 / of_int b \<le> of_int (?n + 1)" using b by (simp add: q_def field_simps)
  have r1: "of_int ?n \<le> rnd q"
    using rnd_mono [OF _ lo] is_double_of_int [of ?n] n a by (simp add: is_double_def)
  have "0 < 1 / (of_int b :: rat)" using b by simp
  with hi have q1: "q \<le> of_int (?n + 1)" by linarith
  have "\<bar>?n + 1\<bar> \<le> 2 ^ 53" using n a by simp
  then have "rnd (of_int (?n + 1)) = of_int (?n + 1)"
    using is_double_of_int [of "?n + 1"] unfolding is_double_def by blast
  then have "rnd q \<le> of_int (?n + 1)" using rnd_mono [OF q0 q1] by simp
  moreover have "rnd q \<noteq> of_int (?n + 1)"
  proof
    assume eq: "rnd q = of_int (?n + 1)"
    then have qn: "q \<noteq> 0" using n by auto
    have "1 / of_int b \<le> rnd q - q" using hi eq by simp
    also have "\<dots> \<le> fl_ulp q / 2" using rnd_error [of q] by linarith
    also have "\<dots> = 2 powi fl_exp q / 2 ^ 53" by (simp add: fl_ulp_def power_int_diff)
    also have "\<dots> \<le> q / 2 ^ 53"
      using fl_exp_bounds(1) [OF qn] q0 by (intro divide_right_mono) auto
    finally have "1 \<le> (of_int a :: rat) / 2 ^ 53" using b by (simp add: q_def field_simps)
    then have "(of_int (2 ^ 53) :: rat) \<le> of_int a" by simp
    then have "2 ^ 53 \<le> a" by (simp only: of_int_le_iff)
    with a show False by simp
  qed
  ultimately have "rnd q < of_int (?n + 1)" by simp
  with r1 show ?thesis by (simp add: q_def floor_eq_iff)
qed

lemma py3_int_div_eq:
  "0 \<le> a \<Longrightarrow> a < 2 ^ 53 \<Longrightarrow> 0 < b \<Longrightarrow> py3_int_div a b = py_div a b"
  using floor_rnd_quotient [of a b] by (simp add: py3_int_div_def py_div_def fl_trunc_def)

subsection \<open>Random draws\<close>

text \<open>A value of \<open>random.random()\<close>: a 53 bit integer over \<open>2 ^ 53\<close>.\<close>

definition is_draw :: "pyfloat \<Rightarrow> bool" where
  "is_draw r \<longleftrightarrow> 0 \<le> r \<and> r < 1 \<and> of_int \<lfloor>r * 2 ^ 53\<rfloor> = r * 2 ^ 53"

lemma is_draw_le: "is_draw r \<Longrightarrow> r \<le> 1 - 1 / 2 ^ 53"
proof -
  assume r: "is_draw r"
  then obtain m :: int where m: "r * 2 ^ 53 = of_int m" by (auto simp: is_draw_def)
  have "of_int m < (of_int (2 ^ 53) :: rat)" using r m by (simp add: is_draw_def flip: m)
  then have "m + 1 \<le> 2 ^ 53" by (simp only: of_int_less_iff)
  then have "of_int (m + 1) \<le> (of_int (2 ^ 53) :: rat)" by (simp only: of_int_le_iff)
  then have "r * 2 ^ 53 + 1 \<le> 2 ^ 53"
    unfolding m of_int_add of_int_1 of_int_power of_int_numeral .
  then show ?thesis by (simp add: field_simps)
qed

text \<open>The rounded product of a draw and a bound, truncated, stays below the bound.\<close>

lemma draw_below:
  assumes r: "is_draw r" and n: "0 < n" "n \<le> 2 ^ 53"
  shows "0 \<le> fl_trunc (fl_mul r (fl_of_int n))" "fl_trunc (fl_mul r (fl_of_int n)) < n"
proof -
  let ?y = "r * of_int n"
  have y0: "0 \<le> ?y" using r n by (simp add: is_draw_def)
  have yn: "?y \<le> of_int n - of_int n / 2 ^ 53"
    using mult_right_mono [OF is_draw_le [OF r], of "of_int n"] n by (simp add: algebra_simps)
  have np: "0 < (of_int n :: rat) / 2 ^ 53" using n by simp
  have mul: "fl_mul r (fl_of_int n) = rnd ?y" using n by (simp add: fl_mul_def)
  have dn: "rnd (of_int n) = of_int n" using is_double_of_int [of n] n by (simp add: is_double_def)
  have "?y \<le> of_int n" using yn np by linarith
  then have le: "rnd ?y \<le> of_int n" using rnd_mono [OF y0, of "of_int n"] dn by simp
  have "rnd ?y \<noteq> of_int n"
  proof
    assume eq: "rnd ?y = of_int n"
    then have y: "?y \<noteq> 0" using n by auto
    have "of_int n / 2 ^ 53 \<le> rnd ?y - ?y" using yn eq by linarith
    also have "\<dots> \<le> fl_ulp ?y / 2" using rnd_error [of ?y] by linarith
    also have "\<dots> = 2 powi fl_exp ?y / 2 ^ 53" by (simp add: fl_ulp_def power_int_diff)
    also have "\<dots> \<le> ?y / 2 ^ 53" using fl_exp_bounds(1) [OF y] y0 by (intro divide_right_mono) auto
    finally have "of_int n \<le> ?y" by simp
    with yn np show False by linarith
  qed
  with le have "rnd ?y < of_int n" by simp
  moreover have "0 \<le> rnd ?y" using y0 by simp
  ultimately show "0 \<le> fl_trunc (fl_mul r (fl_of_int n))" "fl_trunc (fl_mul r (fl_of_int n)) < n"
    by (simp_all add: mul fl_trunc_def floor_less_iff)
qed

subsection \<open>All doubles\<close>

text \<open>
  A float read from text may be infinite or no number, and is subject to the bounds of the
  exponent: below \<open>2 powi (-1022)\<close> doubles are the multiples of \<open>2 powi (-1074)\<close>, and a value that
  rounds to \<open>2 powi 1024\<close> or more is infinite. The sign of a zero is dropped, as it does not matter
  in a comparison, which is all these floats are used for.
\<close>

datatype xfloat = Finite pyfloat | Inf | MinusInf | NaN

definition to_double :: "rat \<Rightarrow> xfloat" where
  "to_double x =
     (if x = 0 then Finite 0
      else if fl_exp x < - 1022 then Finite (of_int (round_even (x * 2 ^ 1074)) / 2 ^ 1074)
      else if fl_exp (rnd x) < 1024 then Finite (rnd x)
      else if 0 < x then Inf else MinusInf)"

fun fl_less :: "pyfloat \<Rightarrow> xfloat \<Rightarrow> bool" where
  "fl_less x (Finite y) = (x < y)"
| "fl_less x Inf = True"
| "fl_less x MinusInf = False"
| "fl_less x NaN = False"

end
