(* ===== verification/Disk.thy ===== *)
theory Disk
  imports PyFloat
begin

section \<open>One disk\<close>

text \<open>
  Class \<open>disk\<close> of \<open>lecture-15/raid.py\<close>: an address the head is at, counters of the three kinds
  of access and the busy time. \<open>disk_enqueue\<close> is the whole method: the assertion, the
  classification and the accounting.
\<close>

record disk =
  seekTime :: pyfloat
  xferTime :: pyfloat
  queueLen :: int
  currAddr :: int
  queue :: "int list"
  numTracks :: int
  blocksPerTrack :: int
  blocksPerDisk :: int
  countIO :: int
  countSeq :: int
  countNseq :: int
  countRand :: int
  utilTime :: pyfloat

text \<open>\<open>disk()\<close> with the default arguments \<open>seekTime=10\<close>, \<open>xferTime=0.1\<close>, \<open>queueLen=8\<close>.\<close>

definition new_disk :: disk where
  "new_disk =
     \<lparr> seekTime = 10, xferTime = rnd (1 / 10), queueLen = 8,
       currAddr = - 10000, queue = [],
       numTracks = 100, blocksPerTrack = 100, blocksPerDisk = 100 * 100,
       countIO = 0, countSeq = 0, countNseq = 0, countRand = 0, utilTime = 0 \<rparr>"

definition disk_stats :: "disk \<Rightarrow> int \<times> int \<times> int \<times> int \<times> pyfloat" where
  "disk_stats d = (countIO d, countSeq d, countNseq d, countRand d, utilTime d)"

definition disk_enqueue :: "int \<Rightarrow> (disk, unit) py" where
  "disk_enqueue addr =
     pbind (gets blocksPerDisk) (\<lambda>bpd.
     pseq (py_assert (addr < bpd)) (
     pseq (modify (\<lambda>d. d\<lparr>countIO := countIO d + 1\<rparr>)) (
     pbind (\<lambda>d. py_div (currAddr d) (numTracks d) d) (\<lambda>currTrack.
     pbind (\<lambda>d. py_div addr (numTracks d) d) (\<lambda>newTrack.
     modify (\<lambda>d.
       let diff = (if addr - currAddr d < 0 then - (addr - currAddr d) else addr - currAddr d);
           d' = (if currTrack = newTrack \<or> diff < blocksPerTrack d then
                   let d1 = (if diff = 1 then d\<lparr>countSeq := countSeq d + 1\<rparr>
                             else d\<lparr>countNseq := countNseq d + 1\<rparr>)
                   in d1\<lparr>utilTime := fl_add (utilTime d1) (fl_mul (fl_of_int diff) (xferTime d1))\<rparr>
                 else
                   let d1 = d\<lparr>countRand := countRand d + 1\<rparr>
                   in d1\<lparr>utilTime := fl_add (utilTime d1) (fl_add (seekTime d1) (xferTime d1))\<rparr>)
       in d'\<lparr>currAddr := addr\<rparr>))))))"

definition disk_go :: "disk \<Rightarrow> pyfloat" where
  "disk_go d = utilTime d"

subsection \<open>The three kinds of access\<close>

text \<open>The head's distance, and the cost of an access, as pure functions of the disk.\<close>

datatype access = Sequential | Nearby | Random

definition access_kind :: "disk \<Rightarrow> int \<Rightarrow> access" where
  "access_kind d addr =
     (if currAddr d div 100 = addr div 100 \<or> \<bar>addr - currAddr d\<bar> < 100
      then if \<bar>addr - currAddr d\<bar> = 1 then Sequential else Nearby
      else Random)"

definition access_time :: "disk \<Rightarrow> int \<Rightarrow> pyfloat" where
  "access_time d addr =
     (if access_kind d addr = Random then fl_add (seekTime d) (xferTime d)
      else fl_mul (fl_of_int \<bar>addr - currAddr d\<bar>) (xferTime d))"

definition bump :: "access \<Rightarrow> disk \<Rightarrow> disk" where
  "bump k d =
     (case k of
        Sequential \<Rightarrow> d\<lparr>countSeq := countSeq d + 1\<rparr>
      | Nearby \<Rightarrow> d\<lparr>countNseq := countNseq d + 1\<rparr>
      | Random \<Rightarrow> d\<lparr>countRand := countRand d + 1\<rparr>)"

definition serve :: "disk \<Rightarrow> int \<Rightarrow> disk" where
  "serve d addr =
     (bump (access_kind d addr) d)
       \<lparr>countIO := countIO d + 1, utilTime := fl_add (utilTime d) (access_time d addr),
        currAddr := addr\<rparr>"

text \<open>What every method keeps of a disk made by \<open>new_disk\<close>.\<close>

definition disk_geometry :: "disk \<Rightarrow> bool" where
  "disk_geometry d \<longleftrightarrow>
     numTracks d = 100 \<and> blocksPerTrack d = 100 \<and> blocksPerDisk d = 10000 \<and>
     seekTime d = 10 \<and> xferTime d = rnd (1 / 10)"

definition disk_inv :: "disk \<Rightarrow> bool" where
  "disk_inv d \<longleftrightarrow>
     disk_geometry d \<and>
     countIO d = countSeq d + countNseq d + countRand d \<and>
     0 \<le> countSeq d \<and> 0 \<le> countNseq d \<and> 0 \<le> countRand d \<and>
     0 \<le> utilTime d \<and> is_double (utilTime d)"

lemma disk_geometry_new [simp]: "disk_geometry new_disk"
  by (simp add: disk_geometry_def new_disk_def)

lemma disk_inv_new [simp]: "disk_inv new_disk"
  by (simp add: disk_inv_def) (simp add: new_disk_def is_double_def)

lemma disk_inv_geometry: "disk_inv d \<Longrightarrow> disk_geometry d"
  by (simp add: disk_inv_def)

lemma serve_geometry [simp]: "disk_geometry (serve d addr) = disk_geometry d"
  by (simp add: serve_def bump_def disk_geometry_def split: access.split)

lemma access_time_nonneg: "disk_geometry d \<Longrightarrow> 0 \<le> access_time d addr"
  by (auto simp: access_time_def disk_geometry_def intro!: fl_nonneg)

lemma serve_inv: "disk_inv d \<Longrightarrow> disk_inv (serve d addr)"
  using access_time_nonneg [of d addr]
  by (auto simp: disk_inv_def) (auto simp: serve_def bump_def split: access.splits)

lemma serve_counts:
  "countIO (serve d addr) = countIO d + 1"
  "currAddr (serve d addr) = addr"
  "utilTime (serve d addr) = fl_add (utilTime d) (access_time d addr)"
  by (simp_all add: serve_def bump_def split: access.split)

text \<open>Serving an address costs no negative time, so a disk's busy time only grows.\<close>

lemma serve_utilTime_mono: "disk_inv d \<Longrightarrow> utilTime d \<le> utilTime (serve d addr)"
  using access_time_nonneg [of d addr]
  by (auto simp: serve_counts disk_inv_def intro!: fl_add_ge)

lemma disk_enqueue_eq:
  assumes "disk_geometry d"
  shows "disk_enqueue addr d =
    (if addr < 10000 then Ok () (serve d addr) else Raise AssertionError d)"
proof -
  have diff: "(if addr - currAddr d < 0 then - (addr - currAddr d) else addr - currAddr d)
      = \<bar>addr - currAddr d\<bar>" by simp
  show ?thesis
    using assms unfolding disk_enqueue_def disk_geometry_def
    by (simp add: Let_def pseq_def pbind_def serve_def bump_def access_kind_def access_time_def
        flip: abs_if)
qed

text \<open>
  C26. On a disk built by the class, \<open>enqueue\<close> raises \<open>AssertionError\<close> exactly for an address at
  or beyond the 10000 blocks of the disk, leaving the disk as it was. Otherwise it moves the head
  there, counts one I/O, of exactly one of the three kinds, adds the time of that kind (the
  distance times the transfer time on the same track or within 100 blocks, a seek and a transfer
  otherwise, each operation rounded to a double), and never lowers the busy time.
\<close>

theorem disk_enqueue_correct:
  assumes "disk_inv d"
  shows "disk_enqueue addr d =
      (if addr < 10000 then Ok () (serve d addr) else Raise AssertionError d) \<and>
    disk_inv (serve d addr) \<and>
    currAddr (serve d addr) = addr \<and>
    countIO (serve d addr) = countIO d + 1 \<and>
    countSeq (serve d addr) = countSeq d + (if access_kind d addr = Sequential then 1 else 0) \<and>
    countNseq (serve d addr) = countNseq d + (if access_kind d addr = Nearby then 1 else 0) \<and>
    countRand (serve d addr) = countRand d + (if access_kind d addr = Random then 1 else 0) \<and>
    utilTime (serve d addr) = fl_add (utilTime d) (access_time d addr) \<and>
    utilTime d \<le> utilTime (serve d addr)"
  using assms disk_enqueue_eq [OF disk_inv_geometry] serve_inv serve_utilTime_mono
  by (auto simp: serve_counts) (auto simp: serve_def bump_def split: access.split)

theorem disk_enqueue_correct_witness:
  "disk_inv new_disk \<and> disk_enqueue 0 new_disk = Ok () (serve new_disk 0) \<and>
   countRand (serve new_disk 0) = 1"
proof -
  have k: "access_kind new_disk 0 = Random" by (simp add: access_kind_def new_disk_def)
  have c: "countRand new_disk = 0" by (simp add: new_disk_def)
  from disk_enqueue_correct [OF disk_inv_new, of 0]
  have "disk_enqueue 0 new_disk = Ok () (serve new_disk 0)"
    and "countRand (serve new_disk 0) = countRand new_disk + 1" by (simp_all only: k) simp_all
  with c show ?thesis by simp
qed

end
