(* ===== verification/Raid_Class.thy ===== *)
theory Raid_Class
  imports Convert Disk
begin

section \<open>The state of the array\<close>

text \<open>
  Class \<open>raid\<close> of \<open>lecture-15/raid.py\<close>: what \<open>__init__\<close> sets, in three layers. \<open>raid_cfg\<close> holds
  the attributes no method changes, \<open>raid\<close> adds the disks and the print flag, \<open>world\<close> adds what
  has been printed. An attribute that \<open>__init__\<close> sets for some levels only is an \<open>option\<close>:
  reading it unset is the \<open>AttributeError\<close> of \<open>getattr\<close>.
\<close>

record raid_cfg =
  chunkSize :: int
  numDisks :: int
  raidLevel :: int
  timing :: bool
  reverse :: bool
  solve :: bool
  raid5type :: string
  blocksInStripe :: "int option"
  pdisk :: "int option"

record raid = raid_cfg +
  disks :: "disk list"
  printPhysical :: "bool option"

text \<open>
  One constructor for each \<open>print\<close> of the script, with the values it formats. \<open>PhysRead\<close> and
  \<open>PhysWrite\<close> end without a newline (\<open>end=''\<close>); \<open>EndLine\<close> is \<open>print('')\<close>. \<open>DiskStats\<close> carries
  the width of the gap after \<open>busy:\<close>, in which the three formats differ.
\<close>

datatype line =
    BadChunk int int int
  | BadMirror int
  | BadScheme
  | LogicalWrite int int
  | LogicalRead int int
  | PhysicalQuestion
  | LogicalQuestion
  | PhysRead int int
  | PhysWrite int int
  | EndLine
  | DiskStats int nat pyfloat int int int int
  | ArgLine string string
  | BadReqSize int int
  | BadWorkload
  | TooFewDisks
  | BadRaid5 string
  | RequestLine int int
  | TotalTime pyfloat
  | EstimateQuestions

record world = raid +
  stdout :: "line list"

definition BLOCKSIZE :: int where
  "BLOCKSIZE = 4096"

definition emit :: "line \<Rightarrow> (world, unit) py" where
  "emit l = modify (\<lambda>s. s\<lparr>stdout := stdout s @ [l]\<rparr>)"

subsection \<open>The constructor\<close>

text \<open>
  \<open>raid.__init__\<close>, run on the lines printed so far. \<open>exit(1)\<close> is \<open>SystemExit 1\<close>.
\<close>

definition raid_init ::
  "string \<Rightarrow> int \<Rightarrow> int \<Rightarrow> bool \<Rightarrow> bool \<Rightarrow> bool \<Rightarrow> string \<Rightarrow> (line list, raid) py" where
  "raid_init chunk_arg num level tim rv slv r5 =
     pbind (convert chunk_arg) (\<lambda>bytes.
     let cs = bytes div BLOCKSIZE in
     pseq (if bytes mod BLOCKSIZE \<noteq> 0 then
             pseq (modify (\<lambda>out. out @ [BadChunk bytes BLOCKSIZE (cs mod BLOCKSIZE)]))
               (raise (SystemExit 1))
           else return ()) (
     pseq (if level = 1 \<and> num mod 2 \<noteq> 0 then
             pseq (modify (\<lambda>out. out @ [BadMirror num])) (raise (SystemExit 1))
           else return ()) (
     return
       \<lparr> chunkSize = cs, numDisks = num, raidLevel = level, timing = tim, reverse = rv,
         solve = slv, raid5type = r5,
         blocksInStripe = (if level = 4 \<or> level = 5 then Some ((num - 1) * cs) else None),
         pdisk = (if level = 4 then Some (num - 1) else if level = 5 then Some (- 1) else None),
         disks = map (\<lambda>i. new_disk) (py_range 0 num),
         printPhysical = None \<rparr>)))"

subsection \<open>The logical to physical maps\<close>

definition bmap0 :: "int \<Rightarrow> (world, int \<times> int) py" where
  "bmap0 bnum =
     pbind (gets chunkSize) (\<lambda>cs.
     pbind (gets numDisks) (\<lambda>n.
     pbind (py_div bnum cs) (\<lambda>cnum.
     pbind (py_mod bnum cs) (\<lambda>coff.
     pbind (py_mod cnum n) (\<lambda>dsk.
     pbind (py_div cnum n) (\<lambda>row.
     return (dsk, row * cs + coff)))))))"

definition bmap1 :: "int \<Rightarrow> (world, int \<times> int \<times> int) py" where
  "bmap1 bnum =
     pbind (gets chunkSize) (\<lambda>cs.
     pbind (gets numDisks) (\<lambda>n.
     pbind (py_div bnum cs) (\<lambda>cnum.
     pbind (py_mod bnum cs) (\<lambda>coff.
     pbind (py_div n 2) (\<lambda>half.
     pbind (py_mod cnum half) (\<lambda>m.
     let dsk = 2 * m in
     pbind (py_div cnum half) (\<lambda>row.
     return (dsk, dsk + 1, row * cs + coff))))))))"

definition bmap4 :: "int \<Rightarrow> (world, int \<times> int) py" where
  "bmap4 bnum =
     pbind (gets chunkSize) (\<lambda>cs.
     pbind (gets numDisks) (\<lambda>n.
     pbind (py_div bnum cs) (\<lambda>cnum.
     pbind (py_mod bnum cs) (\<lambda>coff.
     pbind (py_mod cnum (n - 1)) (\<lambda>dsk.
     pbind (py_div cnum (n - 1)) (\<lambda>row.
     return (dsk, row * cs + coff)))))))"

definition pmap4 :: "int \<Rightarrow> (world, int) py" where
  "pmap4 snum = getattr pdisk"

text \<open>\<open>__bmap5\<close>: the disk, the parity disk and the offset of a block.\<close>

definition bmap5_full :: "int \<Rightarrow> (world, int \<times> int \<times> int) py" where
  "bmap5_full bnum =
     pbind (gets chunkSize) (\<lambda>cs.
     pbind (gets numDisks) (\<lambda>n.
     pbind (gets raid5type) (\<lambda>typ.
     pbind (py_div bnum cs) (\<lambda>cnum.
     pbind (py_mod bnum cs) (\<lambda>coff.
     pbind (py_div cnum (n - 1)) (\<lambda>ddsk.
     let doff = ddsk * cs + coff in
     pbind (py_mod cnum (n - 1)) (\<lambda>dsk.
     pbind (py_mod ddsk n) (\<lambda>col.
     let pd = (n - 1) - col in
     pbind (if typ = ''LA'' then return (if dsk \<ge> pd then dsk + 1 else dsk)
            else if typ = ''LS'' then py_mod (dsk - col) n
            else pseq (emit BadScheme) (raise (SystemExit 1))) (\<lambda>dsk'.
     pseq (py_assert (dsk' \<noteq> pd)) (return (dsk', pd, doff)))))))))))"

definition bmap5 :: "int \<Rightarrow> (world, int \<times> int) py" where
  "bmap5 bnum = pbind (bmap5_full bnum) (\<lambda>(dsk, pd, off). return (dsk, off))"

definition pmap5 :: "int \<Rightarrow> (world, int) py" where
  "pmap5 snum =
     pbind (getattr blocksInStripe) (\<lambda>bis.
     pbind (bmap5_full (snum * bis)) (\<lambda>(dsk, pd, off). return pd))"

subsection \<open>Configurations\<close>

text \<open>The part of the state the maps read, and what the constructor guarantees of it.\<close>

definition cfg :: "'a raid_cfg_scheme \<Rightarrow> raid_cfg" where
  "cfg s =
     \<lparr> chunkSize = chunkSize s, numDisks = numDisks s, raidLevel = raidLevel s,
       timing = timing s, reverse = reverse s, solve = solve s, raid5type = raid5type s,
       blocksInStripe = blocksInStripe s, pdisk = pdisk s \<rparr>"

lemma cfg_sel [simp]:
  "chunkSize (cfg s) = chunkSize s" "numDisks (cfg s) = numDisks s"
  "raidLevel (cfg s) = raidLevel s" "raid5type (cfg s) = raid5type s"
  "timing (cfg s) = timing s" "reverse (cfg s) = reverse s" "solve (cfg s) = solve s"
  "blocksInStripe (cfg s) = blocksInStripe s" "pdisk (cfg s) = pdisk s"
  by (simp_all add: cfg_def)

lemma cfg_cfg [simp]: "cfg (cfg s) = cfg s"
  by (simp add: cfg_def)

lemma cfg_update [simp]:
  "cfg (s\<lparr>disks := ds\<rparr>) = cfg s" "cfg (s\<lparr>printPhysical := pp\<rparr>) = cfg s"
  "cfg (w\<lparr>stdout := out\<rparr>) = cfg w" "cfg (w\<lparr>disks := ds\<rparr>) = cfg w"
  "cfg (w\<lparr>printPhysical := pp\<rparr>) = cfg w" for s :: raid and w :: world
  by (simp_all add: cfg_def)

definition striped :: "raid_cfg \<Rightarrow> bool" where
  "striped c \<longleftrightarrow> 1 \<le> chunkSize c \<and> 1 \<le> numDisks c"

definition mirrored :: "raid_cfg \<Rightarrow> bool" where
  "mirrored c \<longleftrightarrow> 1 \<le> chunkSize c \<and> 2 \<le> numDisks c \<and> even (numDisks c)"

definition parity4 :: "raid_cfg \<Rightarrow> bool" where
  "parity4 c \<longleftrightarrow> 1 \<le> chunkSize c \<and> 2 \<le> numDisks c \<and>
     blocksInStripe c = Some ((numDisks c - 1) * chunkSize c) \<and> pdisk c = Some (numDisks c - 1)"

definition parity5 :: "string \<Rightarrow> raid_cfg \<Rightarrow> bool" where
  "parity5 layout c \<longleftrightarrow> 1 \<le> chunkSize c \<and> 2 \<le> numDisks c \<and> raid5type c = layout \<and>
     blocksInStripe c = Some ((numDisks c - 1) * chunkSize c)"

definition width :: "raid_cfg \<Rightarrow> int" where
  "width c = (numDisks c - 1) * chunkSize c"

text \<open>A state of a configuration: one disk object per disk, each satisfying its invariant.\<close>

definition disks_ok :: "world \<Rightarrow> bool" where
  "disks_ok s \<longleftrightarrow> int (length (disks s)) = numDisks s \<and> (\<forall>d \<in> set (disks s). disk_inv d)"

text \<open>
  A concrete array for the witnesses: four disks, one-block chunks, in mapping mode with the
  answers printed, as the constructor builds it.
\<close>

definition sample_world :: "int \<Rightarrow> string \<Rightarrow> world" where
  "sample_world level layout =
     \<lparr> chunkSize = 1, numDisks = 4, raidLevel = level, timing = False, reverse = False,
       solve = True, raid5type = layout,
       blocksInStripe = (if level = 4 \<or> level = 5 then Some 3 else None),
       pdisk = (if level = 4 then Some 3 else if level = 5 then Some (- 1) else None),
       disks = [new_disk, new_disk, new_disk, new_disk], printPhysical = None, stdout = [] \<rparr>"

lemma sample_world_sel [simp]:
  "chunkSize (sample_world l y) = 1" "numDisks (sample_world l y) = 4"
  "raidLevel (sample_world l y) = l" "raid5type (sample_world l y) = y"
  "length (disks (sample_world l y)) = 4" "stdout (sample_world l y) = []"
  by (simp_all add: sample_world_def)

lemma sample_world_ok [simp]:
  "disks_ok (sample_world l y)" "striped (cfg (sample_world l y))"
  "mirrored (cfg (sample_world l y))" "parity4 (cfg (sample_world 4 y))"
  "parity5 y (cfg (sample_world 5 y))" "width (cfg (sample_world l y)) = 3"
  by (simp_all add: disks_ok_def striped_def mirrored_def parity4_def parity5_def width_def)
    (simp_all add: sample_world_def)

text \<open>
  C30. The constructor fails as \<open>convert\<close> does on the chunk size. It accepts exactly a chunk size that
  is a multiple of 4096 bytes and, at level 1, an even number of disks; otherwise it prints one
  line and exits with status 1. What it returns has the chunk in blocks, the flags as given, the
  stripe width and the parity disk at the parity levels only (-1 at level 5, where it rotates), the
  given number of new disks, and no print flag yet; nothing is printed.
\<close>

theorem raid_init_correct:
  shows "(convert chunk out = Raise e out \<longrightarrow> raid_init chunk n level t r sv lay out = Raise e out) \<and>
    (convert chunk out = Ok bytes out \<longrightarrow>
      (if bytes mod 4096 \<noteq> 0 then
         raid_init chunk n level t r sv lay out =
           Raise (SystemExit 1) (out @ [BadChunk bytes 4096 (bytes div 4096 mod 4096)])
       else if level = 1 \<and> odd n then
         raid_init chunk n level t r sv lay out = Raise (SystemExit 1) (out @ [BadMirror n])
       else \<exists>a. raid_init chunk n level t r sv lay out = Ok a out \<and>
         chunkSize a * 4096 = bytes \<and> numDisks a = n \<and> raidLevel a = level \<and>
         timing a = t \<and> reverse a = r \<and> solve a = sv \<and> raid5type a = lay \<and> printPhysical a = None \<and>
         blocksInStripe a = (if level \<in> {4, 5} then Some ((n - 1) * chunkSize a) else None) \<and>
         pdisk a = (if level = 4 then Some (n - 1) else if level = 5 then Some (- 1) else None) \<and>
         disks a = replicate (nat n) new_disk \<and> (\<forall>d \<in> set (disks a). disk_inv d)))"
  by (auto simp: raid_init_def BLOCKSIZE_def Let_def odd_iff_mod_2_eq_one map_replicate_const)

theorem raid_init_correct_witness:
  "(\<exists>a. raid_init ''4k'' 4 5 False False True ''LS'' [] = Ok a [] \<and> chunkSize a * 4096 = 4096 \<and>
     blocksInStripe a = Some 3 \<and> pdisk a = Some (- 1) \<and> disks a = [new_disk, new_disk, new_disk, new_disk]) \<and>
   raid_init ''5000'' 4 5 False False True ''LS'' [] = Raise (SystemExit 1) [BadChunk 5000 4096 1] \<and>
   raid_init ''4k'' 3 1 False False True ''LS'' [] = Raise (SystemExit 1) [BadMirror 3] \<and>
   raid_init ''x'' 3 1 False False True ''LS'' [] = Raise ValueError []"
proof -
  have c: "convert ''4k'' ([] :: line list) = Ok 4096 []" "convert ''5000'' ([] :: line list) = Ok 5000 []"
    "convert ''x'' ([] :: line list) = Raise ValueError []" by code_simp+
  have r: "replicate 4 new_disk = [new_disk, new_disk, new_disk, new_disk]" by (simp add: numeral_eq_Suc)
  have "\<exists>a. raid_init ''4k'' 4 5 False False True ''LS'' [] = Ok a [] \<and> chunkSize a * 4096 = 4096 \<and>
     blocksInStripe a = Some 3 \<and> pdisk a = Some (- 1) \<and> disks a = [new_disk, new_disk, new_disk, new_disk]"
    using raid_init_correct [where chunk = "''4k''" and out = "[]" and e = ValueError and bytes = 4096 and n = 4 and
      level = 5 and t = False and r = False and sv = True and lay = "''LS''"] c(1) r by auto
  moreover have "raid_init ''5000'' 4 5 False False True ''LS'' [] = Raise (SystemExit 1) [BadChunk 5000 4096 1]"
    using raid_init_correct [where chunk = "''5000''" and out = "[]" and e = ValueError and bytes = 5000 and n = 4 and
      level = 5 and t = False and r = False and sv = True and lay = "''LS''"] c(2) by simp
  moreover have "raid_init ''4k'' 3 1 False False True ''LS'' [] = Raise (SystemExit 1) [BadMirror 3]"
    using raid_init_correct [where chunk = "''4k''" and out = "[]" and e = ValueError and bytes = 4096 and n = 3 and
      level = 1 and t = False and r = False and sv = True and lay = "''LS''"] c(1) by simp
  moreover have "raid_init ''x'' 3 1 False False True ''LS'' [] = Raise ValueError []"
    using raid_init_correct [where chunk = "''x''" and out = "[]" and e = ValueError and bytes = 0 and n = 3 and
      level = 1 and t = False and r = False and sv = True and lay = "''LS''"] c(3) by simp
  ultimately show ?thesis by blast
qed

subsection \<open>Placements\<close>

text \<open>
  The maps as total functions of the configuration. Over a sound configuration each method
  returns its placement and leaves the state alone; the geometry is then arithmetic.
\<close>

definition place0 :: "raid_cfg \<Rightarrow> int \<Rightarrow> int \<times> int" where
  "place0 c b =
     (let q = b div chunkSize c
      in (q mod numDisks c, q div numDisks c * chunkSize c + b mod chunkSize c))"

definition place1 :: "raid_cfg \<Rightarrow> int \<Rightarrow> int \<times> int" where
  "place1 c b =
     (let q = b div chunkSize c; h = numDisks c div 2
      in (2 * (q mod h), q div h * chunkSize c + b mod chunkSize c))"

definition place4 :: "raid_cfg \<Rightarrow> int \<Rightarrow> int \<times> int" where
  "place4 c b =
     (let q = b div chunkSize c; n = numDisks c - 1
      in (q mod n, q div n * chunkSize c + b mod chunkSize c))"

definition parity_disk4 :: "raid_cfg \<Rightarrow> int \<Rightarrow> int" where
  "parity_disk4 c k = numDisks c - 1"

definition parity_disk5 :: "raid_cfg \<Rightarrow> int \<Rightarrow> int" where
  "parity_disk5 c k = (numDisks c - 1) - k mod numDisks c"

definition data_disk5 :: "raid_cfg \<Rightarrow> int \<Rightarrow> int \<Rightarrow> int" where
  "data_disk5 c k j =
     (if raid5type c = ''LA'' then if j \<ge> parity_disk5 c k then j + 1 else j
      else (j - k mod numDisks c) mod numDisks c)"

definition place5 :: "raid_cfg \<Rightarrow> int \<Rightarrow> int \<times> int" where
  "place5 c b =
     (let q = b div chunkSize c; k = q div (numDisks c - 1)
      in (data_disk5 c k (q mod (numDisks c - 1)), k * chunkSize c + b mod chunkSize c))"

text \<open>
  The assertion of \<open>__bmap5\<close>: the disk chosen for the data is never the parity disk of the
  stripe, in both layouts, and both are disks of the array.
\<close>

lemma data_disk5_range:
  assumes n: "2 \<le> numDisks c" and j: "0 \<le> j" "j < numDisks c - 1"
  shows "0 \<le> data_disk5 c k j" "data_disk5 c k j < numDisks c"
  using assms by (auto simp: data_disk5_def)

lemma parity_disk5_range:
  assumes "2 \<le> numDisks c"
  shows "0 \<le> parity_disk5 c k" "parity_disk5 c k < numDisks c"
  using assms pos_mod_bound [of "numDisks c" k] pos_mod_sign [of "numDisks c" k]
  unfolding parity_disk5_def by linarith+

lemma data_disk5_not_parity:
  assumes n: "2 \<le> numDisks c" and j: "0 \<le> j" "j < numDisks c - 1"
  shows "data_disk5 c k j \<noteq> parity_disk5 c k"
proof (cases "raid5type c = ''LA''")
  case False
  let ?n = "numDisks c" and ?m = "k mod numDisks c"
  have m: "0 \<le> ?m" "?m < ?n" using n by auto
  have "(j - ?m) mod ?n = (if ?m \<le> j then j - ?m else j - ?m + ?n)"
    using j m by (intro mod_shift) auto
  then show ?thesis using False j m by (auto simp: data_disk5_def parity_disk5_def)
qed (simp add: data_disk5_def)

lemma data_disk5_inj:
  assumes n: "2 \<le> numDisks c" and j: "0 \<le> j" "j < numDisks c - 1"
    and j': "0 \<le> j'" "j' < numDisks c - 1"
    and eq: "data_disk5 c k j = data_disk5 c k j'"
  shows "j = j'"
proof (cases "raid5type c = ''LA''")
  case True
  then show ?thesis using eq by (auto simp: data_disk5_def split: if_splits)
next
  case False
  let ?n = "numDisks c"
  from False eq have "(j - k mod ?n) mod ?n = (j' - k mod ?n) mod ?n" by (simp add: data_disk5_def)
  then have "?n dvd (j - j')" by (simp add: mod_eq_dvd_iff)
  moreover have "\<bar>j - j'\<bar> < ?n" using j j' by linarith
  ultimately show ?thesis using zdvd_not_zless [of "\<bar>j - j'\<bar>" ?n] by auto
qed

subsection \<open>The methods return the placements\<close>

lemma bmap0_place: "striped (cfg s) \<Longrightarrow> bmap0 b s = Ok (place0 (cfg s) b) s"
  by (simp add: bmap0_def place0_def striped_def Let_def)

lemma bmap1_place:
  assumes "mirrored (cfg s)"
  shows "bmap1 b s =
    Ok (fst (place1 (cfg s) b), fst (place1 (cfg s) b) + 1, snd (place1 (cfg s) b)) s"
proof -
  have "numDisks s div 2 \<noteq> 0" using assms by (auto simp: mirrored_def)
  then show ?thesis using assms by (simp add: bmap1_def place1_def mirrored_def Let_def)
qed

lemma bmap4_place: "parity4 (cfg s) \<Longrightarrow> bmap4 b s = Ok (place4 (cfg s) b) s"
  by (simp add: bmap4_def place4_def parity4_def Let_def)

lemma pmap4_parity: "parity4 (cfg s) \<Longrightarrow> pmap4 k s = Ok (parity_disk4 (cfg s) k) s"
  by (simp add: pmap4_def parity_disk4_def parity4_def)

lemma bmap5_full_place:
  assumes c: "parity5 typ (cfg s)" and lay: "typ = ''LA'' \<or> typ = ''LS''"
  shows "bmap5_full b s =
    Ok (fst (place5 (cfg s) b),
        parity_disk5 (cfg s) (b div chunkSize s div (numDisks s - 1)),
        snd (place5 (cfg s) b)) s"
proof -
  let ?n = "numDisks s" and ?q = "b div chunkSize s"
  let ?k = "?q div (?n - 1)" and ?j = "?q mod (?n - 1)"
  have n: "2 \<le> ?n" "chunkSize s \<noteq> 0" using c by (auto simp: parity5_def)
  have "data_disk5 (cfg s) ?k ?j \<noteq> parity_disk5 (cfg s) ?k"
    using data_disk5_not_parity [of "cfg s" ?j ?k] n by simp
  then show ?thesis
    using n c lay
    by (auto simp: bmap5_full_def place5_def parity5_def data_disk5_def parity_disk5_def Let_def)
qed

lemma bmap5_place:
  assumes "parity5 typ (cfg s)" "typ = ''LA'' \<or> typ = ''LS''"
  shows "bmap5 b s = Ok (place5 (cfg s) b) s"
  using bmap5_full_place [OF assms] by (simp add: bmap5_def)

lemma pmap5_parity:
  assumes c: "parity5 typ (cfg s)" and lay: "typ = ''LA'' \<or> typ = ''LS''"
  shows "pmap5 k s = Ok (parity_disk5 (cfg s) k) s"
proof -
  let ?n = "numDisks s" and ?cs = "chunkSize s"
  have "k * ((?n - 1) * ?cs) div ?cs div (?n - 1) = k"
    using c by (simp add: parity5_def flip: mult.assoc)
  then show ?thesis
    using bmap5_full_place [OF c lay, of "k * ((?n - 1) * ?cs)"] c
    by (simp add: pmap5_def parity5_def)
qed

end
