(* ===== verification/Raid_IO.thy ===== *)
theory Raid_IO
  imports Raid_Class
begin

section \<open>Physical and logical operations of the array\<close>

text \<open>
  The methods of class \<open>raid\<close> that issue I/O: one block at a time
  (\<open>doSingleRead\<close>, \<open>doSingleWrite\<close>), one request at a time (\<open>enqueue0\<close>, \<open>enqueue1\<close>,
  \<open>enqueue45\<close> with \<open>doPartialWrite\<close>, and the dispatching \<open>enqueue\<close>), and the two that read
  the result (\<open>go\<close>, \<open>stats\<close>).
\<close>

subsection \<open>One block\<close>

text \<open>\<open>self.disks[i].enqueue(off)\<close>: index the list, run the method on the object there.\<close>

definition disk_call :: "int \<Rightarrow> (disk, unit) py \<Rightarrow> (world, unit) py" where
  "disk_call i m = (\<lambda>s.
     case py_index (length (disks s)) i of
       None \<Rightarrow> Raise IndexError s
     | Some j \<Rightarrow>
         (case m (disks s ! j) of
            Ok a d \<Rightarrow> Ok a (s\<lparr>disks := (disks s)[j := d]\<rparr>)
          | Raise e d \<Rightarrow> Raise e (s\<lparr>disks := (disks s)[j := d]\<rparr>)))"

definition doSingleRead :: "int \<Rightarrow> int \<Rightarrow> bool \<Rightarrow> (world, unit) py" where
  "doSingleRead dsk off doNewline =
     pbind (getattr printPhysical) (\<lambda>pp.
     pseq (if pp then
             pseq (emit (PhysRead dsk off)) (if doNewline then emit EndLine else return ())
           else return ())
       (disk_call dsk (disk_enqueue off)))"

definition doSingleWrite :: "int \<Rightarrow> int \<Rightarrow> bool \<Rightarrow> (world, unit) py" where
  "doSingleWrite dsk off doNewline =
     pbind (getattr printPhysical) (\<lambda>pp.
     pseq (if pp then
             pseq (emit (PhysWrite dsk off)) (if doNewline then emit EndLine else return ())
           else return ())
       (disk_call dsk (disk_enqueue off)))"

text \<open>\<open>if self.timing == False and self.printPhysical: print('')\<close>\<close>

definition closing_line :: "(world, unit) py" where
  "closing_line =
     pbind (gets timing) (\<lambda>t.
       if t = False then
         pbind (getattr printPhysical) (\<lambda>pp. if pp then emit EndLine else return ())
       else return ())"

subsection \<open>Requests at levels 0 and 1\<close>

definition enqueue0 :: "int \<Rightarrow> int \<Rightarrow> bool \<Rightarrow> (world, unit) py" where
  "enqueue0 addr sz isWrite =
     pseq (for_each (py_range addr (addr + sz)) (\<lambda>b.
             pbind (bmap0 b) (\<lambda>(dsk, off).
               if isWrite then doSingleWrite dsk off True else doSingleRead dsk off True)))
       closing_line"

definition enqueue1 :: "int \<Rightarrow> int \<Rightarrow> bool \<Rightarrow> (world, unit) py" where
  "enqueue1 addr sz isWrite =
     pseq (for_each (py_range addr (addr + sz)) (\<lambda>b.
             pbind (bmap1 b) (\<lambda>(disk1, disk2, off).
               if isWrite then
                 pseq (doSingleWrite disk1 off False) (doSingleWrite disk2 off True)
               else if off mod 2 = 0 then doSingleRead disk1 off True
               else doSingleRead disk2 off True)))
       closing_line"

subsection \<open>Requests at levels 4 and 5\<close>

text \<open>\<open>if off not in offList: offList.append(off)\<close>\<close>

definition add_new :: "int list \<Rightarrow> int \<Rightarrow> int list" where
  "add_new offs off = (if off \<in> set offs then offs else offs @ [off])"

definition doPartialWrite ::
  "int \<Rightarrow> int \<Rightarrow> int \<Rightarrow> (int \<Rightarrow> (world, int \<times> int) py) \<Rightarrow> (int \<Rightarrow> (world, int) py)
     \<Rightarrow> (world, unit) py" where
  "doPartialWrite stripe beg stop bmap pmap =
     (let numWrites = stop - beg in
      pbind (pmap stripe) (\<lambda>pd.
      pbind (getattr blocksInStripe) (\<lambda>bis.
      pseq
        (if numWrites + 1 \<le> bis - numWrites then
           pbind (for_acc (py_range beg stop) [] (\<lambda>voff offList.
                    pbind (bmap voff) (\<lambda>(dsk, off).
                    pseq (doSingleRead dsk off False) (return (add_new offList off)))))
             (\<lambda>offList. for_each [0..<length offList] (\<lambda>i.
                doSingleRead pd (offList ! i) (i = length offList - 1)))
         else
           (let stripeBegin = stripe * bis; stripeEnd = stripeBegin + bis in
            pseq (for_each (py_range stripeBegin beg) (\<lambda>voff.
                    pbind (bmap voff) (\<lambda>(dsk, off).
                      doSingleRead dsk off (voff = beg - 1 \<and> stop = stripeEnd))))
              (for_each (py_range stop stripeEnd) (\<lambda>voff.
                    pbind (bmap voff) (\<lambda>(dsk, off).
                      doSingleRead dsk off (voff = stripeEnd - 1))))))
        (pbind (for_acc (py_range beg stop) [] (\<lambda>voff offList.
                  pbind (bmap voff) (\<lambda>(dsk, off).
                  pseq (doSingleWrite dsk off False) (return (add_new offList off)))))
           (\<lambda>offList. for_each [0..<length offList] (\<lambda>i.
              doSingleWrite pd (offList ! i) (i = length offList - 1)))))))"

text \<open>
  \<open>enqueue45\<close> picks the maps by level. At any other level \<open>bmap\<close> and \<open>pmap\<close> stay unassigned
  locals, and their first use raises.
\<close>

definition pick_maps ::
  "int \<Rightarrow> (int \<Rightarrow> (world, int \<times> int) py) \<times> (int \<Rightarrow> (world, int) py)" where
  "pick_maps level =
     (if level = 4 then (bmap4, pmap4)
      else if level = 5 then (bmap5, pmap5)
      else (\<lambda>_. raise UnboundLocalError, \<lambda>_. raise UnboundLocalError))"

definition write_stripes ::
  "(int \<Rightarrow> (world, int \<times> int) py) \<Rightarrow> (int \<Rightarrow> (world, int) py) \<Rightarrow> int \<Rightarrow> int
     \<Rightarrow> (world, unit) py" where
  "write_stripes bmap pmap addr sz =
     pbind (getattr blocksInStripe) (\<lambda>bis.
     pbind (py_div addr bis) (\<lambda>initStripe.
     pbind (py_div (addr + sz - 1) bis) (\<lambda>finalStripe.
     pseq (for_acc (py_range initStripe (finalStripe + 1)) (sz, addr) (\<lambda>stripe (left, beg).
             let endOfStripe = stripe * bis + bis;
                 end1 = (if left \<ge> bis then beg + bis else beg + left);
                 stop = (if end1 \<ge> endOfStripe then endOfStripe else end1)
             in pseq (doPartialWrite stripe beg stop bmap pmap)
                  (return (left - (stop - beg), stop))))
       (return ()))))"

definition read_blocks :: "(int \<Rightarrow> (world, int \<times> int) py) \<Rightarrow> int \<Rightarrow> int \<Rightarrow> (world, unit) py" where
  "read_blocks bmap addr sz =
     for_each (py_range addr (addr + sz)) (\<lambda>b.
       pbind (bmap b) (\<lambda>(dsk, off). doSingleRead dsk off False))"

definition enqueue45 :: "int \<Rightarrow> int \<Rightarrow> bool \<Rightarrow> (world, unit) py" where
  "enqueue45 addr sz isWrite =
     pbind (gets raidLevel) (\<lambda>level.
     let (bmap, pmap) = pick_maps level in
     pseq (if isWrite = False then read_blocks bmap addr sz
           else write_stripes bmap pmap addr sz)
       closing_line)"

subsection \<open>The global operations\<close>

definition announce :: "int \<Rightarrow> int \<Rightarrow> bool \<Rightarrow> (world, unit) py" where
  "announce addr sz isWrite =
     pbind (gets timing) (\<lambda>t. pbind (gets solve) (\<lambda>slv. pbind (gets reverse) (\<lambda>rv.
       if t = False then
         if slv \<or> rv = False then
           pseq (if isWrite then emit (LogicalWrite addr (sz * BLOCKSIZE))
                 else emit (LogicalRead addr (sz * BLOCKSIZE)))
             (if slv = False then emit PhysicalQuestion else return ())
         else emit LogicalQuestion
       else return ())))"

definition set_printPhysical :: "(world, unit) py" where
  "set_printPhysical =
     modify (\<lambda>s. s\<lparr>printPhysical := Some (timing s = False \<and> (solve s \<or> reverse s = True))\<rparr>)"

definition raid_enqueue :: "int \<Rightarrow> int \<Rightarrow> bool \<Rightarrow> (world, unit) py" where
  "raid_enqueue addr sz isWrite =
     pseq (announce addr sz isWrite) (
     pseq set_printPhysical (
     pbind (gets raidLevel) (\<lambda>level.
       if level = 0 then enqueue0 addr sz isWrite
       else if level = 1 then enqueue1 addr sz isWrite
       else if level = 4 \<or> level = 5 then enqueue45 addr sz isWrite
       else return ())))"

definition raid_go :: "(world, pyfloat) py" where
  "raid_go =
     pbind (gets numDisks) (\<lambda>n.
     for_acc (py_range 0 n) 0 (\<lambda>i tmax.
       pbind (\<lambda>s. py_getitem (disks s) i s) (\<lambda>d.
         let t = disk_go d in return (if t > tmax then t else tmax))))"

definition raid_stats :: "pyfloat \<Rightarrow> (world, unit) py" where
  "raid_stats totalTime =
     pbind (gets numDisks) (\<lambda>n.
     for_each (py_range 0 n) (\<lambda>i.
       pbind (\<lambda>s. py_getitem (disks s) i s) (\<lambda>d.
         case disk_stats d of (io, sq, nsq, rd, ut) \<Rightarrow>
           let util = (if totalTime > 0 then fl_div (fl_mul 100 ut) totalTime else 0) in
           if ut = totalTime then emit (DiskStats i 1 util io sq nsq rd)
           else if ut = 0 then emit (DiskStats i 3 util io sq nsq rd)
           else emit (DiskStats i 2 util io sq nsq rd))))"

subsection \<open>Plans\<close>

text \<open>
  A request's effect is determined by the list of block operations it issues. \<open>IO w d off nl\<close> is
  one of them (\<open>w\<close>: a write; \<open>nl\<close>: with a newline after its line); \<open>perform\<close> issues it.
\<close>

datatype io = IO (is_wr: bool) (io_disk: int) (io_off: int) (io_nl: bool)

definition perform :: "io \<Rightarrow> (world, unit) py" where
  "perform x =
     (if is_wr x then doSingleWrite (io_disk x) (io_off x) (io_nl x)
      else doSingleRead (io_disk x) (io_off x) (io_nl x))"

lemma perform_IO:
  "doSingleRead d off nl = perform (IO False d off nl)"
  "doSingleWrite d off nl = perform (IO True d off nl)"
  by (simp_all add: perform_def)

definition run_plan :: "io list \<Rightarrow> (world, unit) py" where
  "run_plan ios = for_each ios perform"

lemma run_plan_append: "run_plan (xs @ ys) = pseq (run_plan xs) (run_plan ys)"
  by (simp add: run_plan_def for_each_append)

lemma run_plan_simps: "run_plan [] = return ()" "run_plan (x # xs) = pseq (perform x) (run_plan xs)"
  by (simp_all add: run_plan_def)

lemma run_plan_single: "run_plan [x] = perform x"
  by (simp add: run_plan_simps)

text \<open>Issuing block operations never touches the configuration.\<close>

lemma cfg_emit [simp]: "cfg (final (emit l s)) = cfg s"
  by (simp add: emit_def)

lemma cfg_disk_call [simp]: "cfg (final (disk_call i m s)) = cfg s"
  by (simp add: disk_call_def split: option.split outcome.split)

lemma cfg_pseq:
  assumes "\<And>s. cfg (final (m s)) = cfg s" "\<And>s. cfg (final (n s)) = cfg s"
  shows "cfg (final (pseq m n s)) = cfg s"
  using assms(1) [of s] assms(2) by (cases "m s") simp_all

lemma cfg_perform [simp]: "cfg (final (perform x s)) = cfg s"
proof -
  have e: "cfg (final ((if b then pseq (emit l) (if c then emit l' else return ())
        else return ()) s)) = cfg s" for b c l l' s
    by (cases b; cases c) (auto intro: cfg_pseq simp: emit_def)
  show ?thesis
    by (cases "printPhysical s")
      (auto simp: perform_def doSingleRead_def doSingleWrite_def intro!: cfg_pseq e)
qed

lemma cfg_run_plan [simp]: "cfg (final (run_plan ios s)) = cfg s"
  unfolding run_plan_def by (rule for_each_invariant [where I = "\<lambda>t. cfg t = cfg s"]) simp_all

text \<open>
  A loop whose body is, over a fixed configuration, the run of a plan, is the run of the
  concatenated plans.
\<close>

lemma for_each_plan:
  assumes "\<And>x t. x \<in> set xs \<Longrightarrow> cfg t = cfg s \<Longrightarrow> body x t = run_plan (p x) t"
  shows "for_each xs body s = run_plan (concat (map p xs)) s"
proof -
  have "for_each xs body s = for_each xs (\<lambda>x. run_plan (p x)) s"
  proof (rule for_each_cong_at [where I = "\<lambda>t. cfg t = cfg s"])
    fix x t a t' assume "x \<in> set xs" "cfg t = cfg s" "body x t = Ok a t'"
    then have "final (run_plan (p x) t) = t'" using assms by (metis outcome.sel(2))
    then show "cfg t' = cfg s" using \<open>cfg t = cfg s\<close> cfg_run_plan by metis
  qed (use assms in auto)
  also have "\<dots> = run_plan (concat (map p xs)) s"
    unfolding run_plan_def for_each_concat ..
  finally show ?thesis .
qed

lemma run_plan_then:
  assumes "\<And>t. cfg t = cfg s \<Longrightarrow> n t = n' t"
  shows "pseq (run_plan xs) n s = pseq (run_plan xs) n' s"
  by (rule pseq_cong_at) (use assms cfg_run_plan [of xs s] in auto)

lemma pseq_plan:
  assumes "m s = run_plan xs s" and "\<And>t. cfg t = cfg s \<Longrightarrow> n t = run_plan ys t"
  shows "pseq m n s = run_plan (xs @ ys) s"
proof -
  have "pseq m n s = pseq (run_plan xs) n s" by (rule pseq_cong1) (rule assms(1))
  also have "\<dots> = pseq (run_plan xs) (run_plan ys) s" by (rule run_plan_then) (rule assms(2))
  finally show ?thesis by (simp only: run_plan_append)
qed

end
