(* ===== verification/Raid_Layout.thy ===== *)
theory Raid_Layout
  imports Raid_IO
begin

section \<open>The geometry of the layouts\<close>

text \<open>
  All four levels place blocks the same way: chunks go round the data columns of a row, one row
  after the other; a level chooses how many columns a row has and which disk each is on. The
  locale \<open>layout\<close> states that contract and derives the geometry once; \<open>parity_layout\<close> adds the
  parity disk of a row. The levels interpret them.
\<close>

locale layout =
  fixes dom :: "raid_cfg \<Rightarrow> bool"
    and columns :: "raid_cfg \<Rightarrow> int"
    and column :: "raid_cfg \<Rightarrow> int \<Rightarrow> int \<Rightarrow> int"
    and place :: "raid_cfg \<Rightarrow> int \<Rightarrow> int \<times> int"
  assumes chunk_pos: "dom c \<Longrightarrow> 1 \<le> chunkSize c"
    and columns_pos: "dom c \<Longrightarrow> 1 \<le> columns c"
    and column_range:
      "dom c \<Longrightarrow> 0 \<le> j \<Longrightarrow> j < columns c \<Longrightarrow> 0 \<le> column c k j \<and> column c k j < numDisks c"
    and column_inj:
      "dom c \<Longrightarrow> 0 \<le> j \<Longrightarrow> j < columns c \<Longrightarrow> 0 \<le> j' \<Longrightarrow> j' < columns c \<Longrightarrow>
         column c k j = column c k j' \<Longrightarrow> j = j'"
    and place_eq:
      "dom c \<Longrightarrow> place c b =
         (column c (b div chunkSize c div columns c) (b div chunkSize c mod columns c),
          b div chunkSize c div columns c * chunkSize c + b mod chunkSize c)"
begin

definition row_width :: "raid_cfg \<Rightarrow> int" where
  "row_width c = columns c * chunkSize c"

lemma row_width_pos: "dom c \<Longrightarrow> 1 \<le> row_width c"
  using chunk_pos [of c] columns_pos [of c] mult_mono [of 1 "columns c" 1 "chunkSize c"]
  by (simp add: row_width_def)

lemma row_div: "dom c \<Longrightarrow> b div chunkSize c div columns c = b div row_width c"
  using columns_pos [of c] chunk_pos [of c]
  by (simp add: row_width_def zdiv_zmult2_eq mult.commute [of "columns c"])

lemma place_disk_range:
  "dom c \<Longrightarrow> 0 \<le> fst (place c b) \<and> fst (place c b) < numDisks c"
  using columns_pos [of c]
  by (simp add: place_eq column_range)

lemma place_off: "dom c \<Longrightarrow> snd (place c b) = b div row_width c * chunkSize c + b mod chunkSize c"
  by (simp add: place_eq row_div)

lemma place_off_div: "dom c \<Longrightarrow> snd (place c b) div chunkSize c = b div row_width c"
  using chunk_pos [of c] by (simp add: place_off)

lemma place_off_mod: "dom c \<Longrightarrow> snd (place c b) mod chunkSize c = b mod chunkSize c"
  by (simp add: place_off)

text \<open>No two blocks share a place.\<close>

lemma place_inj:
  assumes d: "dom c" and eq: "place c b = place c b'"
  shows "b = b'"
proof -
  let ?q = "b div chunkSize c" and ?q' = "b' div chunkSize c" and ?n = "columns c"
  have n: "0 < ?n" using columns_pos [OF d] by simp
  have m: "b mod chunkSize c = b' mod chunkSize c"
    using place_off_mod [OF d, of b] place_off_mod [OF d, of b'] eq by simp
  have r: "?q div ?n = ?q' div ?n"
    using place_off_div [OF d, of b] place_off_div [OF d, of b'] eq by (simp add: row_div d)
  have "column c (?q div ?n) (?q mod ?n) = column c (?q div ?n) (?q' mod ?n)"
    using eq by (simp add: place_eq d r)
  then have "?q mod ?n = ?q' mod ?n"
    by (rule column_inj [OF d, rotated 4]) (simp_all add: n)
  with r have "?q = ?q'" by (rule div_mod_eqI)
  then show ?thesis using m by (rule div_mod_eqI)
qed

text \<open>
  Blocks below \<open>R\<close> full rows stay below offset \<open>R * chunkSize\<close>, and only those (for blocks and
  offsets from 0 on).
\<close>

lemma place_off_less:
  assumes d: "dom c"
  shows "snd (place c b) < R * chunkSize c \<longleftrightarrow> b < R * row_width c"
proof -
  have w: "0 < row_width c" and s: "0 < chunkSize c" using row_width_pos [OF d] chunk_pos [OF d] by auto
  have "snd (place c b) < R * chunkSize c \<longleftrightarrow> snd (place c b) div chunkSize c < R"
    by (simp add: int_div_less_iff [OF s])
  also have "\<dots> \<longleftrightarrow> b div row_width c < R" by (simp add: place_off_div d)
  finally show ?thesis by (simp add: int_div_less_iff [OF w])
qed

lemma place_off_nonneg: "dom c \<Longrightarrow> 0 \<le> b \<Longrightarrow> 0 \<le> snd (place c b)"
  using chunk_pos [of c] row_width_pos [of c] by (simp add: place_off pos_imp_zdiv_nonneg_iff)

text \<open>Every column of every row is the place of a block.\<close>

lemma place_onto:
  assumes d: "dom c" and j: "0 \<le> j" "j < columns c"
  shows "place c (((o' div chunkSize c) * columns c + j) * chunkSize c + o' mod chunkSize c)
    = (column c (o' div chunkSize c) j, o')"
proof -
  let ?s = "chunkSize c" and ?n = "columns c"
  let ?q = "(o' div ?s) * ?n + j"
  have s: "0 < ?s" using chunk_pos [OF d] by simp
  have q: "(?q * ?s + o' mod ?s) div ?s = ?q" "(?q * ?s + o' mod ?s) mod ?s = o' mod ?s"
    using s by simp_all
  have "?q div ?n = o' div ?s" "?q mod ?n = j" using j by simp_all
  then show ?thesis by (simp add: place_eq d q)
qed

end

locale parity_layout = layout +
  fixes parity :: "raid_cfg \<Rightarrow> int \<Rightarrow> int"
  assumes columns_disks: "dom c \<Longrightarrow> columns c = numDisks c - 1"
    and parity_range: "dom c \<Longrightarrow> 0 \<le> parity c k \<and> parity c k < numDisks c"
    and column_not_parity:
      "dom c \<Longrightarrow> 0 \<le> j \<Longrightarrow> j < columns c \<Longrightarrow> column c k j \<noteq> parity c k"
begin

lemma row_width_eq: "dom c \<Longrightarrow> row_width c = width c"
  by (simp add: row_width_def width_def columns_disks)

text \<open>The data of a stripe is never on the stripe's parity disk.\<close>

lemma place_not_parity: "dom c \<Longrightarrow> fst (place c b) \<noteq> parity c (b div width c)"
  using columns_pos [of c] column_not_parity [of c "b div chunkSize c mod columns c"]
  by (simp add: place_eq row_div flip: row_width_eq)

text \<open>In each row every disk is the parity disk or holds one data column.\<close>

lemma row_disks:
  assumes d: "dom c"
  shows "insert (parity c k) (column c k ` {0..<columns c}) = {0..<numDisks c}"
proof (rule card_subset_eq)
  show "insert (parity c k) (column c k ` {0..<columns c}) \<subseteq> {0..<numDisks c}"
    using parity_range [OF d] column_range [OF d] by auto
  have "inj_on (column c k) {0..<columns c}"
    using column_inj [OF d] by (auto simp: inj_on_def)
  then have "card (column c k ` {0..<columns c}) = nat (columns c)" by (simp add: card_image)
  moreover have "parity c k \<notin> column c k ` {0..<columns c}"
  proof
    assume "parity c k \<in> column c k ` {0..<columns c}"
    then obtain j where "0 \<le> j" "j < columns c" "column c k j = parity c k" by auto
    then show False using column_not_parity [OF d, of j k] by simp
  qed
  ultimately show "card (insert (parity c k) (column c k ` {0..<columns c})) = card {0..<numDisks c}"
    using columns_pos [OF d] columns_disks [OF d] by simp
qed simp

lemma place_onto_data:
  assumes d: "dom c" and e: "0 \<le> e" "e < numDisks c" "e \<noteq> parity c (o' div chunkSize c)"
  shows "\<exists>b. place c b = (e, o')"
proof -
  have "e \<in> insert (parity c (o' div chunkSize c))
      (column c (o' div chunkSize c) ` {0..<columns c})"
    using e row_disks [OF d] by simp
  then obtain j where "0 \<le> j" "j < columns c" "e = column c (o' div chunkSize c) j"
    using e by auto
  then show ?thesis using place_onto [OF d, of j o'] by auto
qed

end

subsection \<open>The levels are layouts\<close>

interpretation l0: layout striped numDisks "\<lambda>c k j. j" place0
  by unfold_locales (auto simp: striped_def place0_def Let_def)

interpretation l1: layout mirrored "\<lambda>c. numDisks c div 2" "\<lambda>c k j. 2 * j" place1
  by unfold_locales (auto simp: mirrored_def place1_def Let_def)

interpretation l4: parity_layout parity4 "\<lambda>c. numDisks c - 1" "\<lambda>c k j. j" place4 parity_disk4
  by unfold_locales (auto simp: parity4_def place4_def parity_disk4_def Let_def)

text \<open>Both RAID-5 layouts satisfy the laws; the domain fixes which one the array uses.\<close>

definition parity5_ok :: "raid_cfg \<Rightarrow> bool" where
  "parity5_ok c \<longleftrightarrow> parity5 ''LS'' c \<or> parity5 ''LA'' c"

lemma parity5_ok_disks: "parity5_ok c \<Longrightarrow> 2 \<le> numDisks c \<and> 1 \<le> chunkSize c"
  by (auto simp: parity5_ok_def parity5_def)

interpretation l5: parity_layout parity5_ok "\<lambda>c. numDisks c - 1" data_disk5 place5 parity_disk5
  by unfold_locales
    (auto simp: place5_def Let_def data_disk5_not_parity dest!: parity5_ok_disks
      intro: data_disk5_range parity_disk5_range data_disk5_inj)

subsection \<open>Theorems about the maps of the code\<close>

text \<open>
  C17. RAID-0: over a positive chunk size and at least one disk, \<open>bmap0\<close> returns normally without
  changing anything, sends different blocks to different places, and fills every offset of
  every disk.
\<close>

theorem bmap0_bijective:
  assumes "striped (cfg s)"
  shows "(\<exists>d off. bmap0 b s = Ok (d, off) s \<and> 0 \<le> d \<and> d < numDisks s) \<and>
    (bmap0 b s = bmap0 b' s \<longrightarrow> b = b') \<and>
    (0 \<le> d \<and> d < numDisks s \<longrightarrow> (\<exists>b. bmap0 b s = Ok (d, off) s))"
proof (intro conjI)
  note b = bmap0_place [OF assms]
  show "\<exists>d off. bmap0 b s = Ok (d, off) s \<and> 0 \<le> d \<and> d < numDisks s"
    using l0.place_disk_range [OF assms, of b] by (cases "place0 (cfg s) b") (simp add: b)
  show "bmap0 b s = bmap0 b' s \<longrightarrow> b = b'" using l0.place_inj [OF assms, of b b'] by (simp add: b)
  show "0 \<le> d \<and> d < numDisks s \<longrightarrow> (\<exists>b. bmap0 b s = Ok (d, off) s)"
    using l0.place_onto [OF assms, of d off] by (auto simp: b)
qed

theorem bmap0_bijective_witness:
  "striped (cfg (sample_world 0 ''LS'')) \<and>
   (\<exists>b. bmap0 b (sample_world 0 ''LS'') = Ok (2, 7) (sample_world 0 ''LS''))"
  using bmap0_bijective [of "sample_world 0 ''LS''" 0 0 2 7] by simp

text \<open>
  C16. RAID-1: with an even number of disks \<open>bmap1\<close> returns two neighbouring disks of the array,
  an even one and its mirror, and an offset. Two blocks never share a mirror pair at the same
  offset, and every pair and offset is the place of a block.
\<close>

theorem bmap1_mirror_pairs:
  assumes "mirrored (cfg s)"
  shows "(\<exists>d off. bmap1 b s = Ok (d, d + 1, off) s \<and> even d \<and> 0 \<le> d \<and> d + 1 < numDisks s) \<and>
    (bmap1 b s = bmap1 b' s \<longrightarrow> b = b') \<and>
    (0 \<le> d \<and> even d \<and> d < numDisks s \<longrightarrow> (\<exists>b. bmap1 b s = Ok (d, d + 1, off) s))"
proof -
  note bm = bmap1_place [OF assms]
  have n: "even (numDisks s)" using assms by (simp add: mirrored_def)
  have ev: "even (fst (place1 (cfg s) b))" by (simp add: place1_def Let_def)
  have r: "0 \<le> fst (place1 (cfg s) b)" "fst (place1 (cfg s) b) < numDisks s"
    using l1.place_disk_range [OF assms, of b] by auto
  then have "fst (place1 (cfg s) b) + 1 < numDisks s" using n ev by presburger
  with ev r show ?thesis
  proof (intro conjI)
    show "bmap1 b s = bmap1 b' s \<longrightarrow> b = b'"
      using l1.place_inj [OF assms, of b b'] by (simp add: bm prod_eq_iff)
    show "0 \<le> d \<and> even d \<and> d < numDisks s \<longrightarrow> (\<exists>b. bmap1 b s = Ok (d, d + 1, off) s)"
    proof
      assume d: "0 \<le> d \<and> even d \<and> d < numDisks s"
      then have "2 * (d div 2) = d" "0 \<le> d div 2" "d div 2 < numDisks s div 2" using n by presburger+
      with l1.place_onto [OF assms, of "d div 2" off] obtain b where "place1 (cfg s) b = (d, off)"
        by auto
      then have "bmap1 b s = Ok (d, d + 1, off) s" by (simp add: bm)
      then show "\<exists>b. bmap1 b s = Ok (d, d + 1, off) s" ..
    qed
  qed (simp add: bm)
qed

theorem bmap1_mirror_pairs_witness:
  "mirrored (cfg (sample_world 1 ''LS'')) \<and>
   (\<exists>b. bmap1 b (sample_world 1 ''LS'') = Ok (2, 2 + 1, 7) (sample_world 1 ''LS''))"
  using bmap1_mirror_pairs [of "sample_world 1 ''LS''" 0 0 2 7] by simp

text \<open>
  C18. RAID-4: \<open>bmap4\<close> never uses the parity disk that \<open>pmap4\<close> returns (the last one), is
  injective, and reaches every offset of every other disk.
\<close>

theorem bmap4_avoids_parity:
  assumes "parity4 (cfg s)"
  shows "(\<exists>d off. bmap4 b s = Ok (d, off) s \<and> 0 \<le> d \<and> d < numDisks s - 1) \<and>
    pmap4 k s = Ok (numDisks s - 1) s \<and>
    (bmap4 b s = bmap4 b' s \<longrightarrow> b = b') \<and>
    (0 \<le> d \<and> d < numDisks s - 1 \<longrightarrow> (\<exists>b. bmap4 b s = Ok (d, off) s))"
proof (intro conjI)
  note bm = bmap4_place [OF assms]
  show "\<exists>d off. bmap4 b s = Ok (d, off) s \<and> 0 \<le> d \<and> d < numDisks s - 1"
    using l4.place_disk_range [OF assms, of b] l4.place_not_parity [OF assms, of b]
    by (cases "place4 (cfg s) b") (simp add: bm parity_disk4_def)
  show "pmap4 k s = Ok (numDisks s - 1) s"
    using pmap4_parity [OF assms, of k] by (simp add: parity_disk4_def)
  show "bmap4 b s = bmap4 b' s \<longrightarrow> b = b'" using l4.place_inj [OF assms, of b b'] by (simp add: bm)
  show "0 \<le> d \<and> d < numDisks s - 1 \<longrightarrow> (\<exists>b. bmap4 b s = Ok (d, off) s)"
    using l4.place_onto [OF assms, of d off] by (auto simp: bm)
qed

theorem bmap4_avoids_parity_witness:
  "parity4 (cfg (sample_world 4 ''LS'')) \<and> pmap4 9 (sample_world 4 ''LS'') = Ok 3 (sample_world 4 ''LS'')"
  using bmap4_avoids_parity [of "sample_world 4 ''LS''" 0 9 0 0 0] by simp

text \<open>
  C15. RAID-5, both layouts: the assertion \<open>disk != pdisk\<close> of \<open>__bmap5\<close> never fails. \<open>bmap5\<close>
  returns a disk of the array that is not the one \<open>pmap5\<close> returns for the block's stripe, is
  injective, and the places it reaches are exactly those not holding parity.
\<close>

theorem bmap5_avoids_parity:
  assumes "parity5_ok (cfg s)"
  shows "(\<exists>d off pd. bmap5 b s = Ok (d, off) s \<and> pmap5 (b div width (cfg s)) s = Ok pd s \<and>
       0 \<le> d \<and> d < numDisks s \<and> 0 \<le> pd \<and> pd < numDisks s \<and> d \<noteq> pd) \<and>
    (bmap5 b s = bmap5 b' s \<longrightarrow> b = b') \<and>
    (0 \<le> d \<and> d < numDisks s \<longrightarrow>
       ((\<exists>b. bmap5 b s = Ok (d, off) s) \<longleftrightarrow> pmap5 (off div chunkSize s) s \<noteq> Ok d s))"
proof -
  have b: "bmap5 b s = Ok (place5 (cfg s) b) s" for b
    using assms bmap5_place by (auto simp: parity5_ok_def)
  have p: "pmap5 k s = Ok (parity_disk5 (cfg s) k) s" for k
    using assms pmap5_parity by (auto simp: parity5_ok_def)
  have np: "place5 (cfg s) b \<noteq> (parity_disk5 (cfg s) (off div chunkSize s), off)" for b
    using l5.place_not_parity [OF assms, of b] l5.place_off_div [OF assms, of b]
    by (auto simp: l5.row_width_eq assms)
  have on: "\<exists>b. place5 (cfg s) b = (d, off)"
    if "0 \<le> d" "d < numDisks s" "d \<noteq> parity_disk5 (cfg s) (off div chunkSize s)"
    using l5.place_onto_data [OF assms, of d off] that by simp
  show ?thesis
  proof (intro conjI)
    show "\<exists>d off pd. bmap5 b s = Ok (d, off) s \<and> pmap5 (b div width (cfg s)) s = Ok pd s \<and>
       0 \<le> d \<and> d < numDisks s \<and> 0 \<le> pd \<and> pd < numDisks s \<and> d \<noteq> pd"
      using l5.place_disk_range [OF assms, of b] l5.parity_range [OF assms, of "b div width (cfg s)"]
        l5.place_not_parity [OF assms, of b] by (cases "place5 (cfg s) b") (simp add: b p)
    show "bmap5 b s = bmap5 b' s \<longrightarrow> b = b'" using l5.place_inj [OF assms] by (simp add: b)
    show "0 \<le> d \<and> d < numDisks s \<longrightarrow>
       ((\<exists>b. bmap5 b s = Ok (d, off) s) \<longleftrightarrow> pmap5 (off div chunkSize s) s \<noteq> Ok d s)"
      using np on by (auto simp: b p)
  qed
qed

theorem bmap5_avoids_parity_witness:
  "parity5_ok (cfg (sample_world 5 ''LA'')) \<and>
   (\<exists>d off. bmap5 11 (sample_world 5 ''LA'') = Ok (d, off) (sample_world 5 ''LA'') \<and> d < 4)"
  using bmap5_avoids_parity [of "sample_world 5 ''LA''" 11 0 0 0] by (auto simp: parity5_ok_def)

text \<open>
  C19. RAID-5 rotates its parity from the last disk downwards: the parity disk of stripe \<open>k\<close> is
  \<open>(n - 1) - k % n\<close>, and over any \<open>n\<close> consecutive stripes each of the \<open>n\<close> disks is the parity disk
  of exactly one.
\<close>

theorem pmap5_rotates:
  assumes "parity5_ok (cfg s)"
  shows "(\<forall>k. pmap5 k s = Ok ((numDisks s - 1) - k mod numDisks s) s) \<and>
    (\<forall>k. \<forall>d. 0 \<le> d \<and> d < numDisks s \<longrightarrow>
       (\<exists>!i. k \<le> i \<and> i < k + numDisks s \<and> pmap5 i s = Ok d s))"
proof -
  let ?n = "numDisks s"
  have n: "0 < ?n" using parity5_ok_disks [OF assms] by simp
  have p: "pmap5 k s = Ok (?n - 1 - k mod ?n) s" for k
    using assms pmap5_parity by (auto simp: parity5_ok_def parity_disk5_def)
  have "\<exists>!i. k \<le> i \<and> i < k + ?n \<and> ?n - 1 - i mod ?n = d" if d: "0 \<le> d" "d < ?n" for k d
  proof (rule ex1I)
    define r where "r = ?n - 1 - d"
    have r: "r mod ?n = r" "?n - 1 - r = d" using d by (auto simp: r_def)
    let ?i = "k + (r - k) mod ?n"
    have "?i mod ?n = r" using r(1) by (simp add: mod_add_right_eq)
    then show "k \<le> ?i \<and> ?i < k + ?n \<and> ?n - 1 - ?i mod ?n = d" using r n by simp
    fix i assume i: "k \<le> i \<and> i < k + ?n \<and> ?n - 1 - i mod ?n = d"
    then have "i mod ?n = r" by (simp add: r_def)
    then have "(r - k) mod ?n = (i - k) mod ?n" by (metis mod_diff_left_eq r(1))
    moreover have "(i - k) mod ?n = i - k" using i by (intro mod_pos_pos_trivial) auto
    ultimately show "i = ?i" by simp
  qed
  with n show ?thesis by (simp add: p)
qed

theorem pmap5_rotates_witness:
  "parity5_ok (cfg (sample_world 5 ''LS'')) \<and>
   pmap5 6 (sample_world 5 ''LS'') = Ok 1 (sample_world 5 ''LS'')"
  using pmap5_rotates [of "sample_world 5 ''LS''"] by (simp add: parity5_ok_def)

end
