(* ===== verification/Raid_Plan.thy ===== *)
theory Raid_Plan
  imports Raid_Layout
begin

section \<open>Requests as plans\<close>

text \<open>
  The specification of a request is the list of block operations it stands for, as a function of
  the configuration, the address and the size. This theory defines those plans and shows that each
  \<open>enqueue\<close> method is the run of its plan, followed by its closing line, from every state with a
  sound configuration, also when a disk raises half way.
\<close>

subsection \<open>Plans\<close>

definition data_ios ::
  "(int \<Rightarrow> int \<times> int) \<Rightarrow> bool \<Rightarrow> (int \<Rightarrow> bool) \<Rightarrow> int \<Rightarrow> int \<Rightarrow> io list" where
  "data_ios pl w nl a b = map (\<lambda>v. IO w (fst (pl v)) (snd (pl v)) (nl v)) (py_range a b)"

definition offsets :: "(int \<Rightarrow> int \<times> int) \<Rightarrow> int \<Rightarrow> int \<Rightarrow> int list" where
  "offsets pl a b = foldl add_new [] (map (\<lambda>v. snd (pl v)) (py_range a b))"

definition parity_ios :: "bool \<Rightarrow> int \<Rightarrow> int list \<Rightarrow> io list" where
  "parity_ios w pd offs = map (\<lambda>i. IO w pd (offs ! i) (i = length offs - 1)) [0..<length offs]"

definition subtractive :: "int \<Rightarrow> int \<Rightarrow> int \<Rightarrow> bool" where
  "subtractive w a b \<longleftrightarrow> b - a + 1 \<le> w - (b - a)"

definition partial_reads ::
  "int \<Rightarrow> (int \<Rightarrow> int \<times> int) \<Rightarrow> int \<Rightarrow> int \<Rightarrow> int \<Rightarrow> int \<Rightarrow> io list" where
  "partial_reads w pl pd k a b =
     (if subtractive w a b
      then data_ios pl False (\<lambda>_. False) a b @ parity_ios False pd (offsets pl a b)
      else data_ios pl False (\<lambda>v. v = a - 1 \<and> b = k * w + w) (k * w) a @
           data_ios pl False (\<lambda>v. v = k * w + w - 1) b (k * w + w))"

definition partial_writes ::
  "(int \<Rightarrow> int \<times> int) \<Rightarrow> int \<Rightarrow> int \<Rightarrow> int \<Rightarrow> io list" where
  "partial_writes pl pd a b =
     data_ios pl True (\<lambda>_. False) a b @ parity_ios True pd (offsets pl a b)"

definition stripe_segments :: "int \<Rightarrow> int \<Rightarrow> int \<Rightarrow> (int \<times> int \<times> int) list" where
  "stripe_segments w addr sz =
     map (\<lambda>k. (k, max addr (k * w), min (addr + sz) (k * w + w)))
       (py_range (addr div w) ((addr + sz - 1) div w + 1))"

definition write_plan ::
  "int \<Rightarrow> (int \<Rightarrow> int \<times> int) \<Rightarrow> (int \<Rightarrow> int) \<Rightarrow> int \<Rightarrow> int \<Rightarrow> io list" where
  "write_plan w pl par addr sz =
     concat (map (\<lambda>(k, a, b). partial_reads w pl (par k) k a b @ partial_writes pl (par k) a b)
       (stripe_segments w addr sz))"

definition striping_plan :: "raid_cfg \<Rightarrow> int \<Rightarrow> int \<Rightarrow> bool \<Rightarrow> io list" where
  "striping_plan c addr sz w = data_ios (place0 c) w (\<lambda>_. True) addr (addr + sz)"

definition mirror_block :: "raid_cfg \<Rightarrow> bool \<Rightarrow> int \<Rightarrow> io list" where
  "mirror_block c w b =
     (case place1 c b of (d, off) \<Rightarrow>
        if w then [IO True d off False, IO True (d + 1) off True]
        else [IO False (if even off then d else d + 1) off True])"

definition mirroring_plan :: "raid_cfg \<Rightarrow> int \<Rightarrow> int \<Rightarrow> bool \<Rightarrow> io list" where
  "mirroring_plan c addr sz w = concat (map (mirror_block c w) (py_range addr (addr + sz)))"

definition parity_plan ::
  "int \<Rightarrow> (int \<Rightarrow> int \<times> int) \<Rightarrow> (int \<Rightarrow> int) \<Rightarrow> int \<Rightarrow> int \<Rightarrow> bool \<Rightarrow> io list" where
  "parity_plan w pl par addr sz isW =
     (if isW then write_plan w pl par addr sz
      else data_ios pl False (\<lambda>_. False) addr (addr + sz))"

subsection \<open>Offset lists\<close>

lemma set_foldl_add_new: "set (foldl add_new acc xs) = set acc \<union> set xs"
  by (induction xs arbitrary: acc) (auto simp: add_new_def)

lemma distinct_foldl_add_new: "distinct acc \<Longrightarrow> distinct (foldl add_new acc xs)"
  by (induction xs arbitrary: acc) (auto simp: add_new_def)

lemma set_offsets: "set (offsets pl a b) = (\<lambda>v. snd (pl v)) ` {a..<b}"
  by (simp add: offsets_def set_foldl_add_new)

lemma distinct_offsets: "distinct (offsets pl a b)"
  by (simp add: offsets_def distinct_foldl_add_new)

lemma set_data_ios: "set (data_ios pl w nl a b) = (\<lambda>v. IO w (fst (pl v)) (snd (pl v)) (nl v)) ` {a..<b}"
  by (simp add: data_ios_def)

lemma length_data_ios [simp]: "length (data_ios pl w nl a b) = nat (b - a)"
  by (simp add: data_ios_def)

lemma length_parity_ios [simp]: "length (parity_ios w pd offs) = length offs"
  by (simp add: parity_ios_def)

lemma data_ios_empty [simp]: "b \<le> a \<Longrightarrow> data_ios pl w nl a b = []"
  by (simp add: data_ios_def)

text \<open>The places a plan touches, without the newline flags.\<close>

definition touched :: "bool \<Rightarrow> io list \<Rightarrow> (int \<times> int) set" where
  "touched w ios = {(io_disk x, io_off x) | x. x \<in> set ios \<and> is_wr x = w}"

lemma touched_append [simp]: "touched w (xs @ ys) = touched w xs \<union> touched w ys"
  by (auto simp: touched_def)

lemma touched_data_ios: "touched w (data_ios pl w' nl a b) = (if w = w' then pl ` {a..<b} else {})"
  by (force simp: touched_def set_data_ios)

lemma touched_parity_ios:
  "touched w (parity_ios w' pd offs) = (if w = w' then (\<lambda>off. (pd, off)) ` set offs else {})"
  by (force simp: touched_def parity_ios_def in_set_conv_nth image_iff)

subsection \<open>One stripe\<close>

text \<open>
  The write loop. \<open>left\<close> and \<open>begin\<close> are determined by the stripe number: the segment of stripe
  \<open>k\<close> runs from the later of \<open>addr\<close> and the stripe's first block to the earlier of the request's
  end and the stripe's.
\<close>

lemma segment_end:
  fixes addr sz beg w k :: int
  assumes "beg = max addr (k * w)" "left = addr + sz - beg"
  shows "(let e = (if left \<ge> w then beg + w else beg + left) in if e \<ge> k * w + w then k * w + w else e)
    = min (addr + sz) (k * w + w)"
  using assms by (auto simp: Let_def)

lemma next_segment:
  fixes addr sz k w :: int
  assumes "1 \<le> w" "addr div w \<le> k" "k + 1 \<le> (addr + sz - 1) div w"
  shows "min (addr + sz) (k * w + w) = max addr ((k + 1) * w)"
proof -
  have "addr div w * w \<le> k * w" using assms by (intro mult_right_mono) auto
  then have "addr \<le> k * w + w"
    using div_mult_mod_eq [of addr w] pos_mod_bound [of w addr] assms(1) by linarith
  moreover have "(k + 1) * w \<le> (addr + sz - 1) div w * w" using assms by (intro mult_right_mono) auto
  then have "(k + 1) * w \<le> addr + sz - 1"
    using div_mult_mod_eq [of "addr + sz - 1" w] pos_mod_sign [of w "addr + sz - 1"] assms(1) by linarith
  ultimately show ?thesis by (simp add: distrib_right)
qed

lemma write_loop:
  assumes w: "1 \<le> w" and k: "addr div w \<le> k" and K: "K = (addr + sz - 1) div w"
    and beg: "k \<le> K \<Longrightarrow> beg = max addr (k * w)" and left: "left = addr + sz - beg"
  shows "pseq (for_acc (py_range k (K + 1)) (left, beg) (\<lambda>stripe (left, beg).
             let endOfStripe = stripe * w + w;
                 end1 = (if left \<ge> w then beg + w else beg + left);
                 stop = (if end1 \<ge> endOfStripe then endOfStripe else end1)
             in pseq (doPartialWrite stripe beg stop bmap pmap)
                  (return (left - (stop - beg), stop)))) (return ())
    = for_each (map (\<lambda>k. (k, max addr (k * w), min (addr + sz) (k * w + w))) (py_range k (K + 1)))
        (\<lambda>(k, a, b). doPartialWrite k a b bmap pmap)"
  using k beg left
proof (induction "nat (K + 1 - k)" arbitrary: k beg left)
  case 0
  then show ?case by simp
next
  case (Suc n)
  let ?body = "\<lambda>stripe (left, beg).
             let endOfStripe = stripe * w + w;
                 end1 = (if left \<ge> w then beg + w else beg + left);
                 stop = (if end1 \<ge> endOfStripe then endOfStripe else end1)
             in pseq (doPartialWrite stripe beg stop bmap pmap)
                  (return (left - (stop - beg), stop))"
  let ?stop = "min (addr + sz) (k * w + w)"
  have kK: "k \<le> K" using Suc.hyps(2) by simp
  have beg: "beg = max addr (k * w)" by (rule Suc.prems(2) [OF kK])
  have next_beg: "?stop = max addr ((k + 1) * w)" if "k + 1 \<le> K"
    using next_segment [OF w Suc.prems(1)] that by (simp add: K)
  have body: "?body k (left, beg) = pseq (doPartialWrite k beg ?stop bmap pmap)
      (return (left - (?stop - beg), ?stop))"
    using segment_end [OF beg Suc.prems(3), unfolded Let_def] by (simp add: Let_def)
  have "pseq (for_acc (py_range (k + 1) (K + 1)) (left - (?stop - beg), ?stop) ?body) (return ()) =
      for_each (map (\<lambda>k. (k, max addr (k * w), min (addr + sz) (k * w + w))) (py_range (k + 1) (K + 1)))
        (\<lambda>(k, a, b). doPartialWrite k a b bmap pmap)"
    using Suc.hyps(1) [of "k + 1" ?stop "left - (?stop - beg)"] Suc.hyps(2) Suc.prems next_beg by simp
  then have "pseq (for_acc (py_range k (K + 1)) (left, beg) ?body) (return ()) =
      pseq (doPartialWrite k beg ?stop bmap pmap)
        (for_each (map (\<lambda>k. (k, max addr (k * w), min (addr + sz) (k * w + w))) (py_range (k + 1) (K + 1)))
          (\<lambda>(k, a, b). doPartialWrite k a b bmap pmap))"
    using kK by (simp only: py_range_Cons for_acc.simps body pbind_pseq_return pseq_assoc)
  also have "\<dots> = for_each (map (\<lambda>k. (k, max addr (k * w), min (addr + sz) (k * w + w))) (py_range k (K + 1)))
      (\<lambda>(k, a, b). doPartialWrite k a b bmap pmap)"
    using kK by (simp add: py_range_Cons beg)
  finally show ?case .
qed

lemma write_stripes_segments:
  assumes bis: "blocksInStripe s = Some w" and w: "1 \<le> w"
  shows "write_stripes bmap pmap addr sz s =
    for_each (stripe_segments w addr sz) (\<lambda>(k, a, b). doPartialWrite k a b bmap pmap) s"
proof -
  have "addr = max addr (addr div w * w)"
    using div_mult_mod_eq [of addr w] pos_mod_sign [of w addr] w by linarith
  then show ?thesis
    using write_loop [OF w order_refl refl, of addr sz addr sz bmap pmap] bis w
    by (simp add: write_stripes_def stripe_segments_def)
qed

text \<open>A loop that maps a block and issues one operation.\<close>

locale block_map = layout +
  fixes bmap :: "int \<Rightarrow> (world, int \<times> int) py"
  assumes bmap_place: "dom (cfg s) \<Longrightarrow> bmap b s = Ok (place (cfg s) b) s"
begin

lemma data_loop:
  assumes "dom (cfg s)"
  shows "for_each (py_range a b) (\<lambda>v. pbind (bmap v) (\<lambda>(d, off). perform (IO w d off (nl v)))) s
    = run_plan (data_ios (place (cfg s)) w nl a b) s"
proof -
  have "for_each (py_range a b) (\<lambda>v. pbind (bmap v) (\<lambda>(d, off). perform (IO w d off (nl v)))) s =
      run_plan (concat (map (\<lambda>v. [IO w (fst (place (cfg s) v)) (snd (place (cfg s) v)) (nl v)])
        (py_range a b))) s"
    by (rule for_each_plan)
      (use assms in \<open>simp add: bmap_place run_plan_single case_prod_beta\<close>)
  then show ?thesis by (simp add: data_ios_def concat_map_singleton)
qed

text \<open>The same loop when it also collects the offsets it has seen.\<close>

lemma collect_loop:
  assumes "dom (cfg s)"
  shows "for_acc vs acc (\<lambda>v offs. pbind (bmap v) (\<lambda>(d, off).
      pseq (perform (IO w d off False)) (return (add_new offs off)))) s
    = pseq (run_plan (map (\<lambda>v. IO w (fst (place (cfg s) v)) (snd (place (cfg s) v)) False) vs))
        (return (foldl add_new acc (map (\<lambda>v. snd (place (cfg s) v)) vs))) s"
  using assms
proof (induction vs arbitrary: s acc)
  case Nil
  then show ?case by (simp add: run_plan_simps)
next
  case (Cons v vs)
  let ?x = "IO w (fst (place (cfg s) v)) (snd (place (cfg s) v)) False"
  have b: "bmap v s = Ok (place (cfg s) v) s" using Cons.prems by (rule bmap_place)
  show ?case
  proof (cases "perform ?x s")
    case (Ok u t)
    then have "cfg t = cfg s" using cfg_perform [of ?x s] by simp
    with Ok Cons b show ?thesis by (simp add: run_plan_simps case_prod_beta pseq_assoc)
  next
    case (Raise e t)
    with b show ?thesis by (simp add: run_plan_simps case_prod_beta)
  qed
qed

lemma collect_loop_then:
  assumes d: "dom (cfg s)"
  shows "pbind (for_acc (py_range a b) [] (\<lambda>v offs. pbind (bmap v) (\<lambda>(d, off).
        pseq (perform (IO w d off False)) (return (add_new offs off)))))
      (\<lambda>offs. for_each [0..<length offs] (\<lambda>i. perform (IO w pd (offs ! i) (i = length offs - 1)))) s
    = run_plan (data_ios (place (cfg s)) w (\<lambda>_. False) a b @
        parity_ios w pd (offsets (place (cfg s)) a b)) s"
proof -
  have e: "for_each [0..<length offs] (\<lambda>i. perform (IO w pd (offs ! i) (i = length offs - 1))) =
      run_plan (parity_ios w pd offs)" for offs
    by (simp add: run_plan_def parity_ios_def for_each_map)
  have "pbind (for_acc (py_range a b) [] (\<lambda>v offs. pbind (bmap v) (\<lambda>(d, off).
        pseq (perform (IO w d off False)) (return (add_new offs off)))))
      (\<lambda>offs. run_plan (parity_ios w pd offs)) s =
    pbind (pseq (run_plan (data_ios (place (cfg s)) w (\<lambda>_. False) a b))
        (return (offsets (place (cfg s)) a b))) (\<lambda>offs. run_plan (parity_ios w pd offs)) s"
    unfolding data_ios_def offsets_def by (rule pbind_cong1) (rule collect_loop [OF d])
  then show ?thesis unfolding e by (simp add: pbind_pseq_return run_plan_append)
qed

lemma read_blocks_plan:
  assumes "dom (cfg s)"
  shows "read_blocks bmap addr sz s =
    run_plan (data_ios (place (cfg s)) False (\<lambda>_. False) addr (addr + sz)) s"
  unfolding read_blocks_def perform_IO by (rule data_loop [OF assms])

end

text \<open>\<open>pmap\<close> returns the parity disk of a stripe, and the stripe width is that of the geometry.\<close>

locale parity_map = parity_layout + block_map +
  fixes pmap :: "int \<Rightarrow> (world, int) py"
  assumes pmap_parity: "dom (cfg s) \<Longrightarrow> pmap k s = Ok (parity (cfg s) k) s"
    and stripe_width: "dom c \<Longrightarrow> blocksInStripe c = Some (width c)"
begin

lemma width_pos: "dom c \<Longrightarrow> 1 \<le> width c"
  using row_width_pos [of c] by (simp add: row_width_eq)

text \<open>\<open>doPartialWrite\<close> issues the reads its parity method needs, then the writes.\<close>

lemma doPartialWrite_plan:
  assumes d: "dom (cfg s)"
  shows "doPartialWrite k a b bmap pmap s =
    run_plan (partial_reads (width (cfg s)) (place (cfg s)) (parity (cfg s) k) k a b @
      partial_writes (place (cfg s)) (parity (cfg s) k) a b) s"
proof -
  let ?w = "width (cfg s)" and ?pl = "place (cfg s)" and ?pd = "parity (cfg s) k"
  let ?collect = "\<lambda>w. pbind (for_acc (py_range a b) [] (\<lambda>v offs. pbind (bmap v) (\<lambda>(d, off).
        pseq (perform (IO w d off False)) (return (add_new offs off)))))
      (\<lambda>offs. for_each [0..<length offs] (\<lambda>i. perform (IO w ?pd (offs ! i) (i = length offs - 1))))"
  let ?additive = "pseq (for_each (py_range (k * ?w) a)
        (\<lambda>v. pbind (bmap v) (\<lambda>(d, off). perform (IO False d off (v = a - 1 \<and> b = k * ?w + ?w)))))
      (for_each (py_range b (k * ?w + ?w))
        (\<lambda>v. pbind (bmap v) (\<lambda>(d, off). perform (IO False d off (v = k * ?w + ?w - 1)))))"
  have unfolded: "doPartialWrite k a b bmap pmap s =
      pseq (if subtractive ?w a b then ?collect False else ?additive) (?collect True) s"
    using pmap_parity [OF d, of k] stripe_width [OF d]
    by (simp add: doPartialWrite_def perform_IO Let_def subtractive_def del: One_nat_def)
  have "(if subtractive ?w a b then ?collect False else ?additive) s =
      run_plan (partial_reads ?w ?pl ?pd k a b) s"
  proof (cases "subtractive ?w a b")
    case True
    then show ?thesis
      using collect_loop_then [OF d, of a b False ?pd] by (simp only: partial_reads_def if_True)
  next
    case False
    have "?additive s = run_plan (data_ios ?pl False (\<lambda>v. v = a - 1 \<and> b = k * ?w + ?w) (k * ?w) a @
        data_ios ?pl False (\<lambda>v. v = k * ?w + ?w - 1) b (k * ?w + ?w)) s"
    proof (rule pseq_plan)
      fix t :: world assume t: "cfg t = cfg s"
      then show "for_each (py_range b (k * ?w + ?w))
          (\<lambda>v. pbind (bmap v) (\<lambda>(d, off). perform (IO False d off (v = k * ?w + ?w - 1)))) t =
        run_plan (data_ios ?pl False (\<lambda>v. v = k * ?w + ?w - 1) b (k * ?w + ?w)) t"
        using data_loop [of t b "k * ?w + ?w" False] d by simp
    qed (rule data_loop [OF d])
    with False show ?thesis by (simp only: partial_reads_def if_False)
  qed
  then show ?thesis unfolding unfolded
  proof (rule pseq_plan)
    fix t :: world assume "cfg t = cfg s"
    then show "?collect True t = run_plan (partial_writes ?pl ?pd a b) t"
      using collect_loop_then [of t a b True ?pd] d by (simp only: partial_writes_def)
  qed
qed

lemma write_stripes_plan:
  assumes d: "dom (cfg s)"
  shows "write_stripes bmap pmap addr sz s =
    run_plan (write_plan (width (cfg s)) (place (cfg s)) (parity (cfg s)) addr sz) s"
proof -
  let ?w = "width (cfg s)"
  have "write_stripes bmap pmap addr sz s =
      for_each (stripe_segments ?w addr sz) (\<lambda>(k, a, b). doPartialWrite k a b bmap pmap) s"
    using write_stripes_segments [of s ?w] stripe_width [OF d] width_pos [OF d] by simp
  also have "\<dots> = run_plan (write_plan ?w (place (cfg s)) (parity (cfg s)) addr sz) s"
    unfolding write_plan_def
    by (rule for_each_plan) (use d doPartialWrite_plan in \<open>auto split: prod.split\<close>)
  finally show ?thesis .
qed

text \<open>A request at a parity level is the run of its plan.\<close>

lemma request_plan:
  assumes "dom (cfg s)"
  shows "(if isW = False then read_blocks bmap addr sz else write_stripes bmap pmap addr sz) s =
    run_plan (parity_plan (width (cfg s)) (place (cfg s)) (parity (cfg s)) addr sz isW) s"
  using assms by (simp add: parity_plan_def read_blocks_plan write_stripes_plan)

end

subsection \<open>The levels\<close>

interpretation m0: block_map striped numDisks "\<lambda>c k j. j" place0 bmap0
  by unfold_locales (rule bmap0_place)

interpretation m4: parity_map parity4 "\<lambda>c. numDisks c - 1" "\<lambda>c k j. j" place4 parity_disk4 bmap4 pmap4
  by unfold_locales (auto simp: bmap4_place pmap4_parity parity4_def width_def)

interpretation m5: parity_map parity5_ok "\<lambda>c. numDisks c - 1" data_disk5 place5 parity_disk5 bmap5 pmap5
  by unfold_locales
    (auto simp: parity5_ok_def bmap5_place pmap5_parity, auto simp: parity5_def width_def)

end
