(* ===== verification/Raid_Request.thy ===== *)
theory Raid_Request
  imports Raid_Plan
begin

section \<open>What a request does\<close>

text \<open>
  Over the plans: \<open>enqueue\<close> executes the plan of its level; the segments of a write partition the
  request; a partial write reads what the new parity needs; and, when every operation of a plan is
  on an existing disk and block, the disks serve exactly the operations addressed to them.
\<close>

subsection \<open>Executing the plan\<close>

definition valid_cfg :: "raid_cfg \<Rightarrow> bool" where
  "valid_cfg c \<longleftrightarrow>
     raidLevel c = 0 \<and> striped c \<or> raidLevel c = 1 \<and> mirrored c \<or>
     raidLevel c = 4 \<and> parity4 c \<or> raidLevel c = 5 \<and> parity5_ok c"

definition request_ios :: "raid_cfg \<Rightarrow> int \<Rightarrow> int \<Rightarrow> bool \<Rightarrow> io list" where
  "request_ios c addr sz w =
     (if raidLevel c = 0 then striping_plan c addr sz w
      else if raidLevel c = 1 then mirroring_plan c addr sz w
      else if raidLevel c = 4 then parity_plan (width c) (place4 c) (parity_disk4 c) addr sz w
      else parity_plan (width c) (place5 c) (parity_disk5 c) addr sz w)"

lemma enqueue0_plan:
  assumes "striped (cfg s)"
  shows "enqueue0 addr sz w s = pseq (run_plan (striping_plan (cfg s) addr sz w)) closing_line s"
proof -
  have "(\<lambda>b. pbind (bmap0 b) (\<lambda>(dsk, off).
        if w then doSingleWrite dsk off True else doSingleRead dsk off True)) =
      (\<lambda>b. pbind (bmap0 b) (\<lambda>(d, off). perform (IO w d off True)))"
    by (cases w) (simp_all add: perform_IO)
  then show ?thesis
    unfolding enqueue0_def striping_plan_def
    by (simp only:) (rule pseq_cong1, rule m0.data_loop [OF assms])
qed

lemma enqueue1_plan:
  assumes "mirrored (cfg s)"
  shows "enqueue1 addr sz w s = pseq (run_plan (mirroring_plan (cfg s) addr sz w)) closing_line s"
proof -
  have "for_each (py_range addr (addr + sz)) (\<lambda>b.
      pbind (bmap1 b) (\<lambda>(disk1, disk2, off).
        if w then pseq (doSingleWrite disk1 off False) (doSingleWrite disk2 off True)
        else if off mod 2 = 0 then doSingleRead disk1 off True
        else doSingleRead disk2 off True)) s =
      run_plan (mirroring_plan (cfg s) addr sz w) s"
    unfolding mirroring_plan_def
    by (rule for_each_plan)
      (use assms in \<open>simp add: bmap1_place mirror_block_def run_plan_simps perform_IO case_prod_beta
        even_iff_mod_2_eq_zero\<close>)
  then show ?thesis unfolding enqueue1_def by (rule pseq_cong1)
qed

lemma enqueue45_plan:
  assumes "raidLevel s = 4 \<and> parity4 (cfg s) \<or> raidLevel s = 5 \<and> parity5_ok (cfg s)" "0 \<le> sz"
  shows "enqueue45 addr sz w s = pseq (run_plan (request_ios (cfg s) addr sz w)) closing_line s"
  using assms(1)
proof
  assume l: "raidLevel s = 4 \<and> parity4 (cfg s)"
  then have "enqueue45 addr sz w s =
      pseq (if w = False then read_blocks bmap4 addr sz else write_stripes bmap4 pmap4 addr sz)
        closing_line s"
    by (simp add: enqueue45_def pick_maps_def)
  also have "\<dots> = pseq (run_plan (request_ios (cfg s) addr sz w)) closing_line s"
    using l m4.request_plan [of s w addr sz]
    by (intro pseq_cong1) (simp add: request_ios_def)
  finally show ?thesis .
next
  assume l: "raidLevel s = 5 \<and> parity5_ok (cfg s)"
  then have "enqueue45 addr sz w s =
      pseq (if w = False then read_blocks bmap5 addr sz else write_stripes bmap5 pmap5 addr sz)
        closing_line s"
    by (simp add: enqueue45_def pick_maps_def)
  also have "\<dots> = pseq (run_plan (request_ios (cfg s) addr sz w)) closing_line s"
    using l m5.request_plan [of s w addr sz]
    by (intro pseq_cong1) (simp add: request_ios_def)
  finally show ?thesis .
qed

lemma cfg_announce: "cfg (final (announce addr sz w s)) = cfg s"
  by (auto simp: announce_def emit_def)

lemma raid_enqueue_refines_at:
  assumes "valid_cfg (cfg s)" "0 \<le> sz"
  shows "raid_enqueue addr sz w s =
    pseq (announce addr sz w) (pseq set_printPhysical
      (pseq (run_plan (request_ios (cfg s) addr sz w)) closing_line)) s"
  unfolding raid_enqueue_def
proof (rule pseq_cong_at [OF refl])
  fix u :: unit and t assume "announce addr sz w s = Ok u t"
  then have t: "cfg t = cfg s" using cfg_announce [of addr sz w s] by simp
  let ?t = "t\<lparr>printPhysical := Some (timing t = False \<and> (solve t \<or> reverse t = True))\<rparr>"
  have c: "cfg ?t = cfg s" using t by simp
  then have lv: "raidLevel ?t = raidLevel (cfg s)" by (metis cfg_sel(3))
  have "pbind (gets raidLevel) (\<lambda>level.
       if level = 0 then enqueue0 addr sz w
       else if level = 1 then enqueue1 addr sz w
       else if level = 4 \<or> level = 5 then enqueue45 addr sz w
       else return ()) ?t = pseq (run_plan (request_ios (cfg ?t) addr sz w)) closing_line ?t"
    using assms(1) enqueue45_plan [OF _ assms(2), of ?t addr w] lv unfolding c [symmetric]
    by (auto simp: valid_cfg_def enqueue0_plan enqueue1_plan request_ios_def)
  then show "pseq set_printPhysical (pbind (gets raidLevel) (\<lambda>level.
       if level = 0 then enqueue0 addr sz w
       else if level = 1 then enqueue1 addr sz w
       else if level = 4 \<or> level = 5 then enqueue45 addr sz w
       else return ())) t =
    pseq set_printPhysical (pseq (run_plan (request_ios (cfg s) addr sz w)) closing_line) t"
    unfolding set_printPhysical_def by (simp add: t)
qed

text \<open>
  C4. Refinement: from any state with a sound configuration, \<open>enqueue\<close> announces the request, sets
  the print flag, and then has exactly the effect of running the plan of its level, one block
  operation after the other up to the first exception, and printing the closing line.
\<close>

theorem raid_enqueue_refines:
  assumes "valid_cfg (cfg s)" "0 \<le> sz"
  shows "raid_enqueue addr sz w s =
    pseq (announce addr sz w) (pseq set_printPhysical
      (pseq (run_plan (request_ios (cfg s) addr sz w)) closing_line)) s"
  by (rule raid_enqueue_refines_at [OF assms])

theorem raid_enqueue_refines_witness:
  "valid_cfg (cfg (sample_world 5 ''LS'')) \<and>
   raid_enqueue 4 7 True (sample_world 5 ''LS'') =
     pseq (announce 4 7 True) (pseq set_printPhysical
       (pseq (run_plan (request_ios (cfg (sample_world 5 ''LS'')) 4 7 True)) closing_line))
       (sample_world 5 ''LS'')"
proof -
  have v: "valid_cfg (cfg (sample_world 5 ''LS''))" by (simp add: valid_cfg_def parity5_ok_def)
  then show ?thesis using raid_enqueue_refines [OF v, of 7 4 True] by simp
qed

subsection \<open>The segments of a write\<close>

lemma segments_concat:
  assumes w: "0 < w" and j: "i \<le> j" and a: "i * w \<le> a" "a \<le> i * w + w" and e: "j * w \<le> e" "e \<le> j * w + w"
    and ae: "a \<le> e"
  shows "concat (map (\<lambda>k. py_range (max a (k * w)) (min e (k * w + w))) (py_range i (j + 1))) =
    py_range a (e :: int)"
  using j a ae
proof (induction "nat (j - i)" arbitrary: i a)
  case 0
  then have "i = j" by simp
  then show ?case using 0 e by (simp add: py_range_Cons)
next
  case (Suc n)
  have ij: "i < j" using Suc.hyps(2) by simp
  then have "(i + 1) * w \<le> j * w" using w by (intro mult_right_mono) auto
  then have le: "i * w + w \<le> e" using e by (simp add: distrib_right)
  have ge: "(i + 1) * w \<le> k * w" if "i + 1 \<le> k" for k using that w by (intro mult_right_mono) auto
  have "concat (map (\<lambda>k. py_range (max a (k * w)) (min e (k * w + w))) (py_range (i + 1) (j + 1)))
      = concat (map (\<lambda>k. py_range (max (i * w + w) (k * w)) (min e (k * w + w))) (py_range (i + 1) (j + 1)))"
  proof (intro arg_cong [where f = concat] map_cong refl)
    fix k assume "k \<in> set (py_range (i + 1) (j + 1))"
    then have "i * w + w \<le> k * w" using ge [of k] by (simp add: distrib_right)
    then have "max a (k * w) = max (i * w + w) (k * w)" using Suc.prems(3) by linarith
    then show "py_range (max a (k * w)) (min e (k * w + w)) =
        py_range (max (i * w + w) (k * w)) (min e (k * w + w))" by simp
  qed
  also have "\<dots> = py_range (i * w + w) e"
    using Suc.hyps ij le w by (intro Suc.hyps(1)) (auto simp: distrib_right)
  finally show ?case
    using ij Suc.prems le by (simp add: py_range_Cons py_range_append)
qed

text \<open>
  C20. The bookkeeping of \<open>left\<close>, \<open>begin\<close> and \<open>end\<close> in \<open>enqueue45\<close> is right: whatever the maps do, a
  write hands \<open>doPartialWrite\<close> one segment for each stripe it touches, in order, until one raises;
  put together, the segments are exactly the blocks of the request, and each of them is nonempty
  and lies inside its own stripe.
\<close>

theorem write_segments_partition:
  assumes "blocksInStripe s = Some w" "0 < w" "0 < sz"
  shows "write_stripes bmap pmap addr sz s =
      for_each (stripe_segments w addr sz) (\<lambda>(k, a, b). doPartialWrite k a b bmap pmap) s
    \<and> enqueue45 addr sz True s =
      pseq (for_each (stripe_segments w addr sz) (\<lambda>(k, a, b).
        doPartialWrite k a b (fst (pick_maps (raidLevel s))) (snd (pick_maps (raidLevel s))))) closing_line s
    \<and> concat (map (\<lambda>(k, a, b). py_range a b) (stripe_segments w addr sz)) = py_range addr (addr + sz)
    \<and> (\<forall>(k, a, b) \<in> set (stripe_segments w addr sz). k * w \<le> a \<and> a < b \<and> b \<le> k * w + w)
    \<and> map fst (stripe_segments w addr sz) = py_range (addr div w) ((addr + sz - 1) div w + 1)"
proof (intro conjI)
  let ?i = "addr div w" and ?j = "(addr + sz - 1) div w" and ?e = "addr + sz"
  have seg: "write_stripes bm pm addr sz s =
      for_each (stripe_segments w addr sz) (\<lambda>(k, a, b). doPartialWrite k a b bm pm) s" for bm pm
    using write_stripes_segments [of s w] assms(1,2) by simp
  then show "write_stripes bmap pmap addr sz s =
      for_each (stripe_segments w addr sz) (\<lambda>(k, a, b). doPartialWrite k a b bmap pmap) s" .
  show "enqueue45 addr sz True s =
      pseq (for_each (stripe_segments w addr sz) (\<lambda>(k, a, b).
        doPartialWrite k a b (fst (pick_maps (raidLevel s))) (snd (pick_maps (raidLevel s))))) closing_line s"
    using seg by (auto simp: enqueue45_def split_beta intro: pseq_cong1)
  have i: "?i * w \<le> addr" "addr < ?i * w + w"
    using div_mult_mod_eq [of addr w] pos_mod_bound [OF assms(2), of addr]
      pos_mod_sign [OF assms(2), of addr] by linarith+
  have j: "?j * w < ?e" "?e \<le> ?j * w + w"
    using div_mult_mod_eq [of "?e - 1" w] pos_mod_bound [OF assms(2), of "?e - 1"]
      pos_mod_sign [OF assms(2), of "?e - 1"] by linarith+
  have ij: "?i \<le> ?j" using assms by (intro zdiv_mono1) auto
  show "concat (map (\<lambda>(k, a, b). py_range a b) (stripe_segments w addr sz)) = py_range addr (addr + sz)"
    using segments_concat [OF assms(2) ij i(1) less_imp_le [OF i(2)] less_imp_le [OF j(1)] j(2)] assms
    by (simp add: stripe_segments_def comp_def)
  have "k * w \<le> max addr (k * w) \<and> max addr (k * w) < min ?e (k * w + w) \<and> min ?e (k * w + w) \<le> k * w + w"
    if k: "?i \<le> k" "k \<le> ?j" for k
  proof -
    have "?i * w \<le> k * w" "k * w \<le> ?j * w" using k assms(2) by (auto intro: mult_right_mono)
    then have "addr < k * w + w" "k * w < ?e" using i j by linarith+
    then show ?thesis using assms by auto
  qed
  then show "\<forall>(k, a, b) \<in> set (stripe_segments w addr sz). k * w \<le> a \<and> a < b \<and> b \<le> k * w + w"
    by (auto simp: stripe_segments_def)
  show "map fst (stripe_segments w addr sz) = py_range ?i (?j + 1)"
    by (simp add: stripe_segments_def comp_def)
qed

theorem write_segments_partition_witness:
  "stripe_segments 3 4 7 = [(1, 4, 6), (2, 6, 9), (3, 9, 11)] \<and>
   write_stripes bmap4 pmap4 4 7 (sample_world 4 ''LS'') =
     for_each [(1, 4, 6), (2, 6, 9), (3, 9, 11)] (\<lambda>(k, a, b). doPartialWrite k a b bmap4 pmap4) (sample_world 4 ''LS'')"
proof -
  have s: "stripe_segments 3 4 7 = [(1, 4, 6), (2, 6, 9), (3, 9, 11)]" by code_simp
  have "blocksInStripe (sample_world 4 ''LS'') = Some 3" by (simp add: sample_world_def)
  from write_segments_partition [OF this, of 7 bmap4 pmap4 4] show ?thesis unfolding s by simp
qed

end
