(* ===== verification/Raid_Parity.thy ===== *)
theory Raid_Parity
  imports Raid_Request "HOL-Library.Word"
begin

unbundle bit_operations_syntax

section \<open>What a partial write is for\<close>

text \<open>
  The script moves no data, but the operations it issues are those of a parity array, and their
  point is that the parity of every stripe stays the exclusive or of its data. This theory gives
  the operations contents: a store of words, the data the request writes, and the new parity
  computed from what \<open>doPartialWrite\<close> has read, by the method its comments name.
\<close>

type_synonym 'w store = "int \<times> int \<Rightarrow> 'w word"

definition xors :: "('b \<Rightarrow> 'w::len word) \<Rightarrow> 'b list \<Rightarrow> 'w word" where
  "xors f xs = foldr (\<lambda>v acc. f v XOR acc) xs 0"

definition stripe_row :: "int \<Rightarrow> (int \<Rightarrow> int \<times> int) \<Rightarrow> int \<Rightarrow> int \<Rightarrow> int list" where
  "stripe_row w pl k off = filter (\<lambda>v. snd (pl v) = off) (py_range (k * w) (k * w + w))"

definition parity_holds ::
  "int \<Rightarrow> (int \<Rightarrow> int \<times> int) \<Rightarrow> int \<Rightarrow> int \<Rightarrow> 'w::len store \<Rightarrow> int \<Rightarrow> bool" where
  "parity_holds w pl pd k st off \<longleftrightarrow> st (pd, off) = xors (\<lambda>v. st (pl v)) (stripe_row w pl k off)"

text \<open>What the plan's reads deliver: the old contents of the places read, nothing else.\<close>

definition values_read :: "'w::len store \<Rightarrow> io list \<Rightarrow> int \<times> int \<Rightarrow> 'w word option" where
  "values_read st ios p = (if p \<in> touched False ios then Some (st p) else None)"

definition xor_opt :: "'w::len word option \<Rightarrow> 'w word option \<Rightarrow> 'w word option" where
  "xor_opt x y = (case (x, y) of (Some a, Some b) \<Rightarrow> Some (a XOR b) | _ \<Rightarrow> None)"

definition xors_opt :: "('b \<Rightarrow> 'w::len word option) \<Rightarrow> 'b list \<Rightarrow> 'w word option" where
  "xors_opt f xs = foldr (\<lambda>v acc. xor_opt (f v) acc) xs (Some 0)"

text \<open>
  The new parity of one offset: subtractive, the old parity with the old data taken out and the
  new put in; additive, the new data together with the rest of the stripe. It is \<open>None\<close> if it
  would need a block that was not read.
\<close>

definition new_parity ::
  "int \<Rightarrow> (int \<Rightarrow> int \<times> int) \<Rightarrow> int \<Rightarrow> int \<Rightarrow> int \<Rightarrow> int \<Rightarrow> (int \<Rightarrow> 'w::len word) \<Rightarrow>
     (int \<times> int \<Rightarrow> 'w word option) \<Rightarrow> int \<Rightarrow> 'w word option" where
  "new_parity w pl pd k a b new rd off =
     (if subtractive w a b then
        xor_opt (rd (pd, off))
          (xors_opt (\<lambda>v. xor_opt (rd (pl v)) (Some (new v)))
             (filter (\<lambda>v. a \<le> v \<and> v < b) (stripe_row w pl k off)))
      else
        xors_opt (\<lambda>v. if a \<le> v \<and> v < b then Some (new v) else rd (pl v)) (stripe_row w pl k off))"

definition store_all :: "('b \<Rightarrow> int \<times> int) \<Rightarrow> ('b \<Rightarrow> 'w::len word) \<Rightarrow> 'b list \<Rightarrow> 'w store \<Rightarrow> 'w store" where
  "store_all key val_of vs st = foldl (\<lambda>st v. st(key v := val_of v)) st vs"

text \<open>
  The contents after the writes of a partial write: the data, then the parity blocks, computed
  from the values \<open>rd\<close> that were read.
\<close>

definition after_write ::
  "int \<Rightarrow> (int \<Rightarrow> int \<times> int) \<Rightarrow> int \<Rightarrow> int \<Rightarrow> int \<Rightarrow> int \<Rightarrow> (int \<Rightarrow> 'w::len word) \<Rightarrow>
     (int \<times> int \<Rightarrow> 'w word option) \<Rightarrow> 'w store \<Rightarrow> 'w store" where
  "after_write w pl pd k a b new rd st =
     store_all (\<lambda>off. (pd, off)) (\<lambda>off. the (new_parity w pl pd k a b new rd off)) (offsets pl a b)
       (store_all pl new (py_range a b) st)"

text \<open>Every offset's parity is right; and a whole write request, segment by segment.\<close>

definition consistent ::
  "raid_cfg \<Rightarrow> (int \<Rightarrow> int \<times> int) \<Rightarrow> (int \<Rightarrow> int) \<Rightarrow> 'w::len store \<Rightarrow> bool" where
  "consistent c pl par st \<longleftrightarrow>
     (\<forall>off. parity_holds (width c) pl (par (off div chunkSize c)) (off div chunkSize c) st off)"

definition after_segments ::
  "raid_cfg \<Rightarrow> (int \<Rightarrow> int \<times> int) \<Rightarrow> (int \<Rightarrow> int) \<Rightarrow> (int \<Rightarrow> 'w::len word) \<Rightarrow>
     (int \<times> int \<times> int) list \<Rightarrow> 'w store \<Rightarrow> 'w store" where
  "after_segments c pl par new ss st =
     foldl (\<lambda>st (k, a, b). after_write (width c) pl (par k) k a b new
       (values_read st (partial_reads (width c) pl (par k) k a b)) st) st ss"

subsection \<open>Exclusive or\<close>

lemma xors_simps [simp]: "xors f [] = 0" "xors f (v # vs) = f v XOR xors f vs"
  by (simp_all add: xors_def)

lemma xors_cong: "(\<And>v. v \<in> set vs \<Longrightarrow> f v = g v) \<Longrightarrow> xors f vs = xors g vs"
  by (induction vs) auto

lemma xors_opt_Some:
  "(\<And>v. v \<in> set vs \<Longrightarrow> f v = Some (g v)) \<Longrightarrow> xors_opt f vs = Some (xors g vs)"
  by (induction vs) (auto simp: xors_opt_def xor_opt_def)

text \<open>Replacing the selected summands by way of their differences.\<close>

lemma xors_replace:
  "xors f vs XOR xors (\<lambda>v. f v XOR g v) (filter p vs) = xors (\<lambda>v. if p v then g v else f v) vs"
  for f :: "'b \<Rightarrow> 'w::len word"
proof (induction vs)
  case Nil
  then show ?case by simp
next
  case (Cons v vs)
  have swap: "x XOR y XOR (x XOR z XOR t) = z XOR (y XOR t)" for x y z t :: "'w word"
    by (rule bit_eqI) (auto simp: bit_xor_iff)
  show ?case using Cons by (cases "p v") (simp_all add: swap xor.assoc)
qed

lemma store_all_other: "p \<notin> key ` set vs \<Longrightarrow> store_all key f vs st p = st p"
  unfolding store_all_def by (induction vs arbitrary: st) auto

lemma store_all_key:
  "inj_on key (set vs) \<Longrightarrow> v \<in> set vs \<Longrightarrow> store_all key f vs st (key v) = f v"
proof (induction vs rule: rev_induct)
  case (snoc u vs)
  then show ?case by (cases "v = u") (auto simp: store_all_def inj_on_def)
qed simp

subsection \<open>The parity stays right\<close>

context parity_layout
begin

lemma stripe_div: "dom c \<Longrightarrow> k * width c \<le> v \<Longrightarrow> v < k * width c + width c \<Longrightarrow> v div width c = k"
  using row_width_pos [of c] int_div_pos_eq [of v "width c" k "v - k * width c"]
  by (simp add: row_width_eq mult.commute)

lemma stripe_not_parity:
  assumes "dom c" "k * width c \<le> v" "v < k * width c + width c"
  shows "place c v \<noteq> (parity c k, off)"
  using place_not_parity [OF assms(1), of v] stripe_div [OF assms] by auto

lemma set_stripe_row:
  "set (stripe_row (width c) (place c) k off) =
     {v. k * width c \<le> v \<and> v < k * width c + width c \<and> snd (place c v) = off}"
  by (auto simp: stripe_row_def)

text \<open>Everything the new parity is computed from has been read.\<close>

lemma new_parity_defined:
  fixes st :: "'w::len store"
  assumes d: "dom c" and ab: "k * width c \<le> a" "b \<le> k * width c + width c"
    and off: "off \<in> set (offsets (place c) a b)"
    and old: "parity_holds (width c) (place c) (parity c k) k st off"
  shows "new_parity (width c) (place c) (parity c k) k a b new
      (values_read st (partial_reads (width c) (place c) (parity c k) k a b)) off =
    Some (xors (\<lambda>v. if a \<le> v \<and> v < b then new v else st (place c v))
      (stripe_row (width c) (place c) k off))"
proof -
  let ?w = "width c" and ?pl = "place c" and ?pd = "parity c k"
  let ?row = "stripe_row ?w ?pl k off" and ?in = "\<lambda>v. a \<le> v \<and> v < b"
  let ?rd = "values_read st (partial_reads ?w ?pl ?pd k a b)"
  show ?thesis
  proof (cases "subtractive ?w a b")
    case True
    then have rd: "touched False (partial_reads ?w ?pl ?pd k a b) =
        ?pl ` {a..<b} \<union> (\<lambda>off. (?pd, off)) ` set (offsets ?pl a b)"
      by (simp add: partial_reads_def touched_data_ios touched_parity_ios)
    have "xors_opt (\<lambda>v. xor_opt (?rd (?pl v)) (Some (new v))) (filter ?in ?row) =
        Some (xors (\<lambda>v. st (?pl v) XOR new v) (filter ?in ?row))"
      by (rule xors_opt_Some) (auto simp: values_read_def rd xor_opt_def)
    moreover have "?rd (?pd, off) = Some (xors (\<lambda>v. st (?pl v)) ?row)"
      using off old by (simp add: values_read_def rd parity_holds_def)
    ultimately show ?thesis
      using True by (simp add: new_parity_def xors_replace) (simp add: xor_opt_def xors_replace)
  next
    case False
    then have rd: "touched False (partial_reads ?w ?pl ?pd k a b) =
        ?pl ` {k * ?w..<a} \<union> ?pl ` {b..<k * ?w + ?w}"
      by (simp add: partial_reads_def touched_data_ios)
    have "xors_opt (\<lambda>v. if ?in v then Some (new v) else ?rd (?pl v)) ?row =
        Some (xors (\<lambda>v. if ?in v then new v else st (?pl v)) ?row)"
      by (rule xors_opt_Some) (auto simp: values_read_def rd set_stripe_row)
    with False show ?thesis by (simp add: new_parity_def)
  qed
qed

lemma after_write_data:
  fixes st :: "'w::len store"
  assumes d: "dom c" and ab: "k * width c \<le> a" "b \<le> k * width c + width c"
    and v: "k * width c \<le> v" "v < k * width c + width c"
  shows "after_write (width c) (place c) (parity c k) k a b new rd st (place c v) =
    (if a \<le> v \<and> v < b then new v else st (place c v))"
proof -
  have np: "place c v \<notin> (\<lambda>off. (parity c k, off)) ` set (offsets (place c) a b)"
    using stripe_not_parity [OF d v] by auto
  have inj: "inj_on (place c) A" for A using place_inj [OF d] by (auto simp: inj_on_def)
  show ?thesis
  proof (cases "a \<le> v \<and> v < b")
    case True
    then show ?thesis
      by (simp add: after_write_def Let_def store_all_other [OF np] store_all_key [OF inj])
  next
    case False
    then have "place c v \<notin> place c ` set (py_range a b)"
      using inj_image_mem_iff [OF inj, of v "{a..<b}"] by simp
    with False show ?thesis
      by (auto simp: after_write_def Let_def store_all_other [OF np] store_all_other)
  qed
qed

lemma partial_write_parity:
  fixes st :: "'w::len store"
  assumes d: "dom c" and ab: "k * width c \<le> a" "b \<le> k * width c + width c"
    and old: "parity_holds (width c) (place c) (parity c k) k st off"
  shows "parity_holds (width c) (place c) (parity c k) k
    (after_write (width c) (place c) (parity c k) k a b new
      (values_read st (partial_reads (width c) (place c) (parity c k) k a b)) st) off"
proof -
  let ?w = "width c" and ?pl = "place c" and ?pd = "parity c k"
  let ?st' = "after_write ?w ?pl ?pd k a b new
      (values_read st (partial_reads ?w ?pl ?pd k a b)) st" and ?row = "stripe_row ?w ?pl k off"
  let ?mix = "\<lambda>v. if a \<le> v \<and> v < b then new v else st (?pl v)"
  have row: "xors (\<lambda>v. ?st' (?pl v)) ?row = xors ?mix ?row"
    by (rule xors_cong) (simp add: set_stripe_row after_write_data [OF d ab])
  have par: "(?pd, off) \<notin> ?pl ` set (py_range a b)"
  proof
    assume "(?pd, off) \<in> ?pl ` set (py_range a b)"
    then obtain v where "a \<le> v" "v < b" "?pl v = (?pd, off)" by auto
    then show False using stripe_not_parity [OF d, of k v off] ab by simp
  qed
  show ?thesis
  proof (cases "off \<in> set (offsets ?pl a b)")
    case True
    have "inj_on (\<lambda>off. (?pd, off)) (set (offsets ?pl a b))" by (simp add: inj_on_def)
    then have "?st' (?pd, off) = xors ?mix ?row"
      using True new_parity_defined [OF d ab True old]
      by (simp add: after_write_def store_all_key)
    with row show ?thesis by (simp add: parity_holds_def)
  next
    case False
    then have "(?pd, off) \<notin> (\<lambda>off. (?pd, off)) ` set (offsets ?pl a b)" by auto
    then have "?st' (?pd, off) = st (?pd, off)"
      by (simp add: after_write_def Let_def store_all_other [OF par] store_all_other)
    moreover have "xors ?mix ?row = xors (\<lambda>v. st (?pl v)) ?row"
      using False by (intro xors_cong) (auto simp: set_stripe_row set_offsets)
    ultimately show ?thesis using old row by (simp add: parity_holds_def)
  qed
qed

text \<open>A write to stripe \<open>k\<close> stays within the rows of stripe \<open>k\<close>.\<close>

lemma after_write_other:
  fixes st :: "'w::len store"
  assumes d: "dom c" and ab: "k * width c \<le> a" "b \<le> k * width c + width c"
    and p: "snd p div chunkSize c \<noteq> k"
  shows "after_write (width c) (place c) (parity c k) k a b new rd st p = st p"
proof -
  have off: "snd (place c v) div chunkSize c = k" if "v \<in> {a..<b}" for v
    using place_off_div [OF d, of v] stripe_div [OF d, of k v] that ab by (simp add: row_width_eq [OF d])
  have "p \<notin> place c ` set (py_range a b)" using off p by auto
  moreover have "p \<notin> (\<lambda>off. (parity c k, off)) ` set (offsets (place c) a b)"
    using off p by (auto simp: set_offsets)
  ultimately show ?thesis by (simp add: after_write_def Let_def store_all_other)
qed

lemma after_write_consistent:
  fixes st :: "'w::len store"
  assumes d: "dom c" and ab: "k * width c \<le> a" "b \<le> k * width c + width c"
    and old: "consistent c (place c) (parity c) st"
  shows "consistent c (place c) (parity c)
    (after_write (width c) (place c) (parity c k) k a b new
      (values_read st (partial_reads (width c) (place c) (parity c k) k a b)) st)"
  unfolding consistent_def
proof
  fix off
  let ?k = "off div chunkSize c"
  have o: "parity_holds (width c) (place c) (parity c ?k) ?k st off"
    using old by (simp add: consistent_def)
  show "parity_holds (width c) (place c) (parity c ?k) ?k
      (after_write (width c) (place c) (parity c k) k a b new
      (values_read st (partial_reads (width c) (place c) (parity c k) k a b)) st) off"
  proof (cases "?k = k")
    case True
    then show ?thesis using partial_write_parity [OF d ab] o by simp
  next
    case False
    have "xors (\<lambda>v. after_write (width c) (place c) (parity c k) k a b new
      (values_read st (partial_reads (width c) (place c) (parity c k) k a b)) st (place c v))
        (stripe_row (width c) (place c) ?k off) =
      xors (\<lambda>v. st (place c v)) (stripe_row (width c) (place c) ?k off)"
      using False by (intro xors_cong after_write_other [OF d ab]) (auto simp: stripe_row_def)
    with o False show ?thesis by (simp add: parity_holds_def after_write_other [OF d ab])
  qed
qed

lemma after_write_block:
  fixes st :: "'w::len store"
  assumes d: "dom c" and ab: "k * width c \<le> a" "b \<le> k * width c + width c"
  shows "after_write (width c) (place c) (parity c k) k a b new rd st (place c v) =
    (if a \<le> v \<and> v < b then new v else st (place c v))"
proof (cases "v div width c = k")
  case True
  have "0 < width c" using row_width_pos [OF d] by (simp add: row_width_eq [OF d])
  then have "k * width c \<le> v" "v < k * width c + width c"
    unfolding True [symmetric]
    using div_mult_mod_eq [of v "width c"] pos_mod_bound [of "width c" v] pos_mod_sign [of "width c" v]
    by linarith+
  then show ?thesis by (rule after_write_data [OF d ab])
next
  case False
  then have "\<not> (a \<le> v \<and> v < b)" using stripe_div [OF d, of k v] ab by auto
  moreover have "snd (place c v) div chunkSize c \<noteq> k"
    using False place_off_div [OF d, of v] by (simp add: row_width_eq [OF d])
  ultimately show ?thesis by (auto simp: after_write_other [OF d ab])
qed

text \<open>All the segments of a request, one after the other.\<close>

lemma after_segments:
  fixes st :: "'w::len store"
  assumes d: "dom c" and segs: "\<forall>(k, a, b) \<in> set ss. k * width c \<le> a \<and> b \<le> k * width c + width c"
    and old: "consistent c (place c) (parity c) st"
  shows "consistent c (place c) (parity c) (after_segments c (place c) (parity c) new ss st) \<and>
    after_segments c (place c) (parity c) new ss st (place c v) =
      (if \<exists>(k, a, b) \<in> set ss. a \<le> v \<and> v < b then new v else st (place c v))"
  using segs old
proof (induction ss arbitrary: st)
  case Nil
  then show ?case by (simp add: after_segments_def)
next
  case (Cons s ss)
  obtain k a b where s: "s = (k, a, b)" by (cases s)
  have ab: "k * width c \<le> a" "b \<le> k * width c + width c" using Cons.prems(1) s by auto
  let ?st = "after_write (width c) (place c) (parity c k) k a b new
      (values_read st (partial_reads (width c) (place c) (parity c k) k a b)) st"
  have "consistent c (place c) (parity c) ?st"
    by (rule after_write_consistent [OF d ab Cons.prems(2)])
  then show ?case
    using Cons.IH [of ?st] Cons.prems(1) s
    by (auto simp: after_segments_def after_write_block [OF d ab])
qed

text \<open>How many parity blocks a partial write touches.\<close>

lemma offsets_bound:
  assumes d: "dom c" and ab: "k * width c \<le> a" "b \<le> k * width c + width c" "a < b"
  shows "1 \<le> length (offsets (place c) a b)"
    and "int (length (offsets (place c) a b)) \<le> chunkSize c"
    and "int (length (offsets (place c) a b)) \<le> b - a"
proof -
  let ?offs = "offsets (place c) a b"
  have len: "length ?offs = card ((\<lambda>v. snd (place c v)) ` {a..<b})"
    using distinct_card [OF distinct_offsets, of "place c" a b] by (simp add: set_offsets)
  have s: "1 \<le> chunkSize c" by (rule chunk_pos [OF d])
  have "snd (place c v) \<in> {k * chunkSize c..<k * chunkSize c + chunkSize c}" if "v \<in> {a..<b}" for v
    using place_off [OF d, of v] stripe_div [OF d, of k v] that ab s
    by (simp add: row_width_eq [OF d])
  then have "(\<lambda>v. snd (place c v)) ` {a..<b} \<subseteq> {k * chunkSize c..<k * chunkSize c + chunkSize c}"
    by blast
  then have "card ((\<lambda>v. snd (place c v)) ` {a..<b}) \<le> card {k * chunkSize c..<k * chunkSize c + chunkSize c}"
    by (rule card_mono [rotated]) simp
  then show "int (length ?offs) \<le> chunkSize c" using len s by simp
  show "int (length ?offs) \<le> b - a"
    using len card_image_le [of "{a..<b}" "\<lambda>v. snd (place c v)"] ab by simp
  show "1 \<le> length ?offs" using len ab card_gt_0_iff [of "(\<lambda>v. snd (place c v)) ` {a..<b}"] by auto
qed

end

end
