(* ===== verification/Raid_Effect.thy ===== *)
theory Raid_Effect
  imports Raid_Parity
begin

section \<open>The effect of a request on the disks\<close>

text \<open>
  A block operation on an existing disk and block never raises: the disk serves it and, in mapping
  mode, one line is printed. A request within the capacity of the array consists of such
  operations only, so it runs to the end, and each disk has served its own operations in order.
\<close>

subsection \<open>Plans that cannot fail\<close>

definition io_ok :: "int \<Rightarrow> io \<Rightarrow> bool" where
  "io_ok n x \<longleftrightarrow> 0 \<le> io_disk x \<and> io_disk x < n \<and> io_off x < 10000"

definition io_lines :: "io \<Rightarrow> line list" where
  "io_lines x =
     (if is_wr x then PhysWrite (io_disk x) (io_off x) else PhysRead (io_disk x) (io_off x)) #
     (if io_nl x then [EndLine] else [])"

definition apply_io :: "world \<Rightarrow> io \<Rightarrow> world" where
  "apply_io s x =
     (let i = nat (io_disk x)
      in s\<lparr>disks := (disks s)[i := serve (disks s ! i) (io_off x)],
           stdout := stdout s @ (if printPhysical s = Some True then io_lines x else [])\<rparr>)"

definition disk_ops :: "int \<Rightarrow> io list \<Rightarrow> int list" where
  "disk_ops d ios = map io_off (filter (\<lambda>x. io_disk x = d) ios)"

lemma disks_ok_length: "disks_ok s \<Longrightarrow> length (disks s) = nat (numDisks s)"
  unfolding disks_ok_def by (metis nat_int)

lemma disks_ok_nth: "disks_ok s \<Longrightarrow> i < nat (numDisks s) \<Longrightarrow> disk_inv (disks s ! i)"
  by (auto simp: disks_ok_def)

lemma apply_io_ok:
  assumes "disks_ok s" "io_ok (numDisks s) x"
  shows "disks_ok (apply_io s x)"
proof -
  let ?i = "nat (io_disk x)"
  have i: "?i < length (disks s)" using assms by (auto simp: disks_ok_def io_ok_def)
  then have "disk_inv (disks s ! ?i)" using assms by (auto simp: disks_ok_def)
  then show ?thesis
    using assms(1) set_update_subset_insert [of "disks s" ?i] serve_inv
    by (fastforce simp: disks_ok_def apply_io_def Let_def)
qed

lemma apply_io_cfg [simp]: "cfg (apply_io s x) = cfg s"
  by (simp add: apply_io_def Let_def cfg_def)

lemma apply_io_sel [simp]:
  "numDisks (apply_io s x) = numDisks s" "printPhysical (apply_io s x) = printPhysical s"
  by (simp_all add: apply_io_def Let_def)

lemma disk_call_ok:
  assumes "disks_ok s" "0 \<le> d" "d < numDisks s" "off < 10000"
  shows "disk_call d (disk_enqueue off) s =
    Ok () (s\<lparr>disks := (disks s)[nat d := serve (disks s ! nat d) off]\<rparr>)"
proof -
  have d: "nat d < length (disks s)" "d < int (length (disks s))"
    using assms by (auto simp: disks_ok_def)
  then have "disk_inv (disks s ! nat d)" using assms by (auto simp: disks_ok_def)
  then show ?thesis
    using assms d by (simp add: disk_call_def disk_enqueue_eq disk_inv_geometry)
qed

lemma perform_ok:
  assumes "disks_ok s" "io_ok (numDisks s) x" "printPhysical s = Some pp"
  shows "perform x s = Ok () (apply_io s x)"
proof -
  let ?print = "if pp then
        pseq (emit (if is_wr x then PhysWrite (io_disk x) (io_off x) else PhysRead (io_disk x) (io_off x)))
          (if io_nl x then emit EndLine else return ()) else return ()"
  let ?s = "s\<lparr>stdout := stdout s @ (if pp then io_lines x else [])\<rparr>"
  have p: "perform x s = pseq ?print (disk_call (io_disk x) (disk_enqueue (io_off x))) s"
    using assms(3) by (simp add: perform_def doSingleRead_def doSingleWrite_def)
  have e: "?print s = Ok () ?s" by (simp add: emit_def io_lines_def)
  have "disks_ok ?s" using assms(1) by (simp add: disks_ok_def)
  then have "disk_call (io_disk x) (disk_enqueue (io_off x)) ?s =
      Ok () (?s\<lparr>disks := (disks s)[nat (io_disk x) := serve (disks s ! nat (io_disk x)) (io_off x)]\<rparr>)"
    using disk_call_ok [of ?s "io_disk x" "io_off x"] assms(2) by (simp add: io_ok_def)
  then show ?thesis unfolding p using e assms(3) by (simp add: apply_io_def Let_def)
qed

lemma run_plan_ok:
  assumes "disks_ok s" "\<forall>x \<in> set ios. io_ok (numDisks s) x" "printPhysical s = Some pp"
  shows "run_plan ios s = Ok () (foldl apply_io s ios) \<and> disks_ok (foldl apply_io s ios) \<and>
    cfg (foldl apply_io s ios) = cfg s"
  using assms
proof (induction ios arbitrary: s)
  case Nil
  then show ?case by (simp add: run_plan_simps)
next
  case (Cons x ios)
  then show ?case using perform_ok [of s x pp] apply_io_ok [of s x] by (simp add: run_plan_simps)
qed

lemma apply_ios_disk:
  assumes "i < length (disks s)" "\<forall>x \<in> set ios. 0 \<le> io_disk x"
  shows "disks (foldl apply_io s ios) ! i = foldl serve (disks s ! i) (disk_ops (int i) ios)"
  using assms
proof (induction ios arbitrary: s)
  case (Cons x ios)
  have "length (disks (apply_io s x)) = length (disks s)" by (simp add: apply_io_def Let_def)
  then have "disks (foldl apply_io (apply_io s x) ios) ! i =
      foldl serve (disks (apply_io s x) ! i) (disk_ops (int i) ios)" using Cons by simp
  moreover have "disks (apply_io s x) ! i =
      (if io_disk x = int i then serve (disks s ! i) (io_off x) else disks s ! i)"
    using Cons.prems by (auto simp: apply_io_def Let_def nth_list_update)
  ultimately show ?case by (simp add: disk_ops_def)
qed (simp add: disk_ops_def)

lemma apply_ios_stdout:
  "stdout (foldl apply_io s ios) =
     stdout s @ (if printPhysical s = Some True then concat (map io_lines ios) else [])"
  by (induction ios arbitrary: s) (simp_all, simp_all add: apply_io_def Let_def)

subsection \<open>Requests within the capacity\<close>

definition data_columns :: "raid_cfg \<Rightarrow> int" where
  "data_columns c =
     (if raidLevel c = 0 then numDisks c
      else if raidLevel c = 1 then numDisks c div 2
      else numDisks c - 1)"

text \<open>The blocks of the whole chunks that fit on the disks.\<close>

definition capacity :: "raid_cfg \<Rightarrow> int" where
  "capacity c = data_columns c * (10000 div chunkSize c * chunkSize c)"

context layout
begin

lemma data_ios_ok:
  assumes d: "dom c" and R: "R * chunkSize c \<le> 10000" and b: "b \<le> R * row_width c"
  shows "\<forall>x \<in> set (data_ios (place c) w nl a b). io_ok (numDisks c) x"
proof
  fix x assume "x \<in> set (data_ios (place c) w nl a b)"
  then obtain v where v: "v < b" "io_disk x = fst (place c v)" "io_off x = snd (place c v)"
    by (auto simp: set_data_ios)
  then have "io_off x < 10000" using place_off_less [OF d, of v R] b R by simp
  then show "io_ok (numDisks c) x" using place_disk_range [OF d, of v] v by (simp add: io_ok_def)
qed

end

context parity_layout
begin

lemma parity_ios_ok:
  assumes d: "dom c" and R: "R * chunkSize c \<le> 10000" and b: "b \<le> R * row_width c"
  shows "\<forall>x \<in> set (parity_ios w (parity c k) (offsets (place c) a b)). io_ok (numDisks c) x"
proof
  fix x assume "x \<in> set (parity_ios w (parity c k) (offsets (place c) a b))"
  then have "io_disk x = parity c k" "io_off x \<in> set (offsets (place c) a b)"
    by (auto simp: parity_ios_def)
  then obtain v where v: "v < b" "io_disk x = parity c k" "io_off x = snd (place c v)"
    by (auto simp: set_offsets)
  then have "io_off x < 10000" using place_off_less [OF d, of v R] b R by simp
  then show "io_ok (numDisks c) x" using parity_range [OF d, of k] v by (simp add: io_ok_def)
qed

lemma parity_plan_ok:
  assumes d: "dom c" and R: "R * chunkSize c \<le> 10000" and e: "addr + sz \<le> R * row_width c"
    and sz: "0 \<le> sz"
  shows "\<forall>x \<in> set (parity_plan (width c) (place c) (parity c) addr sz w). io_ok (numDisks c) x"
proof (cases w)
  case False
  then show ?thesis using data_ios_ok [OF d R e] by (simp add: parity_plan_def)
next
  case True
  have w: "0 < width c" using row_width_pos [OF d] by (simp add: row_width_eq [OF d])
  have seg: "k * width c + width c \<le> R * row_width c \<and>
      max addr (k * width c) \<le> R * row_width c \<and> min (addr + sz) (k * width c + width c) \<le> R * row_width c"
    if "k < (addr + sz - 1) div width c + 1" for k
  proof -
    have "addr + sz - 1 < R * width c" using e by (simp add: row_width_eq [OF d])
    then have "(addr + sz - 1) div width c < R" by (simp add: int_div_less_iff [OF w])
    then have "(k + 1) * width c \<le> R * width c" using that w by (intro mult_right_mono) auto
    then have "k * width c + width c \<le> R * row_width c"
      by (simp add: distrib_right row_width_eq [OF d])
    then show ?thesis using e sz w by linarith
  qed
  show ?thesis
  proof
    fix x assume "x \<in> set (parity_plan (width c) (place c) (parity c) addr sz w)"
    then obtain k where k: "k < (addr + sz - 1) div width c + 1"
      and "x \<in> set (partial_reads (width c) (place c) (parity c k) k (max addr (k * width c))
            (min (addr + sz) (k * width c + width c)) @
          partial_writes (place c) (parity c k) (max addr (k * width c))
            (min (addr + sz) (k * width c + width c)))"
      using True by (auto simp: parity_plan_def write_plan_def stripe_segments_def)
    moreover have "max addr (k * width c) \<le> R * row_width c"
      and "min (addr + sz) (k * width c + width c) \<le> R * row_width c"
      and "k * width c + width c \<le> R * row_width c" using seg [OF k] by blast+
    note b = this
    ultimately show "io_ok (numDisks c) x"
      using data_ios_ok [OF d R b(1)] data_ios_ok [OF d R b(2)] data_ios_ok [OF d R b(3)]
        parity_ios_ok [OF d R b(2)]
      by (auto simp: partial_reads_def partial_writes_def split: if_splits)
  qed
qed

end

lemma mirror_plan_ok:
  assumes d: "mirrored c" and R: "R * chunkSize c \<le> 10000" and e: "addr + sz \<le> R * l1.row_width c"
  shows "\<forall>x \<in> set (mirroring_plan c addr sz w). io_ok (numDisks c) x"
proof
  fix x assume "x \<in> set (mirroring_plan c addr sz w)"
  then obtain v where v: "v < addr + sz" "x \<in> set (mirror_block c w v)"
    by (auto simp: mirroring_plan_def)
  have off: "snd (place1 c v) < 10000" using l1.place_off_less [OF d, of v R] v e R by simp
  have "even (fst (place1 c v))" by (simp add: place1_def Let_def)
  then have "0 \<le> fst (place1 c v) \<and> fst (place1 c v) + 1 < numDisks c"
    using l1.place_disk_range [OF d, of v] d by (auto simp: mirrored_def elim!: evenE)
  then show "io_ok (numDisks c) x"
    using v(2) off
    by (cases "place1 c v") (auto simp: mirror_block_def io_ok_def split: if_splits)
qed

lemma request_ios_ok:
  assumes c: "valid_cfg c" and sz: "0 \<le> sz" and e: "addr + sz \<le> capacity c"
  shows "\<forall>x \<in> set (request_ios c addr sz w). io_ok (numDisks c) x"
proof -
  let ?r = "10000 div chunkSize c"
  have "0 < chunkSize c" using c l0.chunk_pos l1.chunk_pos l4.chunk_pos l5.chunk_pos by (fastforce simp: valid_cfg_def)
  then have r: "?r * chunkSize c \<le> 10000" using div_mult_mod_eq [of 10000 "chunkSize c"] pos_mod_sign [of "chunkSize c" 10000] by linarith
  have cap: "addr + sz \<le> ?r * (data_columns c * chunkSize c)"
    using e unfolding capacity_def by (simp add: ac_simps)
  from c show ?thesis unfolding valid_cfg_def
  proof (elim disjE conjE)
    assume l: "raidLevel c = 0" "striped c"
    then show ?thesis
      using l0.data_ios_ok [OF l(2) r, of "addr + sz"] cap
      by (simp add: request_ios_def striping_plan_def l0.row_width_def data_columns_def)
  next
    assume l: "raidLevel c = 1" "mirrored c"
    then show ?thesis
      using mirror_plan_ok [OF l(2) r] cap
      by (simp add: request_ios_def l1.row_width_def data_columns_def)
  next
    assume l: "raidLevel c = 4" "parity4 c"
    then show ?thesis
      using l4.parity_plan_ok [OF l(2) r _ sz] cap
      by (simp add: request_ios_def l4.row_width_def data_columns_def)
  next
    assume l: "raidLevel c = 5" "parity5_ok c"
    then show ?thesis
      using l5.parity_plan_ok [OF l(2) r _ sz] cap
      by (simp add: request_ios_def l5.row_width_def data_columns_def)
  qed
qed

subsection \<open>Running a request\<close>

text \<open>What \<open>enqueue\<close> says before the operations.\<close>

definition announced :: "raid_cfg \<Rightarrow> int \<Rightarrow> int \<Rightarrow> bool \<Rightarrow> line list" where
  "announced c addr sz w =
     (if timing c then []
      else if solve c \<or> \<not> reverse c then
        (if w then LogicalWrite addr (sz * 4096) else LogicalRead addr (sz * 4096)) #
        (if solve c then [] else [PhysicalQuestion])
      else [LogicalQuestion])"

definition shows_physical :: "raid_cfg \<Rightarrow> bool" where
  "shows_physical c \<longleftrightarrow> \<not> timing c \<and> (solve c \<or> reverse c)"

lemma announce_apply: "announce addr sz w s = Ok () (s\<lparr>stdout := stdout s @ announced (cfg s) addr sz w\<rparr>)"
  by (simp add: announce_def announced_def emit_def BLOCKSIZE_def)

text \<open>The disks and the output after a list of operations.\<close>

definition after_ios :: "io list \<Rightarrow> world \<Rightarrow> disk list" where
  "after_ios ios s = map (\<lambda>i. foldl serve (disks s ! i) (disk_ops (int i) ios)) [0..<length (disks s)]"

lemma apply_ios_state:
  assumes "\<forall>x \<in> set ios. 0 \<le> io_disk x"
  shows "foldl apply_io s ios = s\<lparr>disks := after_ios ios s,
    stdout := stdout s @ (if printPhysical s = Some True then concat (map io_lines ios) else [])\<rparr>"
proof -
  have "\<exists>D out. foldl apply_io s xs = s\<lparr>disks := D, stdout := out\<rparr> \<and> length D = length (disks s)" for xs
  proof (induction xs rule: rev_induct)
    case Nil
    show ?case by (intro exI [of _ "disks s"] exI [of _ "stdout s"]) simp
  next
    case (snoc x xs)
    then obtain D out where "foldl apply_io s xs = s\<lparr>disks := D, stdout := out\<rparr>" "length D = length (disks s)" by blast
    then show ?case
      by (intro exI [of _ "D[nat (io_disk x) := serve (D ! nat (io_disk x)) (io_off x)]"]
        exI [of _ "out @ (if printPhysical s = Some True then io_lines x else [])"])
        (simp add: apply_io_def [of "s\<lparr>disks := D, stdout := out\<rparr>"] Let_def)
  qed
  then obtain D out where f: "foldl apply_io s ios = s\<lparr>disks := D, stdout := out\<rparr>" "length D = length (disks s)" by blast
  have "D = after_ios ios s"
    using f(2) apply_ios_disk [OF _ assms, of _ s] by (intro nth_equalityI) (auto simp: after_ios_def f(1))
  moreover have "out = stdout s @ (if printPhysical s = Some True then concat (map io_lines ios) else [])"
    using apply_ios_stdout [of s ios] by (simp add: f(1))
  ultimately show ?thesis by (simp add: f(1))
qed

lemma raid_enqueue_effect_at:
  assumes c: "valid_cfg (cfg s)" and ok: "disks_ok s" and sz: "0 \<le> sz" and e: "addr + sz \<le> capacity (cfg s)"
  shows "(\<forall>x \<in> set (request_ios (cfg s) addr sz w). io_ok (numDisks s) x) \<and>
    raid_enqueue addr sz w s = Ok () (s\<lparr>disks := after_ios (request_ios (cfg s) addr sz w) s,
      printPhysical := Some (shows_physical (cfg s)),
      stdout := stdout s @ announced (cfg s) addr sz w @
        (if shows_physical (cfg s) then concat (map io_lines (request_ios (cfg s) addr sz w)) @ [EndLine] else [])\<rparr>) \<and>
    (\<forall>d \<in> set (after_ios (request_ios (cfg s) addr sz w) s). disk_inv d)"
proof -
  let ?ios = "request_ios (cfg s) addr sz w" and ?pp = "shows_physical (cfg s)"
  define t where "t = s\<lparr>stdout := stdout s @ announced (cfg s) addr sz w, printPhysical := Some ?pp\<rparr>"
  have t: "cfg t = cfg s" "disks t = disks s" "printPhysical t = Some ?pp" "disks_ok t"
    "numDisks t = numDisks s" using ok by (simp_all add: t_def disks_ok_def)
  have io: "\<forall>x \<in> set ?ios. io_ok (numDisks s) x" using request_ios_ok [OF c sz e] by simp
  then have nn: "\<forall>x \<in> set ?ios. 0 \<le> io_disk x" by (auto simp: io_ok_def)
  define u where "u = foldl apply_io t ?ios"
  have u: "run_plan ?ios t = Ok () u" "disks_ok u"
    using run_plan_ok [OF t(4) _ t(3)] io t(5) by (simp_all add: u_def)
  have u': "u = t\<lparr>disks := after_ios ?ios s, stdout := stdout t @ (if ?pp then concat (map io_lines ?ios) else [])\<rparr>"
    using apply_ios_state [OF nn, of t] t(2,3) by (simp add: u_def after_ios_def)
  have "raid_enqueue addr sz w s = closing_line u"
    using raid_enqueue_refines_at [OF c sz, of addr w] u(1)
    by (simp add: announce_apply set_printPhysical_def t_def shows_physical_def)
  also have "\<dots> = Ok () (u\<lparr>stdout := stdout u @ (if ?pp then [EndLine] else [])\<rparr>)"
    by (simp add: closing_line_def emit_def u' t_def shows_physical_def)
  finally have r: "raid_enqueue addr sz w s = Ok () (u\<lparr>stdout := stdout u @ (if ?pp then [EndLine] else [])\<rparr>)" .
  have "\<forall>d \<in> set (after_ios ?ios s). disk_inv d" using u(2) u' by (auto simp: disks_ok_def)
  then show ?thesis using io unfolding r by (simp add: u' t_def)
qed

lemma raid_enqueue_runs:
  assumes "valid_cfg (cfg s)" "disks_ok s" "0 \<le> sz" "addr + sz \<le> capacity (cfg s)"
  shows "\<exists>s'. raid_enqueue addr sz w s = Ok () s' \<and> cfg s' = cfg s \<and> disks_ok s'"
  using raid_enqueue_effect_at [OF assms, of w] assms(2) by (simp add: disks_ok_def after_ios_def)

text \<open>
  C3. A request within the capacity of the array never raises at any level, for reads and writes.
  Every block operation of its plan is on an existing disk, below its last block. The state that
  \<open>enqueue\<close> leaves differs in three attributes only: each disk has served the operations
  that the plan addresses to it, in the plan's order; the print flag is set; and, after the
  announcement, one line for each operation with its disk and offset, and the closing line, have
  been printed if the physical operations are shown at all.
\<close>

theorem raid_enqueue_effect:
  assumes "valid_cfg (cfg s)" "disks_ok s" "0 \<le> sz" "addr + sz \<le> capacity (cfg s)"
  shows "let ios = request_ios (cfg s) addr sz w; shown = (\<not> timing s \<and> (solve s \<or> reverse s)) in
    (\<forall>x \<in> set ios. 0 \<le> io_disk x \<and> io_disk x < numDisks s \<and> io_off x < 10000) \<and>
    raid_enqueue addr sz w s = Ok () (s\<lparr>
      disks := map (\<lambda>i. foldl serve (disks s ! i) (disk_ops (int i) ios)) [0..<length (disks s)],
      printPhysical := Some shown,
      stdout := stdout s @ announced (cfg s) addr sz w @
        (if shown then concat (map io_lines ios) @ [EndLine] else [])\<rparr>) \<and>
    (\<forall>i < length (disks s). disk_inv (foldl serve (disks s ! i) (disk_ops (int i) ios)))"
proof -
  have "shows_physical (cfg s) = (\<not> timing s \<and> (solve s \<or> reverse s))" by (simp add: shows_physical_def)
  then show ?thesis using raid_enqueue_effect_at [OF assms, of w] by (auto simp: Let_def after_ios_def io_ok_def)
qed

theorem raid_enqueue_effect_witness:
  "\<exists>s'. raid_enqueue 4 2 True (sample_world 5 ''LS'') = Ok () s' \<and> currAddr (disks s' ! 3) = 1 \<and>
    stdout s' = [LogicalWrite 4 8192, PhysRead 3 1, EndLine, PhysWrite 0 1, PhysWrite 1 1, PhysWrite 2 1, EndLine, EndLine]"
proof -
  let ?s = "sample_world 5 ''LS''"
  have v: "valid_cfg (cfg ?s)" by (simp add: valid_cfg_def parity5_ok_def)
  have e: "4 + 2 \<le> capacity (cfg ?s)" by (simp add: capacity_def data_columns_def)
  have x: "stdout ?s @ announced (cfg ?s) 4 2 True @ concat (map io_lines (request_ios (cfg ?s) 4 2 True)) @ [EndLine] =
      [LogicalWrite 4 8192, PhysRead 3 1, EndLine, PhysWrite 0 1, PhysWrite 1 1, PhysWrite 2 1, EndLine, EndLine]"
    by code_simp
  have d: "currAddr (foldl serve (disks ?s ! 3) (disk_ops 3 (request_ios (cfg ?s) 4 2 True))) = 1" by code_simp
  have "\<not> timing ?s \<and> (solve ?s \<or> reverse ?s)" by (simp add: sample_world_def)
  then show ?thesis using raid_enqueue_effect [OF v _ _ e, of True] x d by (auto simp: Let_def)
qed

end
