(* ===== verification/Raid_Results.thy ===== *)
theory Raid_Results
  imports Raid_Effect
begin

section \<open>Partial writes, completion time and statistics\<close>

text \<open>
  The theorems about \<open>doPartialWrite\<close> at both parity levels, and about the two methods that read
  the disks after the requests: \<open>go\<close> and \<open>stats\<close>.
\<close>

definition parity_level :: "raid_cfg \<Rightarrow> bool" where
  "parity_level c \<longleftrightarrow> raidLevel c = 4 \<and> parity4 c \<or> raidLevel c = 5 \<and> parity5_ok c"

definition level_place :: "raid_cfg \<Rightarrow> int \<Rightarrow> int \<times> int" where
  "level_place c = (if raidLevel c = 4 then place4 c else place5 c)"

definition level_parity :: "raid_cfg \<Rightarrow> int \<Rightarrow> int" where
  "level_parity c = (if raidLevel c = 4 then parity_disk4 c else parity_disk5 c)"

definition partial_write :: "int \<Rightarrow> int \<Rightarrow> int \<Rightarrow> (world, unit) py" where
  "partial_write k a b =
     pbind (gets raidLevel) (\<lambda>level.
       doPartialWrite k a b (fst (pick_maps level)) (snd (pick_maps level)))"

subsection \<open>Partial writes\<close>

lemma level_cases:
  assumes "parity_level c"
  obtains "raidLevel c = 4" "parity4 c" "level_place c = place4 c" "level_parity c = parity_disk4 c"
  | "raidLevel c = 5" "parity5_ok c" "level_place c = place5 c" "level_parity c = parity_disk5 c"
  using assms by (auto simp: parity_level_def level_place_def level_parity_def)

lemma partial_write_plan:
  assumes "parity_level (cfg s)"
  shows "partial_write k a b s =
    run_plan (partial_reads (width (cfg s)) (level_place (cfg s)) (level_parity (cfg s) k) k a b @
      partial_writes (level_place (cfg s)) (level_parity (cfg s) k) a b) s"
  using assms
proof (rule level_cases)
  assume l: "raidLevel (cfg s) = 4" "parity4 (cfg s)"
    "level_place (cfg s) = place4 (cfg s)" "level_parity (cfg s) = parity_disk4 (cfg s)"
  then show ?thesis
    using m4.doPartialWrite_plan [OF l(2), of k a b] by (simp add: partial_write_def pick_maps_def)
next
  assume l: "raidLevel (cfg s) = 5" "parity5_ok (cfg s)"
    "level_place (cfg s) = place5 (cfg s)" "level_parity (cfg s) = parity_disk5 (cfg s)"
  then show ?thesis
    using m5.doPartialWrite_plan [OF l(2), of k a b] by (simp add: partial_write_def pick_maps_def)
qed

lemma level_after_write:
  fixes st :: "'w::len store"
  assumes "parity_level c" "k * width c \<le> a" "b \<le> k * width c + width c"
  defines "rd \<equiv> values_read st (partial_reads (width c) (level_place c) (level_parity c k) k a b)"
  shows "consistent c (level_place c) (level_parity c) st \<Longrightarrow>
      consistent c (level_place c) (level_parity c)
        (after_write (width c) (level_place c) (level_parity c k) k a b new rd st)"
    and "after_write (width c) (level_place c) (level_parity c k) k a b new rd st (level_place c v) =
      (if a \<le> v \<and> v < b then new v else st (level_place c v))"
  using assms(1) unfolding rd_def
  by (rule level_cases;
      simp add: l4.after_write_consistent l5.after_write_consistent l4.after_write_block
        l5.after_write_block assms(2,3))+

lemma level_offsets_bound:
  assumes "parity_level c" "k * width c \<le> a" "b \<le> k * width c + width c" "a < b"
  shows "1 \<le> length (offsets (level_place c) a b)"
    and "int (length (offsets (level_place c) a b)) \<le> chunkSize c"
    and "int (length (offsets (level_place c) a b)) \<le> b - a"
  using assms(1)
  by (rule level_cases; use l4.offsets_bound [OF _ assms(2-4)] l5.offsets_bound [OF _ assms(2-4)] in simp)+

lemma reads_are_reads: "x \<in> set (partial_reads w pl pd k a b) \<Longrightarrow> \<not> is_wr x"
  by (auto simp: partial_reads_def data_ios_def parity_ios_def split: if_splits)

lemma writes_are_writes: "x \<in> set (partial_writes pl pd a b) \<Longrightarrow> is_wr x"
  by (auto simp: partial_writes_def data_ios_def parity_ios_def)

lemma touched_partial_writes:
  "touched True (partial_writes pl pd a b) = pl ` {a..<b} \<union> (\<lambda>v. (pd, snd (pl v))) ` {a..<b}"
  by (auto simp: partial_writes_def touched_data_ios touched_parity_ios set_offsets)

text \<open>
  C2. \<open>doPartialWrite\<close> on a segment of one stripe, at levels 4 and 5: it first only reads and then
  only writes. It writes exactly the places of the segment's blocks and, for each of their offsets,
  the stripe's parity block. And it has read enough: for any contents whose parity is right and any
  new data, writing the data together with the parity computed from the values read leaves the
  parity of every row of the array right, the segment's blocks new and all other blocks unchanged.
\<close>

theorem doPartialWrite_keeps_parity:
  fixes st :: "'w::len store"
  assumes "parity_level (cfg s)"
    and "k * width (cfg s) \<le> a" "b \<le> k * width (cfg s) + width (cfg s)"
    and "consistent (cfg s) (level_place (cfg s)) (level_parity (cfg s)) st"
  shows "\<exists>reads writes. partial_write k a b s = run_plan (reads @ writes) s \<and>
    (\<forall>x \<in> set reads. \<not> is_wr x) \<and> (\<forall>x \<in> set writes. is_wr x) \<and>
    touched True writes = level_place (cfg s) ` {a..<b} \<union>
      (\<lambda>v. (level_parity (cfg s) k, snd (level_place (cfg s) v))) ` {a..<b} \<and>
    (let st' = after_write (width (cfg s)) (level_place (cfg s)) (level_parity (cfg s) k) k a b new
           (values_read st reads) st
     in consistent (cfg s) (level_place (cfg s)) (level_parity (cfg s)) st' \<and>
        (\<forall>v. st' (level_place (cfg s) v) =
           (if a \<le> v \<and> v < b then new v else st (level_place (cfg s) v))))"
  by (rule exI [of _ "partial_reads (width (cfg s)) (level_place (cfg s)) (level_parity (cfg s) k) k a b"],
      rule exI [of _ "partial_writes (level_place (cfg s)) (level_parity (cfg s) k) a b"])
    (simp add: partial_write_plan assms(1) reads_are_reads writes_are_writes touched_partial_writes
      level_after_write [OF assms(1-3)] assms(4) Let_def)

theorem doPartialWrite_keeps_parity_witness:
  "\<exists>reads writes. partial_write 1 3 5 (sample_world 5 ''LS'') =
     run_plan (reads @ writes) (sample_world 5 ''LS'') \<and> (\<forall>x \<in> set reads. \<not> is_wr x)"
proof -
  let ?s = "sample_world 5 ''LS''"
  have p: "parity_level (cfg ?s)" by (simp add: parity_level_def parity5_ok_def)
  have "xors (\<lambda>v. 0) vs = (0 :: 8 word)" for vs :: "int list" by (induction vs) simp_all
  then have c: "consistent (cfg ?s) (level_place (cfg ?s)) (level_parity (cfg ?s)) (\<lambda>p. 0 :: 8 word)"
    by (simp add: consistent_def parity_holds_def)
  show ?thesis using doPartialWrite_keeps_parity [OF p _ _ c, of 1 3 5 "\<lambda>v. 255"] by auto
qed

text \<open>
  C21. The price of a partial write of \<open>n\<close> blocks in a stripe of width \<open>w\<close> that touches \<open>p\<close> parity
  blocks (between 1 and the smaller of \<open>n\<close> and the chunk size): \<open>n + p\<close> writes, and either \<open>n + p\<close>
  reads (subtractive) or \<open>w - n\<close> reads (additive). With one-block chunks \<open>p\<close> is 1 and the method
  chosen is the cheaper; a full stripe is written without any read.
\<close>

theorem doPartialWrite_cost:
  assumes "parity_level (cfg s)"
    and "k * width (cfg s) \<le> a" "b \<le> k * width (cfg s) + width (cfg s)" "a < b"
  shows "\<exists>reads writes p. partial_write k a b s = run_plan (reads @ writes) s \<and>
    1 \<le> p \<and> p \<le> b - a \<and> p \<le> chunkSize s \<and>
    int (length writes) = (b - a) + p \<and>
    int (length reads) = (if subtractive (width (cfg s)) a b then (b - a) + p
      else width (cfg s) - (b - a)) \<and>
    (chunkSize s = 1 \<longrightarrow> int (length reads) = min ((b - a) + 1) (width (cfg s) - (b - a))) \<and>
    (b - a = width (cfg s) \<longrightarrow> reads = [])"
proof -
  let ?w = "width (cfg s)" and ?pl = "level_place (cfg s)" and ?pd = "level_parity (cfg s) k"
  let ?p = "int (length (offsets ?pl a b))"
  let ?R = "partial_reads ?w ?pl ?pd k a b" and ?W = "partial_writes ?pl ?pd a b"
  have p: "1 \<le> ?p" "?p \<le> chunkSize s" "?p \<le> b - a"
    using level_offsets_bound [OF assms] by simp_all
  have R: "int (length ?R) = (if subtractive ?w a b then (b - a) + ?p else ?w - (b - a))"
    using assms by (simp add: partial_reads_def)
  have W: "int (length ?W) = (b - a) + ?p" using assms by (simp add: partial_writes_def)
  have one: "int (length ?R) = min ((b - a) + 1) (?w - (b - a))" if "chunkSize s = 1"
    using R p that by (auto simp: subtractive_def)
  have full: "?R = []" if "b - a = ?w"
    using R p assms(4) that by (simp add: subtractive_def)
  show ?thesis
    using partial_write_plan [OF assms(1), of k a b] p R W one full
    by (intro exI [of _ ?R] exI [of _ ?W] exI [of _ ?p]) auto
qed

theorem doPartialWrite_cost_witness:
  "\<exists>reads writes. partial_write 1 3 6 (sample_world 4 ''LS'') =
     run_plan (reads @ writes) (sample_world 4 ''LS'') \<and> reads = []"
proof -
  let ?s = "sample_world 4 ''LS''"
  have p: "parity_level (cfg ?s)" by (simp add: parity_level_def)
  show ?thesis using doPartialWrite_cost [OF p, of 1 3 6] by auto
qed

subsection \<open>Completion time\<close>

lemma py_getitem_disk:
  assumes "disks_ok s" "0 \<le> i" "i < numDisks s"
  shows "py_getitem (disks s) i t = Ok (disks s ! nat i) t"
  using assms by (simp add: py_getitem_def disks_ok_def)

definition later :: "pyfloat \<Rightarrow> pyfloat \<Rightarrow> pyfloat" where
  "later tmax t = (if t > tmax then t else tmax)"

lemma go_loop:
  assumes "disks_ok s" "\<forall>i \<in> set is. 0 \<le> i \<and> i < numDisks s"
  shows "for_acc is tmax (\<lambda>i tmax. pbind (\<lambda>s. py_getitem (disks s) i s) (\<lambda>d.
      let t = disk_go d in return (if t > tmax then t else tmax))) s =
    Ok (foldl later tmax (map (\<lambda>i. utilTime (disks s ! nat i)) is)) s"
  using assms(2)
proof (induction "is" arbitrary: tmax)
  case (Cons i "is")
  then show ?case
    by (simp add: py_getitem_disk [OF assms(1)] Let_def disk_go_def later_def)
qed simp

lemma foldl_later: "foldl later tmax ts = foldl max tmax ts"
  by (induction ts arbitrary: tmax) (simp_all add: later_def max_def)

lemma foldl_max_eq: "foldl max t ts = Max (set (t # ts))" for t :: "'a::linorder"
proof -
  have "(\<lambda>x s. max s x) = (max :: 'a \<Rightarrow> 'a \<Rightarrow> 'a)" by (simp add: fun_eq_iff max.commute)
  then show ?thesis by (simp only: foldl_conv_fold Max.set_eq_fold)
qed

lemma raid_go_result:
  assumes "disks_ok s"
  shows "\<exists>t. raid_go s = Ok t s \<and> (\<forall>d \<in> set (disks s). utilTime d \<le> t) \<and>
    (t = 0 \<or> (\<exists>d \<in> set (disks s). t = utilTime d)) \<and> 0 \<le> t"
proof -
  let ?ts = "map (\<lambda>i. utilTime (disks s ! nat i)) (py_range 0 (numDisks s))"
  define t where "t = Max (set (0 # ?ts))"
  have len: "int (length (disks s)) = numDisks s" using assms by (simp add: disks_ok_def)
  have go: "raid_go s = Ok t s"
    using go_loop [OF assms, of "py_range 0 (numDisks s)" 0]
    by (simp add: raid_go_def foldl_later foldl_max_eq t_def)
  have ge: "x \<le> t" if "x \<in> set (0 # ?ts)" for x
    unfolding t_def using that by (rule Max_ge [rotated]) simp
  have mem: "\<exists>i \<in> {0..<numDisks s}. d = disks s ! nat i" if "d \<in> set (disks s)" for d
    using that len by (auto simp: in_set_conv_nth intro!: bexI [of _ "int j" for j])
  have "t \<in> set (0 # ?ts)" unfolding t_def by (rule Max_in) simp_all
  moreover have "disks s ! nat i \<in> set (disks s)" if "0 \<le> i" "i < numDisks s" for i
    using that len by (intro nth_mem) linarith
  ultimately have "t = 0 \<or> (\<exists>d \<in> set (disks s). t = utilTime d)" by auto
  moreover have "\<forall>d \<in> set (disks s). utilTime d \<le> t" using mem ge by fastforce
  ultimately show ?thesis using go ge [of 0] by auto
qed

text \<open>
  C31. \<open>go\<close> changes nothing and returns the completion time of the slowest disk: no disk is busy
  longer, and it is the busy time of one of them, or 0 if there is no disk.
\<close>

theorem raid_go_max:
  assumes "disks_ok s"
  shows "\<exists>t. raid_go s = Ok t s \<and> (\<forall>d \<in> set (disks s). utilTime d \<le> t) \<and>
    (t = 0 \<or> (\<exists>d \<in> set (disks s). t = utilTime d)) \<and> 0 \<le> t"
  by (rule raid_go_result [OF assms])

theorem raid_go_max_witness:
  "\<exists>t. raid_go (sample_world 0 ''LS'') = Ok t (sample_world 0 ''LS'') \<and> 0 \<le> t"
  using raid_go_max [of "sample_world 0 ''LS''"] by auto

definition stats_line :: "pyfloat \<Rightarrow> int \<Rightarrow> disk \<Rightarrow> line" where
  "stats_line totalT i d =
     DiskStats i (if utilTime d = totalT then 1 else if utilTime d = 0 then 3 else 2)
       (if totalT > 0 then fl_div (fl_mul 100 (utilTime d)) totalT else 0)
       (countIO d) (countSeq d) (countNseq d) (countRand d)"

definition stats_step :: "pyfloat \<Rightarrow> int \<Rightarrow> (world, unit) py" where
  "stats_step totalT i =
     pbind (\<lambda>s. py_getitem (disks s) i s) (\<lambda>d.
         case disk_stats d of (io, sq, nsq, rd, ut) \<Rightarrow>
           let util = (if totalT > 0 then fl_div (fl_mul 100 ut) totalT else 0) in
           if ut = totalT then emit (DiskStats i 1 util io sq nsq rd)
           else if ut = 0 then emit (DiskStats i 3 util io sq nsq rd)
           else emit (DiskStats i 2 util io sq nsq rd))"

lemma stats_step_emit:
  assumes "disks_ok s" "0 \<le> i" "i < numDisks s"
  shows "stats_step totalT i s =
    Ok () (s\<lparr>stdout := stdout s @ [stats_line totalT i (disks s ! nat i)]\<rparr>)"
proof -
  have "stats_step totalT i s = emit (stats_line totalT i (disks s ! nat i)) s"
    using py_getitem_disk [OF assms, of s]
    by (cases "utilTime (disks s ! nat i) = totalT"; cases "utilTime (disks s ! nat i) = 0")
      (simp_all add: stats_step_def disk_stats_def Let_def stats_line_def)
  then show ?thesis by (simp add: emit_def)
qed

lemma stats_loop:
  assumes "disks_ok s" "\<forall>i \<in> set is. 0 \<le> i \<and> i < numDisks s"
  shows "for_each is (stats_step totalT) s =
    Ok () (s\<lparr>stdout := stdout s @ map (\<lambda>i. stats_line totalT i (disks s ! nat i)) is\<rparr>)"
  using assms
proof (induction "is" arbitrary: s)
  case (Cons i "is")
  let ?s = "s\<lparr>stdout := stdout s @ [stats_line totalT i (disks s ! nat i)]\<rparr>"
  have "disks_ok ?s" using Cons.prems(1) by (simp add: disks_ok_def)
  then show ?case using Cons.IH [of ?s] Cons.prems stats_step_emit [of s i totalT] by simp
qed simp

lemma raid_stats_lines:
  assumes "disks_ok s"
  shows "raid_stats totalT s = Ok () (s\<lparr>stdout := stdout s @
    map (\<lambda>i. stats_line totalT i (disks s ! nat i)) (py_range 0 (numDisks s))\<rparr>)"
  using stats_loop [OF assms, of "py_range 0 (numDisks s)" totalT] by (simp add: raid_stats_def stats_step_def [abs_def])

text \<open>
  C32. \<open>stats\<close> prints one line per disk, in order, with the disk's counters, changes nothing else,
  and raises nothing; the utilisation is the rounded percentage of the total time, and an idle
  total yields 0 instead of a division by zero.
\<close>

theorem raid_stats_prints:
  assumes "disks_ok s"
  shows "raid_stats totalT s = Ok () (s\<lparr>stdout := stdout s @
    map (\<lambda>i. stats_line totalT i (disks s ! nat i)) (py_range 0 (numDisks s))\<rparr>)"
  by (rule raid_stats_lines [OF assms])

theorem raid_stats_prints_witness:
  "\<exists>s'. raid_stats 0 (sample_world 0 ''LS'') = Ok () s' \<and> length (stdout s') = 4"
  using raid_stats_prints [of "sample_world 0 ''LS''" 0] by simp

end
