(* ===== verification/Raid_Main.thy ===== *)
theory Raid_Main
  imports Raid_Results
begin

section \<open>The main program of the simulator\<close>

text \<open>
  The script part of \<open>lecture-15/raid.py\<close>, from the parsed options to the last line printed.
  \<open>optparse\<close> is the standard library's: the options arrive as a record of what it stores.
  \<open>random.random()\<close> is a parameter, the sequence of values the seeded generator returns; what the
  theorems need of it is what its documentation promises, a 53 bit fraction in \<open>[0, 1)\<close>.
\<close>

record options =
  o_seed :: int
  o_numDisks :: int
  o_chunkSize :: string
  o_numRequests :: int
  o_size :: string
  o_workload :: string
  o_writeFrac :: int
  o_range :: int
  o_level :: int
  o_raid5type :: string
  o_reverse :: bool
  o_timing :: bool
  o_solve :: bool

text \<open>The defaults of the option declarations.\<close>

definition default_options :: options where
  "default_options =
     \<lparr> o_seed = 0, o_numDisks = 4, o_chunkSize = ''4k'', o_numRequests = 10, o_size = ''4k'',
       o_workload = ''rand'', o_writeFrac = 0, o_range = 10000, o_level = 0, o_raid5type = ''LS'',
       o_reverse = False, o_timing = False, o_solve = False \<rparr>"

definition show_bool :: "bool \<Rightarrow> string" where
  "show_bool b = (if b then ''True'' else ''False'')"

definition arg_lines :: "options \<Rightarrow> line list" where
  "arg_lines opt =
     [ArgLine ''blockSize'' (show_int BLOCKSIZE),
      ArgLine ''seed'' (show_int (o_seed opt)),
      ArgLine ''numDisks'' (show_int (o_numDisks opt)),
      ArgLine ''chunkSize'' (o_chunkSize opt),
      ArgLine ''numRequests'' (show_int (o_numRequests opt)),
      ArgLine ''reqSize'' (o_size opt),
      ArgLine ''workload'' (o_workload opt),
      ArgLine ''writeFrac'' (show_int (o_writeFrac opt)),
      ArgLine ''randRange'' (show_int (o_range opt)),
      ArgLine ''level'' (show_int (o_level opt)),
      ArgLine ''raid5'' (o_raid5type opt),
      ArgLine ''reverse'' (show_bool (o_reverse opt)),
      ArgLine ''timing'' (show_bool (o_timing opt)),
      EndLine]"

definition die :: "line \<Rightarrow> (line list, 'a) py" where
  "die l = pseq (modify (\<lambda>out. out @ [l])) (raise (SystemExit 1))"

text \<open>
  Everything up to and including \<open>r = raid(...)\<close>: the write fraction, the request size in blocks,
  whether the workload is sequential, and the array.
\<close>

definition parse_setup :: "options \<Rightarrow> (line list, pyfloat \<times> int \<times> bool \<times> raid) py" where
  "parse_setup opt =
     pseq (modify (\<lambda>out. out @ arg_lines opt)) (
     let writeFrac = fl_div (fl_of_int (o_writeFrac opt)) 100 in
     pseq (py_assert (writeFrac \<ge> 0 \<and> writeFrac \<le> 1)) (
     pbind (convert (o_size opt)) (\<lambda>bytes.
     pseq (if bytes mod BLOCKSIZE \<noteq> 0 then die (BadReqSize bytes BLOCKSIZE) else return ()) (
     let sz = bytes div BLOCKSIZE in
     pbind (if o_workload opt \<in> {''seq'', ''s'', ''sequential''} then return True
            else if o_workload opt \<in> {''rand'', ''r'', ''random''} then return False
            else die BadWorkload) (\<lambda>workloadIsSequential.
     pseq (py_assert (o_level opt = 0 \<or> o_level opt = 1 \<or> o_level opt = 4 \<or> o_level opt = 5)) (
     pseq (if o_level opt \<noteq> 0 \<and> o_numDisks opt < 2 then die TooFewDisks else return ()) (
     pseq (if o_level opt = 5 \<and> o_raid5type opt \<noteq> ''LA'' \<and> o_raid5type opt \<noteq> ''LS''
           then die (BadRaid5 (o_raid5type opt)) else return ()) (
     pbind (raid_init (o_chunkSize opt) (o_numDisks opt) (o_level opt) (o_timing opt)
              (o_reverse opt) (o_solve opt) (o_raid5type opt)) (\<lambda>r.
     return (writeFrac, sz, workloadIsSequential, r))))))))))"

definition make_world :: "raid \<Rightarrow> line list \<Rightarrow> world" where
  "make_world r out =
     \<lparr> chunkSize = chunkSize r, numDisks = numDisks r, raidLevel = raidLevel r, timing = timing r,
       reverse = reverse r, solve = solve r, raid5type = raid5type r,
       blocksInStripe = blocksInStripe r, pdisk = pdisk r, disks = disks r,
       printPhysical = printPhysical r, stdout = out \<rparr>"

text \<open>
  The request loop. Its variables are \<open>off\<close> and the number of values drawn so far; a random
  workload draws the block first, then, like a sequential one, the direction.
\<close>

definition random_block :: "pyfloat \<Rightarrow> int \<Rightarrow> int" where
  "random_block r rng = fl_trunc (fl_mul r (fl_of_int rng))"

definition request_step ::
  "options \<Rightarrow> (nat \<Rightarrow> pyfloat) \<Rightarrow> pyfloat \<Rightarrow> int \<Rightarrow> bool \<Rightarrow> int \<Rightarrow> int \<times> nat \<Rightarrow> (world, int \<times> nat) py" where
  "request_step opt rand writeFrac sz sequential i = (\<lambda>(off, k).
     let (blk, off', k') =
           (if sequential then (off, off + sz, k)
            else (random_block (rand k) (o_range opt), off, k + 1));
         isWrite = (rand k' < writeFrac)
     in pseq (emit (RequestLine blk sz))
          (pseq (raid_enqueue blk sz isWrite) (return (off', k' + 1))))"

definition generate_requests ::
  "options \<Rightarrow> (nat \<Rightarrow> pyfloat) \<Rightarrow> pyfloat \<Rightarrow> int \<Rightarrow> bool \<Rightarrow> (world, int \<times> nat) py" where
  "generate_requests opt rand writeFrac sz sequential =
     for_acc (py_range 0 (o_numRequests opt)) (0, 0)
       (request_step opt rand writeFrac sz sequential)"

definition report :: "options \<Rightarrow> (world, unit) py" where
  "report opt =
     pbind raid_go (\<lambda>t.
     pseq (if o_timing opt = False then pseq (emit EndLine) (raise (SystemExit 0)) else return ())
       (if o_solve opt then
          pseq (emit EndLine) (pseq (raid_stats t)
            (pseq (emit EndLine) (pseq (emit (TotalTime t)) (emit EndLine))))
        else pseq (emit EndLine) (pseq (emit EstimateQuestions) (emit EndLine))))"

definition main :: "options \<Rightarrow> (nat \<Rightarrow> pyfloat) \<Rightarrow> exn option \<times> line list" where
  "main opt rand =
     (case parse_setup opt [] of
        Raise e out \<Rightarrow> (Some e, out)
      | Ok (writeFrac, sz, sequential, r) out \<Rightarrow>
          (case pseq (generate_requests opt rand writeFrac sz sequential) (report opt)
                  (make_world r out) of
             Raise e w \<Rightarrow> (Some e, stdout w)
           | Ok _ w \<Rightarrow> (None, stdout w)))"

subsection \<open>Drawing a block\<close>

lemma random_block_bounds:
  assumes "is_draw r" "0 < n" "n \<le> 2 ^ 53"
  shows "0 \<le> random_block r n" "random_block r n < n"
  unfolding random_block_def by (fact draw_below [OF assms])+

text \<open>
  C33. The block of a random request is a block of the requested range: although the product of
  the draw and the range is rounded to a double, truncating it never reaches the range itself.
\<close>

theorem random_block_in_range:
  assumes "is_draw r" "0 < n" "n \<le> 2 ^ 53"
  shows "0 \<le> random_block r n \<and> random_block r n < n"
  using random_block_bounds [OF assms] by simp

theorem random_block_in_range_witness:
  "is_draw (1 / 2) \<and> 0 \<le> random_block (1 / 2) 10000 \<and> random_block (1 / 2) 10000 < 10000"
proof -
  have d: "is_draw (1 / 2)" by (simp add: is_draw_def)
  show ?thesis using random_block_in_range [OF d, of 10000] d by simp
qed

subsection \<open>Runs that complete\<close>

lemma cfg_make_world [simp]: "cfg (make_world r out) = cfg r"
  by (simp add: cfg_def make_world_def)

lemma make_world_sel [simp]:
  "numDisks (make_world r out) = numDisks r" "disks (make_world r out) = disks r"
  "chunkSize (make_world r out) = chunkSize r"
  by (simp_all add: make_world_def)

text \<open>What a successful argument check leaves: a sound array of fresh disks.\<close>

lemma guard_Ok: "(if b then die l else return ()) s = Ok a t \<longleftrightarrow> \<not> b \<and> t = s"
  by (auto simp: die_def)

lemma py_assert_Ok: "py_assert b s = Ok a t \<longleftrightarrow> b \<and> t = s"
  by auto

lemma return_Ok: "return x s = Ok a t \<longleftrightarrow> a = x \<and> t = s"
  by auto

lemma parse_setup_raid:
  assumes "parse_setup opt out0 = Ok (wfrac, sz, sequential, r) out"
  shows "\<exists>out1. raid_init (o_chunkSize opt) (o_numDisks opt) (o_level opt) (o_timing opt)
      (o_reverse opt) (o_solve opt) (o_raid5type opt) out1 = Ok r out \<and>
    (o_level opt = 0 \<or> o_level opt = 1 \<or> o_level opt = 4 \<or> o_level opt = 5) \<and>
    \<not> (o_level opt \<noteq> 0 \<and> o_numDisks opt < 2) \<and>
    \<not> (o_level opt = 5 \<and> o_raid5type opt \<noteq> ''LA'' \<and> o_raid5type opt \<noteq> ''LS'')"
  using assms
  unfolding parse_setup_def Let_def pbind_Ok_iff pseq_Ok_iff guard_Ok py_assert_Ok return_Ok prod.inject
  apply (elim exE conjE)
  apply hypsubst
  apply (intro exI conjI; assumption)
  done

lemma raid_init_array:
  assumes "raid_init ch n level tim rv slv typ out1 = Ok r out"
  shows "numDisks r = n" "raidLevel r = level" "timing r = tim" "raid5type r = typ"
    "level = 1 \<longrightarrow> even n"
    "level = 4 \<or> level = 5 \<longrightarrow> blocksInStripe r = Some ((n - 1) * chunkSize r)"
    "level = 4 \<longrightarrow> pdisk r = Some (n - 1)"
    "disks r = map (\<lambda>i. new_disk) (py_range 0 n)"
  using assms
  by (auto simp: raid_init_def pbind_Ok_iff pseq_Ok_iff Let_def odd_iff_mod_2_eq_one
      split: if_splits)

lemma parse_setup_array:
  assumes "parse_setup opt out0 = Ok (wfrac, sz, sequential, r) out"
    and "1 \<le> chunkSize r" "1 \<le> numDisks r"
  shows "valid_cfg (cfg r)" "length (disks r) = nat (numDisks r)" "set (disks r) \<subseteq> {new_disk}"
    "timing r = o_timing opt"
proof -
  obtain out1 where i: "raid_init (o_chunkSize opt) (o_numDisks opt) (o_level opt) (o_timing opt)
      (o_reverse opt) (o_solve opt) (o_raid5type opt) out1 = Ok r out"
    and p: "o_level opt = 0 \<or> o_level opt = 1 \<or> o_level opt = 4 \<or> o_level opt = 5"
      "\<not> (o_level opt \<noteq> 0 \<and> o_numDisks opt < 2)"
      "\<not> (o_level opt = 5 \<and> o_raid5type opt \<noteq> ''LA'' \<and> o_raid5type opt \<noteq> ''LS'')"
    using parse_setup_raid [OF assms(1)] by blast
  note r = raid_init_array [OF i]
  show "length (disks r) = nat (numDisks r)" "set (disks r) \<subseteq> {new_disk}"
    "timing r = o_timing opt" using r by auto
  have n: "o_level opt \<noteq> 0 \<Longrightarrow> 2 \<le> numDisks r" using p(2) r(1) by linarith
  show "valid_cfg (cfg r)" using p(1)
  proof (elim disjE)
    assume l: "o_level opt = 0"
    then show ?thesis using r(2) assms(2,3) by (simp add: valid_cfg_def striped_def)
  next
    assume l: "o_level opt = 1"
    then show ?thesis using r(1,2,5) n assms(2) by (simp add: valid_cfg_def mirrored_def)
  next
    assume l: "o_level opt = 4"
    then show ?thesis using r(1,2,6,7) n assms(2) by (simp add: valid_cfg_def parity4_def)
  next
    assume l: "o_level opt = 5"
    then have "raid5type r = ''LS'' \<or> raid5type r = ''LA''" using p(3) r(4) by (simp add: disj_commute imp_conv_disj)
    then show ?thesis
      using l r(1,2,6) n assms(2) by (auto simp add: valid_cfg_def parity5_ok_def parity5_def)
  qed
qed

lemma parse_setup_world:
  assumes "parse_setup opt out0 = Ok (wfrac, sz, sequential, r) out"
    and "1 \<le> chunkSize r" "1 \<le> numDisks r"
  shows "disks_ok (make_world r out)"
  using parse_setup_array [OF assms] assms(3) by (auto simp: disks_ok_def)

definition requests_fit :: "options \<Rightarrow> (nat \<Rightarrow> pyfloat) \<Rightarrow> raid_cfg \<Rightarrow> int \<Rightarrow> bool \<Rightarrow> bool" where
  "requests_fit opt rand c sz sequential \<longleftrightarrow>
     0 \<le> sz \<and>
     (if sequential then o_numRequests opt * sz \<le> capacity c
      else (\<forall>k. is_draw (rand k)) \<and> 0 < o_range opt \<and> o_range opt \<le> 2 ^ 53 \<and>
        o_range opt - 1 + sz \<le> capacity c)"

lemma request_step_ok:
  assumes c: "valid_cfg (cfg w)" "disks_ok w"
    and fit: "requests_fit opt rand (cfg w) sz sequential"
    and i: "0 \<le> i" "i < o_numRequests opt" and off: "sequential \<longrightarrow> off = i * sz"
  shows "\<exists>k' w'. request_step opt rand wfrac sz sequential i (off, k) w =
      Ok (if sequential then off + sz else off, k') w' \<and> cfg w' = cfg w \<and> disks_ok w'"
proof -
  define blk where "blk = (if sequential then off else random_block (rand k) (o_range opt))"
  define j where "j = (if sequential then k else k + 1)"
  let ?w = "w\<lparr>stdout := stdout w @ [RequestLine blk sz]\<rparr>"
  have step: "request_step opt rand wfrac sz sequential i (off, k) w =
      pseq (raid_enqueue blk sz (rand j < wfrac))
        (return (if sequential then off + sz else off, j + 1)) ?w"
    by (simp add: request_step_def emit_def blk_def j_def)
  have "blk + sz \<le> capacity (cfg w)"
  proof (cases sequential)
    case True
    have "(i + 1) * sz \<le> o_numRequests opt * sz"
      using i fit by (intro mult_right_mono) (auto simp: requests_fit_def)
    then show ?thesis using True fit off by (simp add: blk_def requests_fit_def distrib_right)
  next
    case False
    then show ?thesis
      using fit random_block_bounds [of "rand k" "o_range opt"] by (auto simp: blk_def requests_fit_def)
  qed
  then have "blk + sz \<le> capacity (cfg ?w)" by simp
  moreover have "valid_cfg (cfg ?w)" "disks_ok ?w" "0 \<le> sz"
    using c fit by (simp_all add: disks_ok_def requests_fit_def)
  ultimately obtain w' where "raid_enqueue blk sz (rand j < wfrac) ?w = Ok () w'"
    "cfg w' = cfg ?w" "disks_ok w'"
    using raid_enqueue_runs [of ?w sz blk "rand j < wfrac"] by blast
  then show ?thesis by (auto simp: step)
qed

lemma request_loop_ok:
  assumes "valid_cfg (cfg w)" "disks_ok w"
    and "requests_fit opt rand (cfg w) sz sequential"
    and "0 \<le> i" "i \<le> o_numRequests opt" and "sequential \<longrightarrow> off = i * sz"
  shows "\<exists>acc w'. for_acc (py_range i (o_numRequests opt)) (off, k)
      (request_step opt rand wfrac sz sequential) w = Ok acc w' \<and> cfg w' = cfg w \<and> disks_ok w'"
  using assms
proof (induction "nat (o_numRequests opt - i)" arbitrary: i off k w)
  case 0
  then show ?case by simp
next
  case (Suc n)
  then have i: "i < o_numRequests opt" by simp
  obtain k' w' where step: "request_step opt rand wfrac sz sequential i (off, k) w =
      Ok (if sequential then off + sz else off, k') w'" "cfg w' = cfg w" "disks_ok w'"
    using request_step_ok [OF Suc.prems(1-4) i Suc.prems(6), of wfrac k] by blast
  then have "\<exists>acc w''. for_acc (py_range (i + 1) (o_numRequests opt))
      (if sequential then off + sz else off, k') (request_step opt rand wfrac sz sequential) w' =
      Ok acc w'' \<and> cfg w'' = cfg w' \<and> disks_ok w''"
    using Suc.prems Suc.hyps(2) i step by (intro Suc.hyps(1)) (auto simp: distrib_right)
  then show ?case using i step by (simp add: py_range_Cons)
qed

text \<open>
  C27. When the arguments pass the checks and the workload fits the array (sequential: all the
  requests together; random: every block of the range, whatever the generator draws), the run
  comes to its regular end: exit status 0 in mapping mode, and no exception at all in timing mode.
\<close>

theorem main_completes:
  assumes "parse_setup opt [] = Ok (wfrac, sz, sequential, r) out"
    and "1 \<le> chunkSize r" "1 \<le> numDisks r"
    and "requests_fit opt rand (cfg r) sz sequential"
  shows "fst (main opt rand) = (if o_timing opt then None else Some (SystemExit 0))"
proof -
  let ?w = "make_world r out"
  note arr = parse_setup_array [OF assms(1,2,3)] parse_setup_world [OF assms(1,2,3)]
  have "\<exists>acc w. generate_requests opt rand wfrac sz sequential ?w = Ok acc w \<and> disks_ok w"
  proof (cases "0 \<le> o_numRequests opt")
    case True
    then show ?thesis
      using request_loop_ok [of ?w opt rand sz sequential 0 0 0 wfrac] arr assms(4)
      by (auto simp: generate_requests_def)
  next
    case False
    then show ?thesis using arr by (simp add: generate_requests_def)
  qed
  then obtain acc w where gen: "generate_requests opt rand wfrac sz sequential ?w = Ok acc w"
    and w: "disks_ok w" by blast
  obtain t where go: "raid_go w = Ok t w" using raid_go_result [OF w] by blast
  have "\<exists>w'. report opt w = (if o_timing opt then Ok () w' else Raise (SystemExit 0) w')"
  proof (cases "o_timing opt")
    case True
    have ok: "disks_ok (w\<lparr>stdout := x\<rparr>)" for x using w by (simp add: disks_ok_def)
    show ?thesis using True go raid_stats_lines [OF ok] by (simp add: report_def emit_def)
  next
    case False
    then show ?thesis using go by (simp add: report_def emit_def)
  qed
  then show ?thesis using assms(1) gen by (auto simp: main_def split: if_splits)
qed

lemma convert_4k: "convert ''4k'' s = Ok 4096 s"
proof -
  have "int_of_string ''4'' = Some 4" by code_simp
  then show ?thesis
    using fun_cong [OF convert_snoc [of "''4''" "CHR ''k''"], of s]
    by (simp add: unit_factor_def py_int_def)
qed

theorem main_completes_witness:
  "fst (main (default_options\<lparr>o_workload := ''seq''\<rparr>) (\<lambda>k. 1 / 2)) = Some (SystemExit 0)"
proof -
  let ?opt = "default_options\<lparr>o_workload := ''seq''\<rparr>"
  obtain wfrac r out where p: "parse_setup ?opt [] = Ok (wfrac, 1, True, r) out"
    and r: "chunkSize r = 1" "numDisks r = 4" "raidLevel r = 0"
    by (auto simp: parse_setup_def default_options_def convert_4k raid_init_def BLOCKSIZE_def Let_def
      fl_div_def)
  have "requests_fit ?opt (\<lambda>k. 1 / 2) (cfg r) 1 True"
    using r by (simp add: requests_fit_def capacity_def data_columns_def default_options_def)
  from main_completes [OF p _ _ this] r show ?thesis by (simp add: default_options_def)
qed

end
