(* ===== verification/Graphics_Request.thy ===== *)
theory Graphics_Request
  imports Convert PyFloat
begin

section \<open>Requests of the animated simulator\<close>

text \<open>
  Class \<open>Request\<close> of \<open>lecture-15/raid-graphics.py\<close> and the constants above it: a logical read
  or write of one block, the disks it touches, and one status for each of them. The constants
  are constructors with the source's names; \<open>req_code\<close> gives their numbers. A status is only ever
  assigned one of the constants, so \<open>PrintableStatus\<close> is the one place where other numbers count.

  \<open>phys_disk_list\<close>, \<open>phys_offset\<close> and \<open>status\<close> are set by \<open>SetPhysicalAddress\<close> only, so they
  are optional attributes: a read before that is an \<open>AttributeError\<close>.
\<close>

datatype activity = STATE_NULL | STATE_SEEK | STATE_XFER | STATE_DONE

datatype req_status =
    REQ_NOT_STARTED
  | REQ_DO_READ
  | REQ_DO_WRITE
  | REQ_PARITY_READ_PHASE_DONE
  | REQ_PARITY_WRITE_PHASE_BEGIN
  | REQ_DONE

fun req_code :: "req_status \<Rightarrow> int" where
  "req_code REQ_NOT_STARTED = 0"
| "req_code REQ_DO_READ = 1"
| "req_code REQ_DO_WRITE = 2"
| "req_code REQ_PARITY_READ_PHASE_DONE = 4"
| "req_code REQ_PARITY_WRITE_PHASE_BEGIN = 5"
| "req_code REQ_DONE = 10"

datatype optype = OP_READ | OP_WRITE

text \<open>What the script prints, one constructor for each \<open>print\<close>.\<close>

datatype gline =
    OptionLine string string
  | BlankLine
  | BadStatus int
  | MappingNotSupported int
  | BadAddrDesc int int
  | MustSpecify
  | BadWindow int
  | StatTotalTime int
  | StatRequests int
  | StatAvgLatency pyfloat

record request =
  logical_address :: int
  op_type :: optype
  disk_to_index_map :: "int \<rightharpoonup> int"
  full_stripe_write :: bool
  full_stripe_write_parity :: bool
  start_time :: int
  phys_disk_list :: "int list option"
  phys_offset :: "int option"
  status :: "req_status list option"

text \<open>\<open>Request(logical_address, op_type)\<close>; the assertion on \<open>op_type\<close> is the type \<open>optype\<close>.\<close>

definition new_request :: "int \<Rightarrow> optype \<Rightarrow> request" where
  "new_request addr oper =
     \<lparr> logical_address = addr, op_type = oper, disk_to_index_map = Map.empty,
       full_stripe_write = False, full_stripe_write_parity = False, start_time = - 1,
       phys_disk_list = None, phys_offset = None, status = None \<rparr>"

definition MarkFullStripeWrite :: "bool \<Rightarrow> (request, unit) py" where
  "MarkFullStripeWrite parity =
     modify (\<lambda>r. r\<lparr>full_stripe_write := True, full_stripe_write_parity := parity\<rparr>)"

definition FullStripeWriteStatus :: "(request, bool \<times> bool) py" where
  "FullStripeWriteStatus = gets (\<lambda>r. (full_stripe_write r, full_stripe_write_parity r))"

definition GetType :: "(request, optype) py" where
  "GetType = gets op_type"

definition GetLogicalAddress :: "(request, int) py" where
  "GetLogicalAddress = gets logical_address"

definition GetStatus :: "int \<Rightarrow> (request, req_status) py" where
  "GetStatus index = pbind (getattr status) (\<lambda>st. py_getitem st index)"

definition GetStatusByDisk :: "int \<Rightarrow> (request, req_status) py" where
  "GetStatusByDisk dsk =
     pbind (gets disk_to_index_map) (\<lambda>m. pbind (py_lookup m dsk) (\<lambda>index. GetStatus index))"

definition SetStatus :: "int \<Rightarrow> req_status \<Rightarrow> (request, unit) py" where
  "SetStatus index stat =
     pbind (getattr status) (\<lambda>st.
     pbind (py_setitem st index stat) (\<lambda>st'. modify (\<lambda>r. r\<lparr>status := Some st'\<rparr>)))"

definition SetPhysicalAddress :: "int list \<Rightarrow> int \<Rightarrow> (request, unit) py" where
  "SetPhysicalAddress disk_list offset =
     pseq (modify (\<lambda>r. r\<lparr>phys_disk_list := Some disk_list\<rparr>)) (
     pbind (for_acc disk_list 0 (\<lambda>dsk cnt.
              pseq (modify (\<lambda>r. r\<lparr>disk_to_index_map := (disk_to_index_map r)(dsk \<mapsto> cnt)\<rparr>))
                (return (cnt + 1)))) (\<lambda>_.
     pseq (modify (\<lambda>r. r\<lparr>phys_offset := Some offset\<rparr>))
       (modify (\<lambda>r. r\<lparr>status := Some (map (\<lambda>dsk. REQ_NOT_STARTED) disk_list)\<rparr>))))"

text \<open>\<open>PrintableStatus\<close> of a number, run on the lines printed so far.\<close>

definition PrintableStatus :: "int \<Rightarrow> (gline list, string) py" where
  "PrintableStatus stat =
     (if stat = 0 then return ''REQ_NOT_STARTED''
      else if stat = 2 then return ''REQ_DO_WRITE''
      else if stat = 1 then return ''REQ_DO_READ''
      else if stat = 10 then return ''REQ_DONE''
      else if stat = 4 then return ''REQ_PARITY_READ_PHASE_DONE''
      else if stat = 5 then return ''REQ_PARITY_WRITE_PHASE_BEGIN''
      else pseq (modify (\<lambda>out. out @ [BadStatus stat])) (raise (SystemExit 1)))"

definition MarkStart :: "int \<Rightarrow> (request, unit) py" where
  "MarkStart timer =
     modify (\<lambda>r. if start_time r = - 1 then r\<lparr>start_time := timer\<rparr> else r)"

definition GetPhysicalOffset :: "(request, int) py" where
  "GetPhysicalOffset = getattr phys_offset"

definition GetPhysicalDiskList :: "(request, int list) py" where
  "GetPhysicalDiskList = getattr phys_disk_list"

subsection \<open>Completion of one I/O\<close>

text \<open>\<open>self.disk_to_index_map[disk]\<close>, and \<open>timer - self.start_time\<close>.\<close>

definition index_of_disk :: "int \<Rightarrow> (request, int) py" where
  "index_of_disk dsk = pbind (gets disk_to_index_map) (\<lambda>m. py_lookup m dsk)"

definition finished :: "int \<Rightarrow> (request, bool \<times> int) py" where
  "finished timer = pbind (gets start_time) (\<lambda>t. return (True, timer - t))"

definition RequestLevel0Done :: "int \<Rightarrow> int \<Rightarrow> (request, bool \<times> int) py" where
  "RequestLevel0Done dsk timer =
     pbind (index_of_disk dsk) (\<lambda>index.
     pbind (GetStatus index) (\<lambda>st.
     pseq (if st = REQ_DO_READ \<or> st = REQ_DO_WRITE then SetStatus index REQ_DONE else return ())
       (finished timer)))"

definition RequestLevel1Done :: "int \<Rightarrow> int \<Rightarrow> (request, bool \<times> int) py" where
  "RequestLevel1Done dsk timer =
     pbind (index_of_disk dsk) (\<lambda>index.
     pbind (GetStatus index) (\<lambda>st.
       if st = REQ_DO_READ then pseq (SetStatus index REQ_DONE) (finished timer)
       else
         pseq (py_assert (st = REQ_DO_WRITE)) (
         pseq (SetStatus index REQ_DONE) (
         pbind (GetStatus (1 - index)) (\<lambda>other.
           if other = REQ_DONE then finished timer else return (False, - 1))))))"

definition RequestLevel4Done :: "int \<Rightarrow> int \<Rightarrow> (request, bool \<times> int) py" where
  "RequestLevel4Done dsk timer =
     pbind (index_of_disk dsk) (\<lambda>index.
     pbind GetType (\<lambda>oper.
       if oper = OP_READ then finished timer
       else
         pbind (GetStatus index) (\<lambda>st.
         pseq (if st = REQ_DO_READ then SetStatus index REQ_PARITY_READ_PHASE_DONE
               else if st = REQ_DO_WRITE then SetStatus index REQ_DONE
               else return ()) (
         pbind (GetStatus index) (\<lambda>mine.
         pbind (if mine = REQ_PARITY_READ_PHASE_DONE
                then pbind (GetStatus (1 - index)) (\<lambda>other. return (other = REQ_PARITY_READ_PHASE_DONE))
                else return False) (\<lambda>both_read.
         pseq (if both_read
               then pseq (SetStatus 0 REQ_PARITY_WRITE_PHASE_BEGIN) (SetStatus 1 REQ_PARITY_WRITE_PHASE_BEGIN)
               else return ()) (
         pbind (GetStatus index) (\<lambda>mine'.
         pbind (if mine' = REQ_DONE
                then pbind (GetStatus (1 - index)) (\<lambda>other. return (other = REQ_DONE))
                else return False) (\<lambda>both_done.
           if both_done then finished timer else return (False, - 1))))))))))"

end
