(* ===== verification/Graphics_Screen.thy ===== *)
theory Graphics_Screen
  imports Graphics_Request
begin

section \<open>The simulator's state and what it draws\<close>

text \<open>
  The first half of \<open>Raid.__init__\<close> of \<open>lecture-15/raid-graphics.py\<close>: the blocks of the four
  layouts and the disk heads, drawn on a Tk canvas while the tables for scheduling and colouring
  are filled.

  A canvas is the list of its items. Tk numbers items 1, 2, 3 and so on; configuring or moving
  an item changes the given options only, and a number with no item is ignored. An option that a
  call leaves out is \<open>None\<close>. Labels sit at \<open>rect_x + 100 - 100/2.0\<close>, a float without a fraction,
  which is an integer here.

  Each dictionary is a map; the keys of \<open>block_offset\<close> are integers and strings. Requests are
  objects that \<open>request_queue\<close> (keys \<open>0\<close>, \<open>1\<close>, \<open>2\<close>, in order) and the two target tables share,
  so a target is the request's key in the queue, and \<open>None\<close> is the \<open>-1\<close> of a disk without one.
\<close>

datatype kind = RECTANGLE | LABEL

record item =
  item_kind :: kind
  coords :: "int list"
  fill :: "string option"
  outline :: "string option"
  label :: "string option"
  anchor :: "string option"
  font :: "(string \<times> int) option"

datatype key = IntKey int | StrKey string

record position =
  pos_x1 :: int
  pos_y1 :: int
  pos_x2 :: int
  pos_y2 :: int

text \<open>The arguments of the constructor that no method changes.\<close>

record setting =
  mapping :: int
  addr_desc :: string
  addr :: string
  disk_count :: int
  seek_speed :: int
  balance :: bool
  read_fraction :: xfloat
  animate_delay :: int

text \<open>What the constructor fills in and later code only reads, and the canvas.\<close>

record screen = setting +
  canvas :: "item list"
  head_width :: int
  head_height :: int
  block_count :: int
  block_count_full :: int
  block_offset :: "key \<rightharpoonup> int"
  offset_to_ypos :: "int \<rightharpoonup> int"
  disk_and_offset_to_rect_id :: "int \<times> int \<rightharpoonup> int"
  color_map :: "int \<times> int \<rightharpoonup> string"
  head_ids :: "int \<rightharpoonup> int"
  request_queue_box_ids :: "int list"
  request_queue_text_ids :: "int list"
  request_queue_count_ids :: "int list"
  windowID :: int
  timeID :: int
  count_reads_id :: "int \<rightharpoonup> int"
  count_writes_id :: "int \<rightharpoonup> int"

text \<open>
  The state of the simulation. \<open>pending\<close> counts the calls of \<open>Animate\<close> that Tk still holds
  (\<open>root.after\<close>), \<open>printed\<close> the lines written.
\<close>

record sim = screen +
  window :: int
  head_position :: "int \<rightharpoonup> position"
  disk_state :: "int \<rightharpoonup> activity"
  last_target :: "int \<rightharpoonup> nat option"
  current_target :: "int \<rightharpoonup> nat option"
  current_optype :: "int \<rightharpoonup> optype option"
  seek_delta :: "int \<rightharpoonup> int"
  transfer_count :: "int \<rightharpoonup> int"
  rotate_count :: "int \<rightharpoonup> int"
  request_queue :: "request list"
  request_count :: int
  request_count_needed :: int
  request_queue_counts :: "int list"
  timer :: int
  logical_requests :: int
  latency_total :: int
  count_reads :: "int \<rightharpoonup> int"
  count_writes :: "int \<rightharpoonup> int"
  do_animate :: bool
  is_done :: bool
  pending :: nat
  printed :: "gline list"

text \<open>
  The object at the start of \<open>__init__\<close>: arguments stored, \<open>head_width\<close> and \<open>head_height\<close> set,
  every table empty. The other attributes hold placeholders that are assigned below before any
  code reads them.
\<close>

definition blank_sim :: "setting \<Rightarrow> int \<Rightarrow> gline list \<Rightarrow> sim" where
  "blank_sim cf wnd out =
     \<lparr> mapping = mapping cf, addr_desc = addr_desc cf, addr = addr cf, disk_count = disk_count cf,
       seek_speed = seek_speed cf, balance = balance cf, read_fraction = read_fraction cf,
       animate_delay = animate_delay cf,
       canvas = [], head_width = 10, head_height = 20, block_count = 0, block_count_full = 0,
       block_offset = Map.empty, offset_to_ypos = Map.empty,
       disk_and_offset_to_rect_id = Map.empty, color_map = Map.empty, head_ids = Map.empty,
       request_queue_box_ids = [], request_queue_text_ids = [], request_queue_count_ids = [],
       windowID = 0, timeID = 0, count_reads_id = Map.empty, count_writes_id = Map.empty,
       window = wnd, head_position = Map.empty, disk_state = Map.empty, last_target = Map.empty,
       current_target = Map.empty, current_optype = Map.empty, seek_delta = Map.empty,
       transfer_count = Map.empty, rotate_count = Map.empty, request_queue = [],
       request_count = 0, request_count_needed = 0, request_queue_counts = [], timer = 0,
       logical_requests = 0, latency_total = 0, count_reads = Map.empty, count_writes = Map.empty,
       do_animate = False, is_done = False, pending = 0, printed = out \<rparr>"

definition gprint :: "gline \<Rightarrow> (sim, unit) py" where
  "gprint l = modify (\<lambda>s. s\<lparr>printed := printed s @ [l]\<rparr>)"

subsection \<open>The canvas\<close>

definition create_item :: "item \<Rightarrow> (sim, int) py" where
  "create_item it = (\<lambda>s. Ok (int (length (canvas s)) + 1) (s\<lparr>canvas := canvas s @ [it]\<rparr>))"

definition create_rectangle ::
  "int \<Rightarrow> int \<Rightarrow> int \<Rightarrow> int \<Rightarrow> string option \<Rightarrow> string \<Rightarrow> (sim, int) py" where
  "create_rectangle x1 y1 x2 y2 fl ol =
     create_item \<lparr> item_kind = RECTANGLE, coords = [x1, y1, x2, y2], fill = fl, outline = Some ol,
                    label = None, anchor = None, font = None \<rparr>"

definition create_text ::
  "int \<Rightarrow> int \<Rightarrow> string \<Rightarrow> string \<Rightarrow> (string \<times> int) option \<Rightarrow> string option \<Rightarrow> (sim, int) py" where
  "create_text x y txt anch fnt fl =
     create_item \<lparr> item_kind = LABEL, coords = [x, y], fill = fl, outline = None,
                    label = Some txt, anchor = Some anch, font = fnt \<rparr>"

definition item_update :: "int \<Rightarrow> (item \<Rightarrow> item) \<Rightarrow> (sim, unit) py" where
  "item_update ident f =
     modify (\<lambda>s. if 1 \<le> ident \<and> ident \<le> int (length (canvas s))
       then s\<lparr>canvas := (canvas s)[nat (ident - 1) := f (canvas s ! nat (ident - 1))]\<rparr> else s)"

definition itemconfig_fill :: "int \<Rightarrow> string \<Rightarrow> (sim, unit) py" where
  "itemconfig_fill ident c = item_update ident (\<lambda>it. it\<lparr>fill := Some c\<rparr>)"

definition itemconfig_text :: "int \<Rightarrow> string \<Rightarrow> (sim, unit) py" where
  "itemconfig_text ident txt = item_update ident (\<lambda>it. it\<lparr>label := Some txt\<rparr>)"

definition canvas_coords :: "int \<Rightarrow> int list \<Rightarrow> (sim, unit) py" where
  "canvas_coords ident cs = item_update ident (\<lambda>it. it\<lparr>coords := cs\<rparr>)"

subsection \<open>The layouts\<close>

definition disk_width :: int where
  "disk_width = 100"

text \<open>
  One block: its place on the screen and its colour, the rectangle and the label. The result is
  the rectangle's number and its \<open>rect_y\<close>.
\<close>

definition draw_block :: "int \<Rightarrow> int \<Rightarrow> string \<Rightarrow> string \<Rightarrow> (sim, int \<times> int) py" where
  "draw_block dsk offset colour txt =
     (let rect_x = 40 + (20 + disk_width) * dsk; rect_y = 20 * offset + 100 in
      pseq (modify (\<lambda>s. s\<lparr>color_map := (color_map s)((dsk, offset) \<mapsto> colour)\<rparr>)) (
      pbind (create_rectangle rect_x rect_y (rect_x + disk_width) (rect_y + 20) (Some colour) ''black'')
        (\<lambda>rect_id.
      pbind (create_text (rect_x + disk_width - disk_width div 2) (rect_y + 10) txt ''c'' None None)
        (\<lambda>text_id. return (rect_id, rect_y)))))"

definition note_ypos :: "key \<Rightarrow> int \<Rightarrow> int \<Rightarrow> (sim, unit) py" where
  "note_ypos k offset rect_y =
     modify (\<lambda>s. s\<lparr>block_offset := (block_offset s)(k \<mapsto> rect_y),
                     offset_to_ypos := (offset_to_ypos s)(offset \<mapsto> rect_y)\<rparr>)"

definition note_rect :: "int \<Rightarrow> int \<Rightarrow> int \<Rightarrow> (sim, unit) py" where
  "note_rect dsk offset rect_id =
     modify (\<lambda>s. s\<lparr>disk_and_offset_to_rect_id :=
       (disk_and_offset_to_rect_id s)((dsk, offset) \<mapsto> rect_id)\<rparr>)"

text \<open>A block with one copy, and the \<open>i\<close>th parity block.\<close>

definition put_block :: "int \<Rightarrow> int \<Rightarrow> int \<Rightarrow> string \<Rightarrow> (sim, unit) py" where
  "put_block i dsk offset colour =
     pbind (draw_block dsk offset colour (show_int i)) (\<lambda>(rect_id, rect_y).
     pseq (note_ypos (IntKey i) offset rect_y) (note_rect dsk offset rect_id))"

definition put_parity :: "int \<Rightarrow> int \<Rightarrow> (sim, unit) py" where
  "put_parity i dsk =
     pbind (draw_block dsk i ''darkgray'' (''P'' @ show_int i)) (\<lambda>(rect_id, rect_y).
     pseq (note_ypos (StrKey (''p'' @ show_int i)) i rect_y) (note_rect dsk i rect_id))"

definition draw_striped :: "(sim, unit) py" where
  "draw_striped =
     pseq (modify (\<lambda>s. s\<lparr>block_count := 80\<rparr>)) (
     pbind (gets block_count) (\<lambda>bc.
     for_each (py_range 0 bc) (\<lambda>i.
       pbind (gets disk_count) (\<lambda>n.
       pbind (py_mod i n) (\<lambda>dsk.
       pbind (py_div i n) (\<lambda>offset.
       put_block i dsk offset ''gray''))))))"

definition draw_mirrored :: "(sim, unit) py" where
  "draw_mirrored =
     pseq (modify (\<lambda>s. s\<lparr>block_count := 40\<rparr>)) (
     pbind (gets block_count) (\<lambda>bc.
     pbind (gets disk_count) (\<lambda>n.
     pbind (py_div n 2) (\<lambda>effective_disks.
     pseq (py_assert (n mod 2 = 0)) (
     for_each (py_range 0 bc) (\<lambda>i.
       pbind (py_mod i effective_disks) (\<lambda>INDEX.
       let disk_1 = INDEX * 2; disk_2 = disk_1 + 1 in
       pbind (py_div i effective_disks) (\<lambda>offset.
       pbind (draw_block disk_1 offset ''gray'' (show_int i)) (\<lambda>(rect_id_1, rect_y).
       pbind (draw_block disk_2 offset ''gray'' (show_int i)) (\<lambda>(rect_id_2, _).
       pseq (note_ypos (IntKey i) offset rect_y) (
       pseq (note_rect disk_1 offset rect_id_1) (note_rect disk_2 offset rect_id_2))))))))))))"

definition draw_raid4 :: "(sim, unit) py" where
  "draw_raid4 =
     pseq (modify (\<lambda>s. s\<lparr>block_count_full := 80, block_count := 60\<rparr>)) (
     pbind (gets block_count) (\<lambda>bc.
     pbind (gets disk_count) (\<lambda>n.
     pseq (for_each (py_range 0 bc) (\<lambda>i.
             pbind (py_mod i (n - 1)) (\<lambda>dsk.
             pbind (py_div i (n - 1)) (\<lambda>offset.
             put_block i dsk offset ''lightgray'')))) (
     pbind (gets block_count_full) (\<lambda>full.
     pbind (py_div full n) (\<lambda>rows.
     for_each (py_range 0 rows) (\<lambda>i. put_parity i 3)))))))"

text \<open>The disk of the block in column \<open>col\<close> of a row, as the drawing loop computes it.\<close>

definition drawn_disk5 :: "int \<Rightarrow> int \<Rightarrow> int" where
  "drawn_disk5 offset col =
     (if offset mod 4 = 0 then col
      else if offset mod 4 = 1 then (if col \<ge> 2 then col + 1 else col)
      else if offset mod 4 = 2 then (if col \<ge> 1 then col + 1 else col)
      else col + 1)"

definition drawn_parity5 :: "int \<Rightarrow> int" where
  "drawn_parity5 offset =
     (if offset mod 4 = 0 then 3
      else if offset mod 4 = 1 then 2
      else if offset mod 4 = 2 then 1
      else 0)"

definition draw_raid5 :: "(sim, unit) py" where
  "draw_raid5 =
     pseq (modify (\<lambda>s. s\<lparr>block_count_full := 80, block_count := 60\<rparr>)) (
     pbind (gets block_count) (\<lambda>bc.
     pbind (gets disk_count) (\<lambda>n.
     pseq (for_each (py_range 0 bc) (\<lambda>i.
             pbind (py_div i (n - 1)) (\<lambda>offset.
             pbind (py_mod i (n - 1)) (\<lambda>col.
             put_block i (drawn_disk5 offset col) offset ''gray'')))) (
     pbind (gets block_count_full) (\<lambda>full.
     pbind (py_div full n) (\<lambda>rows.
     for_each (py_range 0 rows) (\<lambda>i. put_parity i (drawn_parity5 i))))))))"

definition draw_layout :: "(sim, unit) py" where
  "draw_layout =
     pbind (gets mapping) (\<lambda>m.
       if m = 0 then draw_striped
       else if m = 1 then draw_mirrored
       else if m = 4 then draw_raid4
       else if m = 5 then draw_raid5
       else pseq (gprint (MappingNotSupported m)) (raise (SystemExit 1)))"

subsection \<open>The heads and the per-disk tables\<close>

definition draw_heads :: "(sim, unit) py" where
  "draw_heads =
     pbind (gets disk_count) (\<lambda>n.
     for_each (py_range 0 n) (\<lambda>dsk.
       pbind (gets head_width) (\<lambda>w.
       pbind (gets head_height) (\<lambda>h.
       let rect_x = 40 - w + (20 + disk_width) * dsk; rect_y = 100 in
       pbind (create_rectangle rect_x rect_y (rect_x + w) (rect_y + h) (Some ''black'') ''black'')
         (\<lambda>head_id.
       modify (\<lambda>s. s\<lparr>head_ids := (head_ids s)(dsk \<mapsto> head_id),
         head_position := (head_position s)(dsk \<mapsto>
           \<lparr>pos_x1 = rect_x, pos_y1 = rect_y, pos_x2 = rect_x + w, pos_y2 = rect_y + h\<rparr>),
         disk_state := (disk_state s)(dsk \<mapsto> STATE_NULL)\<rparr>))))))"

definition init_targets :: "(sim, unit) py" where
  "init_targets =
     pbind (gets disk_count) (\<lambda>n.
     pseq (for_each (py_range 0 n) (\<lambda>dsk.
             modify (\<lambda>s. s\<lparr>last_target := (last_target s)(dsk \<mapsto> None),
               current_target := (current_target s)(dsk \<mapsto> None),
               current_optype := (current_optype s)(dsk \<mapsto> None),
               seek_delta := (seek_delta s)(dsk \<mapsto> 0)\<rparr>)))
       (for_each (py_range 0 n) (\<lambda>dsk.
          modify (\<lambda>s. s\<lparr>transfer_count := (transfer_count s)(dsk \<mapsto> - 1),
            rotate_count := (rotate_count s)(dsk \<mapsto> - 1)\<rparr>))))"

end
