(* ===== verification/Graphics_Setup.thy ===== *)
theory Graphics_Setup
  imports Graphics_Screen
begin

section \<open>The constructor of the simulator\<close>

text \<open>
  The second half of \<open>Raid.__init__\<close> of \<open>lecture-15/raid-graphics.py\<close>: the request queue
  (generated or parsed), the physical address of every request, the queue on the screen and the
  counters. \<open>random.random()\<close> is a parameter \<open>rand\<close>, the sequence of values the seeded generator
  returns.
\<close>

subsection \<open>Parsing\<close>

text \<open>\<open>s.split(c)\<close> for one separating character, and \<open>s.replace(c, '')\<close>.\<close>

fun py_split :: "char \<Rightarrow> string \<Rightarrow> string list" where
  "py_split c [] = [[]]"
| "py_split c (x # xs) =
     (if x = c then [] # py_split c xs
      else (case py_split c xs of [] \<Rightarrow> [[x]] | w # ws \<Rightarrow> (x # w) # ws))"

definition py_remove :: "char \<Rightarrow> string \<Rightarrow> string" where
  "py_remove c xs = filter (\<lambda>x. x \<noteq> c) xs"

definition add_request :: "int \<Rightarrow> optype \<Rightarrow> (sim, unit) py" where
  "add_request lba oper =
     modify (\<lambda>s. s\<lparr>request_queue := request_queue s @ [new_request lba oper]\<rparr>)"

text \<open>The hand-passed list of requests.\<close>

definition parse_item :: "string \<Rightarrow> (sim, unit) py" where
  "parse_item w =
     pbind (py_getitem w 0) (\<lambda>c.
       if c = CHR ''r'' then
         pbind (py_int (py_remove (CHR ''r'') w)) (\<lambda>n. add_request n OP_READ)
       else if c = CHR ''w'' then
         pbind (py_int (py_remove (CHR ''w'') w)) (\<lambda>n. add_request n OP_WRITE)
       else pseq (gprint MustSpecify) (raise (SystemExit 1)))"

definition parse_addr :: "(sim, unit) py" where
  "parse_addr = pbind (gets addr) (\<lambda>a. for_each (py_split (CHR '','') a) parse_item)"

subsection \<open>Random requests\<close>

definition random_address :: "pyfloat \<Rightarrow> int \<Rightarrow> int" where
  "random_address x req_max = fl_trunc (fl_mul x (fl_of_int req_max))"

text \<open>
  The number of requests, and the bounds of their addresses. \<open>disk_min\<close> is computed and not used.
\<close>

definition parse_desc :: "int \<Rightarrow> (sim, int \<times> int \<times> int) py" where
  "parse_desc effective_disk_count =
     pbind (gets addr_desc) (\<lambda>desc.
     let tmp = py_split (CHR '','') desc in
     pbind (pbind (py_getitem tmp 0) py_int) (\<lambda>num.
     pbind (pbind (py_getitem tmp 1) py_int) (\<lambda>m.
     pbind (if m = - 1 then gets block_count else return m) (\<lambda>req_max.
     pbind (pbind (py_getitem tmp 2) py_int) (\<lambda>req_min.
     pbind (gets balance) (\<lambda>bal.
     pseq (if bal then pbind (py_div num effective_disk_count) (\<lambda>disk_min. return ()) else return ()) (
     pseq (if req_min \<ge> req_max then
             pseq (gprint (BadAddrDesc req_min req_max)) (raise (SystemExit 1))
           else return ())
       (return (num, req_max, req_min)))))))))"

text \<open>
  The loop \<open>while True\<close> that draws one address, from the \<open>k\<close>th draw on: it retries until the
  address is in the column \<open>target_disk\<close>, moves the target on, and stops when the address is not
  below the minimum. It need not end; \<open>None\<close> is that case.
\<close>

partial_function (option) draw_address ::
  "(nat \<Rightarrow> pyfloat) \<Rightarrow> int \<Rightarrow> int \<Rightarrow> int \<Rightarrow> nat \<Rightarrow> int \<Rightarrow> (int \<times> nat \<times> int) option" where
  "draw_address rand effective_disk_count req_max req_min k target_disk =
     (let req = random_address (rand k) req_max in
      if req mod effective_disk_count \<noteq> target_disk
      then draw_address rand effective_disk_count req_max req_min (k + 1) target_disk
      else
        let target' = (if target_disk + 1 = effective_disk_count then 0 else target_disk + 1) in
        if req \<ge> req_min then Some (req, k + 1, target')
        else draw_address rand effective_disk_count req_max req_min (k + 1) target')"

declare draw_address.simps [code]

text \<open>\<open>for i in range(num)\<close>: the address, then one draw for the direction.\<close>

fun draw_requests ::
  "(nat \<Rightarrow> pyfloat) \<Rightarrow> xfloat \<Rightarrow> int \<Rightarrow> int \<Rightarrow> int \<Rightarrow> nat \<Rightarrow> nat \<Rightarrow> int \<Rightarrow> (request list \<times> nat) option" where
  "draw_requests rand rfrac eff req_max req_min 0 k target_disk = Some ([], k)"
| "draw_requests rand rfrac eff req_max req_min (Suc num) k target_disk =
     (case draw_address rand eff req_max req_min k target_disk of
        None \<Rightarrow> None
      | Some (req, k', target') \<Rightarrow>
          (let r = new_request req (if fl_less (rand k') rfrac then OP_READ else OP_WRITE) in
           map_option (\<lambda>(rs, k''). (r # rs, k''))
             (draw_requests rand rfrac eff req_max req_min num (k' + 1) target')))"

definition make_queue :: "(nat \<Rightarrow> pyfloat) \<Rightarrow> sim \<Rightarrow> (sim, unit) outcome option" where
  "make_queue rand s =
     (let effective_disk_count = (if mapping s = 4 then 3 else 4) in
      if addr s = [] then
        (case parse_desc effective_disk_count s of
           Raise e s' \<Rightarrow> Some (Raise e s')
         | Ok (num, req_max, req_min) s' \<Rightarrow>
             map_option (\<lambda>(rs, k). Ok () (s'\<lparr>request_queue := request_queue s' @ rs\<rparr>))
               (draw_requests rand (read_fraction s) effective_disk_count req_max req_min (nat num) 0 0))
      else Some (parse_addr s))"

subsection \<open>Physical addresses\<close>

text \<open>\<open>self.request_queue[i]\<close>, and a method of the object there.\<close>

definition on_request :: "nat \<Rightarrow> (request, 'a) py \<Rightarrow> (sim, 'a) py" where
  "on_request i m = (\<lambda>s.
     if i < length (request_queue s) then
       (case m (request_queue s ! i) of
          Ok a r \<Rightarrow> Ok a (s\<lparr>request_queue := (request_queue s)[i := r]\<rparr>)
        | Raise e r \<Rightarrow> Raise e (s\<lparr>request_queue := (request_queue s)[i := r]\<rparr>))
     else Raise KeyError s)"

definition queue_length :: "(sim, nat) py" where
  "queue_length = gets (\<lambda>s. length (request_queue s))"

definition need_more :: "int \<Rightarrow> (sim, unit) py" where
  "need_more d = modify (\<lambda>s. s\<lparr>request_count_needed := request_count_needed s + d\<rparr>)"

definition check_logical :: "nat \<Rightarrow> (sim, int) py" where
  "check_logical i =
     pbind (on_request i GetLogicalAddress) (\<lambda>logical.
     pbind (gets block_count) (\<lambda>bc.
     pseq (py_assert (logical < bc)) (return logical)))"

definition place_striped :: "nat \<Rightarrow> (sim, unit) py" where
  "place_striped i =
     pbind (check_logical i) (\<lambda>logical.
     pbind (gets disk_count) (\<lambda>n.
     pbind (py_mod logical n) (\<lambda>dsk.
     pbind (py_div logical n) (\<lambda>offset.
     on_request i (SetPhysicalAddress [dsk] offset)))))"

definition place_mirrored :: "nat \<Rightarrow> (sim, unit) py" where
  "place_mirrored i =
     pbind (on_request i GetType) (\<lambda>oper.
     pseq (if oper = OP_WRITE then need_more 1 else return ()) (
     pbind (gets disk_count) (\<lambda>n.
     pbind (py_div n 2) (\<lambda>effective_disks.
     pbind (check_logical i) (\<lambda>logical.
     pbind (py_mod logical effective_disks) (\<lambda>m.
     let disk_1 = 2 * m; disk_2 = disk_1 + 1 in
     pbind (py_div logical effective_disks) (\<lambda>offset.
     on_request i (SetPhysicalAddress [disk_1, disk_2] offset))))))))"

definition place_raid4 :: "nat \<Rightarrow> (sim, unit) py" where
  "place_raid4 i =
     pbind (on_request i GetType) (\<lambda>oper.
     pseq (if oper = OP_WRITE then need_more 3 else return ()) (
     pbind (check_logical i) (\<lambda>logical.
     pbind (gets disk_count) (\<lambda>n.
     pbind (py_mod logical (n - 1)) (\<lambda>dsk.
     pbind (py_div logical (n - 1)) (\<lambda>offset.
     on_request i (SetPhysicalAddress [dsk, 3] offset)))))))"

text \<open>Three requests in a row, from a multiple of three on, for three blocks in a row.\<close>

definition mark_full_stripe :: "nat \<Rightarrow> (sim, unit) py" where
  "mark_full_stripe i =
     pbind queue_length (\<lambda>len.
     if i + 2 \<ge> len then return ()
     else
       pbind (on_request i GetLogicalAddress) (\<lambda>logical.
       pbind (on_request (i + 1) GetLogicalAddress) (\<lambda>second.
       if second = logical + 1 then
         pbind (on_request (i + 2) GetLogicalAddress) (\<lambda>third.
         if third = logical + 2 then
           pseq (for_each [i..<i + 2] (\<lambda>j. on_request j (MarkFullStripeWrite False))) (
           pseq (on_request (i + 2) (MarkFullStripeWrite True))
             (need_more (- 8)))
         else return ())
       else return ())))"

text \<open>\<open>range(0, n, 3)\<close>.\<close>

definition multiples3 :: "nat \<Rightarrow> nat list" where
  "multiples3 n = map (\<lambda>k. 3 * k) [0..<(n + 2) div 3]"

definition place_raid5 :: "nat \<Rightarrow> (sim, unit) py" where
  "place_raid5 i =
     pbind (on_request i GetType) (\<lambda>oper.
     pseq (if oper = OP_WRITE then need_more 3 else return ()) (
     pbind (check_logical i) (\<lambda>logical.
     pbind (gets disk_count) (\<lambda>n.
     pbind (py_mod logical (n - 1)) (\<lambda>dsk.
     pbind (py_div logical (n - 1)) (\<lambda>offset.
     let (dsk', parity_disk) =
       (if offset mod 4 = 0 then (dsk, 3)
        else if offset mod 4 = 1 then (if dsk \<ge> 2 then dsk + 1 else dsk, 2)
        else if offset mod 4 = 2 then (if dsk \<ge> 1 then dsk + 1 else dsk, 1)
        else (dsk + 1, 0))
     in on_request i (SetPhysicalAddress [dsk', parity_disk] offset)))))))"

definition place_requests :: "(sim, unit) py" where
  "place_requests =
     pbind queue_length (\<lambda>len.
     pseq (modify (\<lambda>s. s\<lparr>request_count_needed := int len\<rparr>)) (
     pbind (gets mapping) (\<lambda>m.
       if m = 0 then for_each [0..<len] place_striped
       else if m = 1 then for_each [0..<len] place_mirrored
       else if m = 4 then
         pseq (for_each [0..<len] place_raid4) (for_each (multiples3 len) mark_full_stripe)
       else if m = 5 then for_each [0..<len] place_raid5
       else return ())))"

subsection \<open>The queue on the screen, the counters\<close>

definition draw_queue :: "(sim, int \<times> int) py" where
  "draw_queue =
     pbind queue_length (\<lambda>len.
     for_acc [0..<len] (40, 32) (\<lambda>index (x0, y0).
       let sz = 10;
           x = (if x0 > 500 then 40 else x0);
           y = (if x0 > 500 then y0 + (2 * sz + 2) else y0)
       in
       pbind (on_request index GetLogicalAddress) (\<lambda>logical.
       pbind (create_rectangle (x - sz) (y - sz) (x + sz) (y + sz) None '''') (\<lambda>box.
       pbind (create_text x y (show_int logical) ''c'' (Some (''Helvetica'', sz + 4)) None) (\<lambda>txt.
       pbind (create_text (x + 8) (y + 8) (show_int 0) ''c'' (Some (''Helvetica'', 8)) None) (\<lambda>cnt.
       pseq (modify (\<lambda>s. s\<lparr>request_queue_box_ids := request_queue_box_ids s @ [box],
               request_queue_text_ids := request_queue_text_ids s @ [txt],
               request_queue_count_ids := request_queue_count_ids s @ [cnt],
               request_queue_counts := request_queue_counts s @ [0]\<rparr>))
         (return (x + 2 * sz, y))))))))"

definition DrawWindow :: "(sim, unit) py" where
  "DrawWindow = return ()"

definition init_counters :: "(sim, unit) py" where
  "init_counters =
     pseq (modify (\<lambda>s. s\<lparr>windowID := - 1\<rparr>)) (
     pseq DrawWindow (
     pbind (create_text 10 10 ''Time: 0.00'' ''w'' None None) (\<lambda>tid.
     pseq (modify (\<lambda>s. s\<lparr>timeID := tid, timer := 0, logical_requests := 0, latency_total := 0,
             count_reads := Map.empty, count_writes := Map.empty,
             count_reads_id := Map.empty, count_writes_id := Map.empty\<rparr>)) (
     pbind (gets disk_count) (\<lambda>n.
     pseq (for_acc (py_range 0 n) (disk_width - 10) (\<lambda>i x.
             pseq (modify (\<lambda>s. s\<lparr>count_reads := (count_reads s)(i \<mapsto> 0),
                     count_writes := (count_writes s)(i \<mapsto> 0)\<rparr>)) (
             pbind (create_rectangle (x - 50) 510 x 530 (Some ''orange'') '''') (\<lambda>_.
             pbind (create_rectangle (x + 50) 510 x 530 (Some ''green'') '''') (\<lambda>_.
             pbind (create_text (x - 20) 520 ''R:0'' ''c'' (Some (''Helvetica'', 14)) (Some ''black'')) (\<lambda>rid.
             pbind (create_text (x + 20) 520 ''W:0'' ''c'' (Some (''Helvetica'', 14)) (Some ''black'')) (\<lambda>wid.
             pseq (modify (\<lambda>s. s\<lparr>count_reads_id := (count_reads_id s)(i \<mapsto> rid),
                     count_writes_id := (count_writes_id s)(i \<mapsto> wid)\<rparr>))
               (return (x + (disk_width + 20))))))))))
       (modify (\<lambda>s. s\<lparr>do_animate := True, is_done := False\<rparr>)))))))"

text \<open>
  The whole constructor, from the stored arguments and the lines printed so far. \<open>None\<close>: the
  generation of the requests does not end.
\<close>

definition start_queue :: "(sim, unit) py" where
  "start_queue = modify (\<lambda>s. s\<lparr>request_queue := [], request_count := 0\<rparr>)"

definition raid_graphics_init ::
  "(nat \<Rightarrow> pyfloat) \<Rightarrow> setting \<Rightarrow> int \<Rightarrow> gline list \<Rightarrow> (sim, unit) outcome option" where
  "raid_graphics_init rand cf wnd out =
     (case pseq draw_layout (pseq draw_heads (pseq init_targets start_queue)) (blank_sim cf wnd out) of
        Raise e s \<Rightarrow> Some (Raise e s)
      | Ok _ s \<Rightarrow>
          (case make_queue rand s of
             None \<Rightarrow> None
           | Some (Raise e s') \<Rightarrow> Some (Raise e s')
           | Some (Ok _ s') \<Rightarrow>
               Some (pseq place_requests
                      (pbind draw_queue (\<lambda>_. init_counters)) s')))"

end
