(* ===== verification/Graphics_Sim.thy ===== *)
theory Graphics_Sim
  imports Graphics_Setup
begin

section \<open>The simulation loop\<close>

text \<open>
  The methods of class \<open>Raid\<close> of \<open>lecture-15/raid-graphics.py\<close> after the constructor: counters
  and colours, starting one I/O on a disk, the four schedulers, \<open>GetNextIOs\<close>, the animation tick,
  and the statistics. \<open>root.after(delay, self.Animate)\<close> adds a pending call.
\<close>

definition UpdateWriteCounter :: "int \<Rightarrow> int \<Rightarrow> (sim, unit) py" where
  "UpdateWriteCounter dsk how_much =
     pbind (gets count_writes) (\<lambda>m.
     pbind (py_lookup m dsk) (\<lambda>c.
     pseq (modify (\<lambda>s. s\<lparr>count_writes := (count_writes s)(dsk \<mapsto> c + how_much)\<rparr>)) (
     pbind (gets count_writes_id) (\<lambda>ids.
     pbind (py_lookup ids dsk) (\<lambda>ident.
     itemconfig_text ident (''W:'' @ show_int (c + how_much)))))))"

definition UpdateReadCounter :: "int \<Rightarrow> int \<Rightarrow> (sim, unit) py" where
  "UpdateReadCounter dsk how_much =
     pbind (gets count_reads) (\<lambda>m.
     pbind (py_lookup m dsk) (\<lambda>c.
     pseq (modify (\<lambda>s. s\<lparr>count_reads := (count_reads s)(dsk \<mapsto> c + how_much)\<rparr>)) (
     pbind (gets count_reads_id) (\<lambda>ids.
     pbind (py_lookup ids dsk) (\<lambda>ident.
     itemconfig_text ident (''R:'' @ show_int (c + how_much)))))))"

definition UpdateTime :: "(sim, unit) py" where
  "UpdateTime =
     pbind (gets timeID) (\<lambda>ident.
     pbind (gets timer) (\<lambda>t. itemconfig_text ident (''Time: '' @ show_int t)))"

definition BlockSetColor :: "int \<Rightarrow> int \<Rightarrow> string \<Rightarrow> (sim, unit) py" where
  "BlockSetColor dsk offset colour =
     pbind (gets disk_and_offset_to_rect_id) (\<lambda>m.
     pbind (py_lookup m (dsk, offset)) (\<lambda>block_id. itemconfig_fill block_id colour))"

definition QueueSetColor :: "nat \<Rightarrow> string \<Rightarrow> (sim, unit) py" where
  "QueueSetColor index fill_color =
     pbind (gets request_queue_box_ids) (\<lambda>boxes.
     pbind (py_getitem boxes (int index)) (\<lambda>box_id.
     pseq (itemconfig_fill box_id fill_color) (
     pbind (gets request_queue_counts) (\<lambda>cs.
     pbind (py_getitem cs (int index)) (\<lambda>c.
     pbind (py_setitem cs (int index) (c + 1)) (\<lambda>cs'.
     pseq (modify (\<lambda>s. s\<lparr>request_queue_counts := cs'\<rparr>)) (
     pbind (gets request_queue_count_ids) (\<lambda>ids.
     pbind (py_getitem ids (int index)) (\<lambda>count_id.
     itemconfig_text count_id (show_int (c + 1)))))))))))"

definition GetHeadPosition :: "int \<Rightarrow> (sim, int) py" where
  "GetHeadPosition dsk =
     pbind (gets head_position) (\<lambda>m. pbind (py_lookup m dsk) (\<lambda>p. return (pos_y1 p)))"

definition SetSeekDirection :: "int \<Rightarrow> int \<Rightarrow> (sim, unit) py" where
  "SetSeekDirection dsk dest_block =
     pbind (GetHeadPosition dsk) (\<lambda>y.
     pbind (gets block_offset) (\<lambda>m.
     pbind (py_lookup m (IntKey dest_block)) (\<lambda>target.
     pbind (gets seek_speed) (\<lambda>v.
     modify (\<lambda>s. s\<lparr>seek_delta := (seek_delta s)(dsk \<mapsto> (if y < target then v else - v))\<rparr>)))))"

definition StartRequest :: "int \<Rightarrow> int \<Rightarrow> int \<Rightarrow> nat \<Rightarrow> nat \<Rightarrow> string \<Rightarrow> (sim, unit) py" where
  "StartRequest dsk offset lba req queue_index fill_color =
     pseq (QueueSetColor queue_index fill_color) (
     pseq (modify (\<lambda>s. s\<lparr>disk_state := (disk_state s)(dsk \<mapsto> STATE_SEEK)\<rparr>)) (
     pseq (BlockSetColor dsk offset fill_color) (
     pseq (SetSeekDirection dsk lba) (
     pbind (gets current_target) (\<lambda>m.
     pbind (py_lookup m dsk) (\<lambda>cur.
     modify (\<lambda>s. s\<lparr>last_target := (last_target s)(dsk \<mapsto> cur),
                     current_target := (current_target s)(dsk \<mapsto> Some req)\<rparr>)))))))"

definition StartRead :: "int \<Rightarrow> int \<Rightarrow> int \<Rightarrow> nat \<Rightarrow> nat \<Rightarrow> (sim, unit) py" where
  "StartRead dsk offset lba req queue_index =
     pseq (modify (\<lambda>s. s\<lparr>current_optype := (current_optype s)(dsk \<mapsto> Some OP_READ)\<rparr>))
       (StartRequest dsk offset lba req queue_index ''orange'')"

definition StartWrite :: "int \<Rightarrow> int \<Rightarrow> int \<Rightarrow> nat \<Rightarrow> nat \<Rightarrow> (sim, unit) py" where
  "StartWrite dsk offset lba req queue_index =
     pseq (modify (\<lambda>s. s\<lparr>current_optype := (current_optype s)(dsk \<mapsto> Some OP_WRITE)\<rparr>))
       (StartRequest dsk offset lba req queue_index ''green'')"

subsection \<open>The schedulers\<close>

text \<open>
  What follows the guards of every branch: the start time (when the branch marks it), the new
  statuses in order, and the I/O.
\<close>

definition mark_start :: "nat \<Rightarrow> (sim, unit) py" where
  "mark_start index = pbind (gets timer) (\<lambda>t. on_request index (MarkStart t))"

definition set_status :: "nat \<Rightarrow> int \<Rightarrow> req_status \<Rightarrow> (sim, unit) py" where
  "set_status index i st = on_request index (SetStatus i st)"

definition start_read :: "int \<Rightarrow> nat \<Rightarrow> int \<Rightarrow> (sim, unit) py" where
  "start_read dsk index lba =
     pbind (on_request index GetPhysicalOffset) (\<lambda>offset. StartRead dsk offset lba index index)"

definition start_write :: "int \<Rightarrow> nat \<Rightarrow> int \<Rightarrow> (sim, unit) py" where
  "start_write dsk index lba =
     pbind (on_request index GetPhysicalOffset) (\<lambda>offset. StartWrite dsk offset lba index index)"

definition DoStripeScheduling :: "int \<Rightarrow> nat \<Rightarrow> (sim, unit) py" where
  "DoStripeScheduling dsk index =
     pbind (on_request index GetLogicalAddress) (\<lambda>lba.
     pbind (on_request index (GetStatus 0)) (\<lambda>st.
     pbind (if st = REQ_NOT_STARTED
            then pbind (gets disk_count) (\<lambda>n. pbind (py_mod lba n) (\<lambda>m. return (m = dsk)))
            else return False) (\<lambda>go.
     if go then
       pseq (mark_start index) (
       pbind (on_request index GetType) (\<lambda>oper.
         if oper = OP_READ
         then pseq (set_status index 0 REQ_DO_READ) (start_read dsk index lba)
         else pseq (set_status index 0 REQ_DO_WRITE) (start_write dsk index lba)))
     else return ())))"

text \<open>
  The position of the disk among the request's disks, if it has one: the guard and the
  assignment to \<open>disk_index\<close> of the schedulers with two disks.
\<close>

definition find_disk :: "int \<Rightarrow> int list \<Rightarrow> (sim, int option) py" where
  "find_disk dsk ds =
     pbind (py_getitem ds 0) (\<lambda>d0.
       if d0 = dsk then return (Some 0)
       else pbind (py_getitem ds 1) (\<lambda>d1. return (if d1 = dsk then Some 1 else None)))"

definition DoMirrorScheduling :: "int \<Rightarrow> nat \<Rightarrow> (sim, unit) py" where
  "DoMirrorScheduling dsk index =
     pbind (on_request index GetLogicalAddress) (\<lambda>lba.
     pbind (on_request index GetPhysicalDiskList) (\<lambda>ds.
     pbind (find_disk dsk ds) (\<lambda>which.
     case which of
       None \<Rightarrow> return ()
     | Some disk_index \<Rightarrow>
         pbind (on_request index (GetStatus disk_index)) (\<lambda>st.
         if st = REQ_NOT_STARTED then
           pseq (mark_start index) (
           pbind (on_request index GetType) (\<lambda>oper.
             if oper = OP_READ then
               pseq (set_status index disk_index REQ_DO_READ) (
               pseq (set_status index (1 - disk_index) REQ_DONE) (start_read dsk index lba))
             else
               pseq (set_status index disk_index REQ_DO_WRITE) (start_write dsk index lba)))
         else return ()))))"

text \<open>The subtractive write: a read of each disk, and then, once both are in, a write of each.\<close>

definition two_phase_write :: "int \<Rightarrow> nat \<Rightarrow> int \<Rightarrow> int \<Rightarrow> (sim, unit) py" where
  "two_phase_write dsk index lba disk_index =
     pbind (on_request index (GetStatus disk_index)) (\<lambda>st.
       if st = REQ_NOT_STARTED then
         pseq (mark_start index) (
         pseq (set_status index disk_index REQ_DO_READ) (start_read dsk index lba))
       else if st = REQ_PARITY_WRITE_PHASE_BEGIN then
         pseq (set_status index disk_index REQ_DO_WRITE) (start_write dsk index lba)
       else return ())"

definition full_stripe_step :: "int \<Rightarrow> nat \<Rightarrow> int \<Rightarrow> int \<Rightarrow> bool \<Rightarrow> (sim, unit) py" where
  "full_stripe_step dsk index lba disk_index do_parity =
     pbind (on_request index GetPhysicalOffset) (\<lambda>offset.
     pbind (on_request index (GetStatus disk_index)) (\<lambda>st.
       if do_parity = False \<and> st = REQ_NOT_STARTED then
         pseq (mark_start index) (
         pseq (set_status index disk_index REQ_DO_WRITE) (
         pseq (set_status index (1 - disk_index) REQ_DONE)
           (StartWrite dsk offset lba index index)))
       else if do_parity = True \<and> st = REQ_NOT_STARTED then
         pseq (mark_start index) (
         pseq (set_status index disk_index REQ_DO_WRITE)
           (StartWrite dsk offset lba index index))
       else return ()))"

definition DoRaid4Scheduling :: "int \<Rightarrow> nat \<Rightarrow> (sim, unit) py" where
  "DoRaid4Scheduling dsk index =
     pbind (on_request index GetLogicalAddress) (\<lambda>lba.
     pbind (on_request index GetType) (\<lambda>oper.
     pbind (if oper = OP_READ then
              pbind (on_request index (GetStatus 0)) (\<lambda>st.
                if st = REQ_NOT_STARTED
                then pbind (gets disk_count) (\<lambda>n. pbind (py_mod lba (n - 1)) (\<lambda>m. return (m = dsk)))
                else return False)
            else return False) (\<lambda>go_read.
     if go_read then
       pseq (mark_start index) (
       pseq (set_status index 0 REQ_DO_READ) (start_read dsk index lba))
     else if oper \<noteq> OP_WRITE then return ()
     else
       pbind (on_request index GetPhysicalDiskList) (\<lambda>ds.
       pbind (find_disk dsk ds) (\<lambda>which.
       case which of
         None \<Rightarrow> return ()
       | Some disk_index \<Rightarrow>
           pbind (on_request index FullStripeWriteStatus) (\<lambda>(full, do_parity).
             if full then full_stripe_step dsk index lba disk_index do_parity
             else two_phase_write dsk index lba disk_index))))))"

definition DoRaid5Scheduling :: "int \<Rightarrow> nat \<Rightarrow> (sim, unit) py" where
  "DoRaid5Scheduling dsk index =
     pbind (on_request index GetLogicalAddress) (\<lambda>lba.
     pbind (on_request index GetType) (\<lambda>oper.
     pbind (if oper = OP_READ then
              pbind (on_request index (GetStatus 0)) (\<lambda>st.
                if st = REQ_NOT_STARTED
                then pbind (on_request index GetPhysicalDiskList) (\<lambda>ds.
                       pbind (py_getitem ds 0) (\<lambda>d0. return (d0 = dsk)))
                else return False)
            else return False) (\<lambda>go_read.
     if go_read then
       pseq (mark_start index) (
       pseq (set_status index 0 REQ_DO_READ) (start_read dsk index lba))
     else if oper \<noteq> OP_WRITE then return ()
     else
       pbind (on_request index GetPhysicalDiskList) (\<lambda>ds.
       pbind (find_disk dsk ds) (\<lambda>which.
       case which of
         None \<Rightarrow> return ()
       | Some disk_index \<Rightarrow> two_phase_write dsk index lba disk_index)))))"

subsection \<open>Statistics and the scheduler\<close>

definition PrintStats :: "(sim, unit) py" where
  "PrintStats =
     pbind (gets timer) (\<lambda>t. pseq (gprint (StatTotalTime t)) (
     pbind (gets logical_requests) (\<lambda>n. pseq (gprint (StatRequests n)) (
     pbind (gets latency_total) (\<lambda>total.
       if fl_of_int n = 0 then raise ZeroDivisionError
       else gprint (StatAvgLatency (fl_div (fl_of_int total) (fl_of_int n))))))))"

text \<open>The dispatch on the mapping, for an idle disk.\<close>

definition schedule :: "int \<Rightarrow> nat \<Rightarrow> (sim, unit) py" where
  "schedule dsk index =
     pbind (gets mapping) (\<lambda>m.
       if m = 0 \<or> m = 1 \<or> m = 4 \<or> m = 5 then
         pbind (gets disk_state) (\<lambda>ds.
         pbind (py_lookup ds dsk) (\<lambda>st.
           if st = STATE_NULL then
             (if m = 0 then DoStripeScheduling dsk index
              else if m = 1 then DoMirrorScheduling dsk index
              else if m = 4 then DoRaid4Scheduling dsk index
              else DoRaid5Scheduling dsk index)
           else return ()))
       else return ())"

text \<open>One round of the inner loop, whose local variable is \<open>count\<close>.\<close>

definition window_step :: "int \<Rightarrow> nat \<Rightarrow> int \<Rightarrow> (sim, int) py" where
  "window_step dsk index count =
     pbind (gets window) (\<lambda>w.
       if w \<noteq> - 1 \<and> count \<ge> w then return count
       else pseq (schedule dsk index) (return (count + 1)))"

definition schedule_disk :: "int \<Rightarrow> (sim, unit) py" where
  "schedule_disk dsk =
     pbind queue_length (\<lambda>len.
     pbind (for_acc [0..<len] 0 (window_step dsk)) (\<lambda>count. return ()))"

definition GetNextIOs :: "(sim, unit) py" where
  "GetNextIOs =
     pbind (gets request_count) (\<lambda>c.
     pbind (gets request_count_needed) (\<lambda>needed.
       if c = needed then
         pseq UpdateTime (
         pseq PrintStats (
         modify (\<lambda>s. s\<lparr>do_animate := False, is_done := True\<rparr>)))
       else
         pbind (gets disk_count) (\<lambda>n.
         for_each (py_range 0 n) schedule_disk)))"

subsection \<open>One tick\<close>

definition MoveHead :: "int \<Rightarrow> (sim, unit) py" where
  "MoveHead dsk =
     pbind (gets head_position) (\<lambda>m.
     pbind (py_lookup m dsk) (\<lambda>p.
     pbind (gets seek_delta) (\<lambda>dm.
     pbind (py_lookup dm dsk) (\<lambda>delta.
     let p' = p\<lparr>pos_y1 := pos_y1 p + delta, pos_y2 := pos_y2 p + delta\<rparr> in
     pseq (modify (\<lambda>s. s\<lparr>head_position := (head_position s)(dsk \<mapsto> p')\<rparr>)) (
     pbind (gets head_ids) (\<lambda>ids.
     pbind (py_lookup ids dsk) (\<lambda>ident.
     canvas_coords ident [pos_x1 p', pos_y1 p', pos_x2 p', pos_y2 p'])))))))"

text \<open>
  \<open>self.current_target[disk]\<close> and a method of it. Before the first request the entry is the
  number \<open>-1\<close>, which has no such attribute.
\<close>

definition target_of :: "int \<Rightarrow> (sim, nat) py" where
  "target_of dsk =
     pbind (gets current_target) (\<lambda>m.
     pbind (py_lookup m dsk) (\<lambda>t.
       case t of None \<Rightarrow> raise AttributeError | Some q \<Rightarrow> return q))"

definition target_offset :: "int \<Rightarrow> (sim, int) py" where
  "target_offset dsk = pbind (target_of dsk) (\<lambda>q. on_request q GetPhysicalOffset)"

definition DoneWithSeek :: "int \<Rightarrow> (sim, bool) py" where
  "DoneWithSeek dsk =
     pbind (gets current_target) (\<lambda>m.
     pbind (py_lookup m dsk) (\<lambda>_.
     pbind (GetHeadPosition dsk) (\<lambda>y.
     pbind (target_offset dsk) (\<lambda>offset.
     pbind (gets offset_to_ypos) (\<lambda>ys.
     pbind (py_lookup ys offset) (\<lambda>target. return (y = target)))))))"

definition StartTransfer :: "int \<Rightarrow> (sim, unit) py" where
  "StartTransfer dsk =
     pbind (target_offset dsk) (\<lambda>offset_current.
     pbind (gets last_target) (\<lambda>m.
     pbind (py_lookup m dsk) (\<lambda>l.
     pbind (case l of None \<Rightarrow> return (- 1) | Some q \<Rightarrow> on_request q GetPhysicalOffset) (\<lambda>offset_last.
     modify (\<lambda>s. s\<lparr>transfer_count := (transfer_count s)(dsk \<mapsto>
       (if offset_current = offset_last + 1 then 1 else 10))\<rparr>)))))"

definition DoneWithTransfer :: "int \<Rightarrow> (sim, bool) py" where
  "DoneWithTransfer dsk =
     pbind (gets transfer_count) (\<lambda>m. pbind (py_lookup m dsk) (\<lambda>c. return (c = 0)))"

text \<open>
  \<open>MarkDone\<close>. At a mapping other than the four, \<open>request_done\<close> is an unassigned local.
\<close>

definition level_done :: "nat \<Rightarrow> int \<Rightarrow> (sim, bool \<times> int) py" where
  "level_done q dsk =
     pbind (gets mapping) (\<lambda>m.
     pbind (gets timer) (\<lambda>t.
       if m = 4 \<or> m = 5 then on_request q (RequestLevel4Done dsk t)
       else if m = 1 then on_request q (RequestLevel1Done dsk t)
       else if m = 0 then on_request q (RequestLevel0Done dsk t)
       else raise UnboundLocalError))"

definition MarkDone :: "int \<Rightarrow> (sim, unit) py" where
  "MarkDone dsk =
     pbind (target_of dsk) (\<lambda>q.
     pbind (gets current_optype) (\<lambda>m.
     pbind (py_lookup m dsk) (\<lambda>low_level_op_type.
     pseq (if low_level_op_type = Some OP_WRITE then UpdateWriteCounter dsk 1
           else if low_level_op_type = Some OP_READ then UpdateReadCounter dsk 1
           else return ()) (
     pbind (level_done q dsk) (\<lambda>(request_done, latency).
       if request_done then
         modify (\<lambda>s. s\<lparr>logical_requests := logical_requests s + 1,
           latency_total := latency_total s + latency,
           window := (if window s > 0 then window s + 1 else window s)\<rparr>)
       else return ())))))"

definition set_disk_state :: "int \<Rightarrow> activity \<Rightarrow> (sim, unit) py" where
  "set_disk_state dsk st = modify (\<lambda>s. s\<lparr>disk_state := (disk_state s)(dsk \<mapsto> st)\<rparr>)"

definition seek_step :: "int \<Rightarrow> (sim, unit) py" where
  "seek_step dsk =
     pbind (gets disk_state) (\<lambda>m. pbind (py_lookup m dsk) (\<lambda>st.
       if st = STATE_SEEK then
         pbind (DoneWithSeek dsk) (\<lambda>there.
           if there then
             pseq (set_disk_state dsk STATE_XFER) (
             pbind (target_offset dsk) (\<lambda>offset.
             pbind (gets disk_and_offset_to_rect_id) (\<lambda>rects.
             pbind (py_lookup rects (dsk, offset)) (\<lambda>block_id.
             StartTransfer dsk))))
           else MoveHead dsk)
       else return ()))"

definition complete_io :: "int \<Rightarrow> (sim, unit) py" where
  "complete_io dsk =
     pbind (target_offset dsk) (\<lambda>offset.
     pseq (MarkDone dsk) (
     pseq (modify (\<lambda>s. s\<lparr>request_count := request_count s + 1\<rparr>)) (
     pseq (set_disk_state dsk STATE_NULL) (
     pbind (target_offset dsk) (\<lambda>offset'.
     pbind (gets color_map) (\<lambda>colours.
     pbind (py_lookup colours (dsk, offset)) (\<lambda>colour.
     pseq (BlockSetColor dsk offset' colour) GetNextIOs)))))))"

definition transfer_step :: "int \<Rightarrow> (sim, unit) py" where
  "transfer_step dsk =
     pbind (gets disk_state) (\<lambda>m. pbind (py_lookup m dsk) (\<lambda>st.
       if st = STATE_XFER then
         pbind (gets transfer_count) (\<lambda>tm. pbind (py_lookup tm dsk) (\<lambda>c.
         pseq (modify (\<lambda>s. s\<lparr>transfer_count := (transfer_count s)(dsk \<mapsto> c - 1)\<rparr>)) (
         pbind (DoneWithTransfer dsk) (\<lambda>d. if d then complete_io dsk else return ()))))
       else return ()))"

definition root_after :: "(sim, unit) py" where
  "root_after = modify (\<lambda>s. s\<lparr>pending := pending s + 1\<rparr>)"

definition Animate :: "(sim, unit) py" where
  "Animate =
     pbind (gets do_animate) (\<lambda>go.
       if go = False then root_after
       else
         pseq (modify (\<lambda>s. s\<lparr>timer := timer s + 1\<rparr>)) (
         pseq UpdateTime (
         pbind (gets disk_count) (\<lambda>n.
         pseq (for_each (py_range 0 n) (\<lambda>dsk. pseq (seek_step dsk) (transfer_step dsk)))
           root_after))))"

subsection \<open>The keys\<close>

definition Start :: "(sim, unit) py" where
  "Start = pseq GetNextIOs Animate"

definition Pause :: "(sim, unit) py" where
  "Pause = modify (\<lambda>s. s\<lparr>do_animate := (if do_animate s = False then True else False)\<rparr>)"

definition Exit :: "(sim, unit) py" where
  "Exit = raise (SystemExit 0)"

end
