(* ===== verification/Graphics_Main.thy ===== *)
theory Graphics_Main
  imports Graphics_Sim
begin

section \<open>The script and Tk's event loop\<close>

text \<open>
  The end of \<open>lecture-15/raid-graphics.py\<close>: options, the check of the window, the constructor and
  \<open>mainloop\<close>. \<open>optparse\<close> is the standard library's: options arrive as a record of what it stores.
\<close>

subsection \<open>float of a string\<close>

text \<open>
  Decimal notation: a sign, digits with an optional point, an optional exponent, surrounded by
  white space; the value is the nearest double. Besides, the words \<open>inf\<close>, \<open>infinity\<close> and \<open>nan\<close>, with an
  optional sign. Letters may be of either case.
\<close>

definition lower :: "char \<Rightarrow> char" where
  "lower c = (let n = (of_char c :: nat) in if 65 \<le> n \<and> n \<le> 90 then char_of (n + 32) else c)"

definition opt_nat :: "string \<Rightarrow> nat option" where
  "opt_nat ds = (if ds = [] then Some 0 else digits_val 0 ds)"

definition split_sign :: "string \<Rightarrow> rat \<times> string" where
  "split_sign cs =
     (case cs of
        [] \<Rightarrow> (1, [])
      | c # ds \<Rightarrow> if c = CHR ''-'' then (- 1, ds) else if c = CHR ''+'' then (1, ds) else (1, cs))"

definition mantissa :: "string \<Rightarrow> rat option" where
  "mantissa cs =
     (case py_split (CHR ''.'') cs of
        [a] \<Rightarrow> map_option of_nat (nat_of_string a)
      | [a, b] \<Rightarrow>
          (if a = [] \<and> b = [] then None
           else (case (opt_nat a, opt_nat b) of
                   (Some x, Some y) \<Rightarrow> Some (of_nat x + of_nat y / 10 ^ length b)
                 | _ \<Rightarrow> None))
      | _ \<Rightarrow> None)"

definition exponent :: "string \<Rightarrow> int option" where
  "exponent cs =
     (case cs of
        [] \<Rightarrow> None
      | c # ds \<Rightarrow>
          (if c = CHR ''-'' then map_option (\<lambda>n. - int n) (nat_of_string ds)
           else if c = CHR ''+'' then map_option int (nat_of_string ds)
           else map_option int (nat_of_string cs)))"

definition float_of_string :: "string \<Rightarrow> xfloat option" where
  "float_of_string txt =
     (let (sgn, rest) = split_sign (strip txt); cs = map lower rest in
      if cs = ''inf'' \<or> cs = ''infinity'' then Some (if sgn < 0 then MinusInf else Inf)
      else if cs = ''nan'' then Some NaN
      else
        (case py_split (CHR ''e'') cs of
           [m] \<Rightarrow> map_option (\<lambda>x. to_double (sgn * x)) (mantissa m)
         | [m, e] \<Rightarrow>
             (case (mantissa m, exponent e) of
                (Some x, Some n) \<Rightarrow> Some (to_double (sgn * (x * 10 powi n)))
              | _ \<Rightarrow> None)
         | _ \<Rightarrow> None))"

subsection \<open>The main program\<close>

record goptions =
  go_seed :: int
  go_mapping :: int
  go_addr :: string
  go_read_fraction :: string
  go_addr_desc :: string
  go_balance :: bool
  go_seek_speed :: int
  go_policy :: string
  go_window :: int
  go_animate_delay :: int
  go_graphics :: bool
  go_compute :: bool
  go_print_options :: bool

definition default_goptions :: goptions where
  "default_goptions =
     \<lparr> go_seed = 0, go_mapping = 0, go_addr = '''', go_read_fraction = ''0.5'',
       go_addr_desc = ''5,-1,0'', go_balance = True, go_seek_speed = 4, go_policy = ''FIFO'',
       go_window = - 1, go_animate_delay = 20, go_graphics = True, go_compute = False,
       go_print_options = False \<rparr>"

definition show_flag :: "bool \<Rightarrow> string" where
  "show_flag b = (if b then ''True'' else ''False'')"

definition option_lines :: "goptions \<Rightarrow> gline list" where
  "option_lines opt =
     [OptionLine ''seed'' (show_int (go_seed opt)),
      OptionLine ''addr'' (go_addr opt),
      OptionLine ''addr_desc'' (go_addr_desc opt),
      OptionLine ''seek_speed'' (show_int (go_seek_speed opt)),
      OptionLine ''window'' (show_int (go_window opt)),
      OptionLine ''policy'' (go_policy opt),
      OptionLine ''compute'' (show_flag (go_compute opt)),
      OptionLine ''read_fraction'' (go_read_fraction opt),
      OptionLine ''graphics'' (show_flag (go_graphics opt)),
      OptionLine ''animate_delay'' (show_int (go_animate_delay opt)),
      BlankLine]"

text \<open>
  What the script comes to before \<open>d.Go()\<close>: the simulator, an exit with the lines printed so far,
  or a constructor that does not return.
\<close>

datatype launch = Ready sim | Died exn "gline list" | Diverges

definition launch_raid :: "(nat \<Rightarrow> pyfloat) \<Rightarrow> setting \<Rightarrow> int \<Rightarrow> gline list \<Rightarrow> launch" where
  "launch_raid rand cf wnd out =
     (case raid_graphics_init rand cf wnd out of
        None \<Rightarrow> Diverges
      | Some (Raise e s) \<Rightarrow> Died e (printed s)
      | Some (Ok _ s) \<Rightarrow> Ready s)"

definition graphics_main :: "goptions \<Rightarrow> (nat \<Rightarrow> pyfloat) \<Rightarrow> launch" where
  "graphics_main opt rand =
     (let out = (if go_print_options opt then option_lines opt else []) in
      if go_window opt = 0 then Died (SystemExit 1) (out @ [BadWindow (go_window opt)])
      else
        (case float_of_string (go_read_fraction opt) of
           None \<Rightarrow> Died ValueError out
         | Some rfrac \<Rightarrow>
             launch_raid rand
               \<lparr> mapping = go_mapping opt, addr_desc = go_addr_desc opt, addr = go_addr opt,
                 disk_count = 4, seek_speed = go_seek_speed opt, balance = go_balance opt,
                 read_fraction = rfrac, animate_delay = go_animate_delay opt \<rparr>
               (go_window opt) out))"

subsection \<open>The event loop\<close>

text \<open>
  \<open>Go\<close> runs \<open>mainloop\<close>, which calls the three bound keys and the pending calls of \<open>Animate\<close> in
  an order the user and the clock decide. An exception in a callback is reported and the loop
  goes on; \<open>SystemExit\<close> ends it.
\<close>

datatype event = Key_s | Key_p | Key_q | After

definition handle :: "event \<Rightarrow> (sim, unit) py" where
  "handle e =
     (case e of
        Key_s \<Rightarrow> Start
      | Key_p \<Rightarrow> Pause
      | Key_q \<Rightarrow> Exit
      | After \<Rightarrow> pseq (modify (\<lambda>s. s\<lparr>pending := pending s - 1\<rparr>)) Animate)"

inductive gui_step :: "sim \<Rightarrow> event \<Rightarrow> sim \<Rightarrow> bool" where
  gui_ok: "e = After \<longrightarrow> 0 < pending s \<Longrightarrow> handle e s = Ok () s' \<Longrightarrow> gui_step s e s'"
| gui_traceback: "e = After \<longrightarrow> 0 < pending s \<Longrightarrow> handle e s = Raise x s' \<Longrightarrow>
    (\<forall>c. x \<noteq> SystemExit c) \<Longrightarrow> gui_step s e s'"

inductive gui_reachable :: "sim \<Rightarrow> sim \<Rightarrow> bool" for s0 where
  gui_start: "gui_reachable s0 s0"
| gui_next: "gui_reachable s0 s \<Longrightarrow> gui_step s e s' \<Longrightarrow> gui_reachable s0 s'"

end
