(* ===== verification/Graphics_Machine.thy ===== *)
theory Graphics_Machine
  imports Graphics_Main
begin

section \<open>The decisions of the schedulers\<close>

text \<open>
  What a scheduler does to an idle disk and what a completed I/O does to its request, as
  functions of the request alone. \<open>decide\<close> gives the operation that starts and the new statuses;
  \<open>complete\<close> gives the statuses after an I/O and whether the request is reported as done. The
  lemmas show that the methods are these functions, on requests that have been placed.
\<close>

subsection \<open>Placed requests\<close>

text \<open>The disks and the row of a logical block, in each of the four mappings on four disks.\<close>

definition parity_column :: "int \<Rightarrow> int" where
  "parity_column row = 3 - row mod 4"

definition block_disks :: "int \<Rightarrow> int \<Rightarrow> int list" where
  "block_disks m lba =
     (if m = 0 then [lba mod 4]
      else if m = 1 then [2 * (lba mod 2), 2 * (lba mod 2) + 1]
      else if m = 4 then [lba mod 3, 3]
      else (let col = lba mod 3; p = parity_column (lba div 3)
            in [if col < p then col else col + 1, p]))"

definition block_row :: "int \<Rightarrow> int \<Rightarrow> int" where
  "block_row m lba = (if m = 0 then lba div 4 else if m = 1 then lba div 2 else lba div 3)"

definition block_limit :: "int \<Rightarrow> int" where
  "block_limit m = (if m = 0 then 80 else if m = 1 then 40 else 60)"

definition good_mapping :: "int \<Rightarrow> bool" where
  "good_mapping m \<longleftrightarrow> m = 0 \<or> m = 1 \<or> m = 4 \<or> m = 5"

definition placed :: "int \<Rightarrow> request \<Rightarrow> bool" where
  "placed m r \<longleftrightarrow>
     0 \<le> logical_address r \<and> logical_address r < block_limit m \<and>
     phys_disk_list r = Some (block_disks m (logical_address r)) \<and>
     phys_offset r = Some (block_row m (logical_address r)) \<and>
     (\<forall>i < length (block_disks m (logical_address r)).
        disk_to_index_map r (block_disks m (logical_address r) ! i) = Some (int i)) \<and>
     (\<exists>sts. status r = Some sts \<and> length sts = length (block_disks m (logical_address r)))"

abbreviation statuses :: "request \<Rightarrow> req_status list" where
  "statuses r \<equiv> the (status r)"

lemma good_mappingE:
  assumes "good_mapping m"
  obtains "m = 0" | "m = 1" | "m = 4" | "m = 5"
  using assms by (auto simp: good_mapping_def)

lemma length_block_disks: "length (block_disks m lba) = (if m = 0 then 1 else 2)"
  by (simp add: block_disks_def Let_def)

lemma mod_3_cases: "a mod (3 :: int) = 0 \<or> a mod 3 = 1 \<or> a mod 3 = 2"
  using pos_mod_bound [of 3 a] pos_mod_sign [of 3 a] by linarith

lemma mod_4_cases: "a mod (4 :: int) = 0 \<or> a mod 4 = 1 \<or> a mod 4 = 2 \<or> a mod 4 = 3"
  using pos_mod_bound [of 4 a] pos_mod_sign [of 4 a] by linarith

lemma block_disks_range: "d \<in> set (block_disks m lba) \<Longrightarrow> 0 \<le> d \<and> d < 4"
  unfolding block_disks_def parity_column_def Let_def
  by (auto split: if_splits; presburger)

lemma distinct_block_disks: "distinct (block_disks m lba)"
  unfolding block_disks_def parity_column_def Let_def by (auto; presburger)

lemma block_row_range:
  assumes "0 \<le> lba" "lba < block_limit m" "good_mapping m"
  shows "0 \<le> block_row m lba \<and> block_row m lba < 20"
  using assms(3)
  by (rule good_mappingE) (use assms in \<open>auto simp: block_row_def block_limit_def div_int_pos_iff\<close>)

subsection \<open>Decisions\<close>

definition do_op :: "optype \<Rightarrow> req_status" where
  "do_op oper = (case oper of OP_READ \<Rightarrow> REQ_DO_READ | OP_WRITE \<Rightarrow> REQ_DO_WRITE)"

text \<open>The position of a disk among the disks of a request.\<close>

definition position_of :: "int \<Rightarrow> int list \<Rightarrow> nat option" where
  "position_of d ds =
     (if ds ! 0 = d then Some 0 else if 1 < length ds \<and> ds ! 1 = d then Some 1 else None)"

definition decide :: "int \<Rightarrow> int \<Rightarrow> request \<Rightarrow> (optype \<times> req_status list) option" where
  "decide m d r =
     (case position_of d (block_disks m (logical_address r)) of
        None \<Rightarrow> None
      | Some i \<Rightarrow>
          (let sts = statuses r; j = 1 - i; oper = op_type r in
           if m = 0 then
             (if sts ! i = REQ_NOT_STARTED then Some (oper, sts[i := do_op oper]) else None)
           else if m = 1 then
             (if sts ! i = REQ_NOT_STARTED then
                Some (oper, if oper = OP_READ then sts[i := REQ_DO_READ, j := REQ_DONE]
                            else sts[i := REQ_DO_WRITE])
              else None)
           else if oper = OP_READ then
             (if i = 0 \<and> sts ! 0 = REQ_NOT_STARTED then Some (OP_READ, sts[0 := REQ_DO_READ]) else None)
           else if m = 4 \<and> full_stripe_write r then
             (if sts ! i = REQ_NOT_STARTED then
                Some (OP_WRITE, if full_stripe_write_parity r then sts[i := REQ_DO_WRITE]
                                else sts[i := REQ_DO_WRITE, j := REQ_DONE])
              else None)
           else if sts ! i = REQ_NOT_STARTED then Some (OP_READ, sts[i := REQ_DO_READ])
           else if sts ! i = REQ_PARITY_WRITE_PHASE_BEGIN then Some (OP_WRITE, sts[i := REQ_DO_WRITE])
           else None))"

definition complete :: "int \<Rightarrow> nat \<Rightarrow> request \<Rightarrow> req_status list \<times> bool" where
  "complete m i r =
     (let sts = statuses r; j = 1 - i in
      if m = 0 then
        (if sts ! i = REQ_DO_READ \<or> sts ! i = REQ_DO_WRITE then sts[i := REQ_DONE] else sts, True)
      else if m = 1 then
        (sts[i := REQ_DONE], sts ! i = REQ_DO_READ \<or> sts ! j = REQ_DONE)
      else if op_type r = OP_READ then (sts, True)
      else if sts ! i = REQ_DO_READ then
        (if sts ! j = REQ_PARITY_READ_PHASE_DONE
         then [REQ_PARITY_WRITE_PHASE_BEGIN, REQ_PARITY_WRITE_PHASE_BEGIN]
         else sts[i := REQ_PARITY_READ_PHASE_DONE], False)
      else (sts[i := REQ_DONE], sts ! j = REQ_DONE))"

subsection \<open>The tables the methods look up\<close>

definition tables_ok :: "sim \<Rightarrow> bool" where
  "tables_ok s \<longleftrightarrow>
     disk_count s = 4 \<and> good_mapping (mapping s) \<and>
     (\<forall>lba. 0 \<le> lba \<and> lba < block_limit (mapping s) \<longrightarrow>
        block_offset s (IntKey lba) = Some (20 * block_row (mapping s) lba + 100)) \<and>
     (\<forall>row. 0 \<le> row \<and> row < 20 \<longrightarrow> offset_to_ypos s row = Some (20 * row + 100)) \<and>
     (\<forall>d row. 0 \<le> d \<and> d < 4 \<and> 0 \<le> row \<and> row < 20 \<longrightarrow>
        disk_and_offset_to_rect_id s (d, row) \<noteq> None \<and> color_map s (d, row) \<noteq> None) \<and>
     (\<forall>d. 0 \<le> d \<and> d < 4 \<longrightarrow>
        head_ids s d \<noteq> None \<and> count_reads_id s d \<noteq> None \<and> count_writes_id s d \<noteq> None)"

definition entries_ok :: "sim \<Rightarrow> bool" where
  "entries_ok s \<longleftrightarrow>
     length (request_queue_box_ids s) = length (request_queue s) \<and>
     length (request_queue_count_ids s) = length (request_queue s) \<and>
     length (request_queue_counts s) = length (request_queue s) \<and>
     (\<forall>d. 0 \<le> d \<and> d < 4 \<longrightarrow>
        head_position s d \<noteq> None \<and> disk_state s d \<noteq> None \<and> last_target s d \<noteq> None \<and>
        current_target s d \<noteq> None \<and> current_optype s d \<noteq> None \<and> seek_delta s d \<noteq> None \<and>
        transfer_count s d \<noteq> None \<and> count_reads s d \<noteq> None \<and> count_writes s d \<noteq> None)"

definition requests_ok :: "sim \<Rightarrow> bool" where
  "requests_ok s \<longleftrightarrow> (\<forall>q < length (request_queue s). placed (mapping s) (request_queue s ! q))"

subsection \<open>Methods on a request\<close>

lemma on_request_apply:
  "q < length (request_queue s) \<Longrightarrow> m (request_queue s ! q) = Ok a r \<Longrightarrow>
   on_request q m s = Ok a (s\<lparr>request_queue := (request_queue s)[q := r]\<rparr>)"
  by (simp add: on_request_def)

lemma on_request_read:
  "q < length (request_queue s) \<Longrightarrow> m (request_queue s ! q) = Ok a (request_queue s ! q) \<Longrightarrow>
   on_request q m s = Ok a s"
  by (simp add: on_request_def)

lemma on_request_gets [simp]:
  assumes "q < length (request_queue s)"
  shows "on_request q GetLogicalAddress s = Ok (logical_address (request_queue s ! q)) s"
    "on_request q GetType s = Ok (op_type (request_queue s ! q)) s"
    "on_request q FullStripeWriteStatus s =
       Ok (full_stripe_write (request_queue s ! q), full_stripe_write_parity (request_queue s ! q)) s"
  using assms
  by (simp_all add: on_request_read GetLogicalAddress_def GetType_def FullStripeWriteStatus_def)

lemma on_request_attrs [simp]:
  assumes "q < length (request_queue s)"
  shows "phys_offset (request_queue s ! q) = Some off \<Longrightarrow> on_request q GetPhysicalOffset s = Ok off s"
    "phys_disk_list (request_queue s ! q) = Some ds \<Longrightarrow> on_request q GetPhysicalDiskList s = Ok ds s"
    "status (request_queue s ! q) = Some sts \<Longrightarrow> 0 \<le> i \<Longrightarrow> i < int (length sts) \<Longrightarrow>
       on_request q (GetStatus i) s = Ok (sts ! nat i) s"
  using assms
  by (simp_all add: on_request_read GetPhysicalOffset_def GetPhysicalDiskList_def GetStatus_def)

lemma set_status_apply:
  assumes "q < length (request_queue s)" "status (request_queue s ! q) = Some sts"
    and "0 \<le> i" "i < int (length sts)"
  shows "set_status q i st s = Ok () (s\<lparr>request_queue :=
    (request_queue s)[q := (request_queue s ! q)\<lparr>status := Some (sts[nat i := st])\<rparr>]\<rparr>)"
  using assms by (simp add: set_status_def on_request_apply SetStatus_def)

text \<open>The time a request's first I/O starts.\<close>

definition started_at :: "int \<Rightarrow> request \<Rightarrow> int" where
  "started_at t r = (if start_time r = - 1 then t else start_time r)"

lemma mark_start_apply:
  assumes "q < length (request_queue s)"
  shows "mark_start q s = Ok () (s\<lparr>request_queue :=
    (request_queue s)[q := (request_queue s ! q)\<lparr>start_time := started_at (timer s) (request_queue s ! q)\<rparr>]\<rparr>)"
  using assms
  by (simp add: mark_start_def on_request_apply MarkStart_def started_at_def)

text \<open>The start times that the start of an I/O may leave: noted now, or noted before.\<close>

definition noted :: "int \<Rightarrow> request \<Rightarrow> int \<Rightarrow> bool" where
  "noted now r t \<longleftrightarrow>
     t = started_at now r \<or> t = start_time r \<and> (\<exists>st \<in> set (statuses r). st \<noteq> REQ_NOT_STARTED)"

subsection \<open>Starting an I/O\<close>

definition config_item :: "int \<Rightarrow> (item \<Rightarrow> item) \<Rightarrow> item list \<Rightarrow> item list" where
  "config_item ident f cv =
     (if 1 \<le> ident \<and> ident \<le> int (length cv)
      then cv[nat (ident - 1) := f (cv ! nat (ident - 1))] else cv)"

lemma item_update_apply:
  "item_update ident f s = Ok () (s\<lparr>canvas := config_item ident f (canvas s)\<rparr>)"
  by (simp add: item_update_def config_item_def)

lemmas canvas_ops = itemconfig_fill_def itemconfig_text_def canvas_coords_def item_update_apply

definition seek_towards :: "sim \<Rightarrow> int \<Rightarrow> int \<Rightarrow> int" where
  "seek_towards s d row =
     (if pos_y1 (the (head_position s d)) < 20 * row + 100 then seek_speed s else - seek_speed s)"

definition launch_io :: "int \<Rightarrow> nat \<Rightarrow> optype \<Rightarrow> int \<Rightarrow> item list \<Rightarrow> sim \<Rightarrow> sim" where
  "launch_io d q oper row cv s =
     s\<lparr>canvas := cv,
       request_queue_counts := (request_queue_counts s)[q := request_queue_counts s ! q + 1],
       current_optype := (current_optype s)(d \<mapsto> Some oper),
       disk_state := (disk_state s)(d \<mapsto> STATE_SEEK),
       seek_delta := (seek_delta s)(d \<mapsto> seek_towards s d row),
       last_target := (last_target s)(d \<mapsto> the (current_target s d)),
       current_target := (current_target s)(d \<mapsto> Some q)\<rparr>"

definition start_op :: "optype \<Rightarrow> int \<Rightarrow> int \<Rightarrow> int \<Rightarrow> nat \<Rightarrow> nat \<Rightarrow> (sim, unit) py" where
  "start_op oper = (case oper of OP_READ \<Rightarrow> StartRead | OP_WRITE \<Rightarrow> StartWrite)"

lemma start_op_apply:
  assumes t: "tables_ok s" "entries_ok s" and q: "q < length (request_queue s)"
    and d: "0 \<le> d" "d < 4" and l: "0 \<le> lba" "lba < block_limit (mapping s)"
    and row: "row = block_row (mapping s) lba"
  shows "\<exists>cv. start_op oper d row lba q q s = Ok () (launch_io d q oper row cv s)"
proof -
  have r: "0 \<le> row" "row < 20"
    using block_row_range [of lba "mapping s"] l t(1) by (auto simp: row tables_ok_def)
  have len: "length (request_queue_box_ids s) = length (request_queue s)"
    "length (request_queue_count_ids s) = length (request_queue s)"
    "length (request_queue_counts s) = length (request_queue s)"
    using t(2) by (auto simp: entries_ok_def)
  have bo: "block_offset s (IntKey lba) = Some (20 * row + 100)" using t(1) l by (simp add: tables_ok_def row)
  obtain rid where rid: "disk_and_offset_to_rect_id s (d, row) = Some rid"
    using t(1) d r by (fastforce simp: tables_ok_def)
  obtain p where p: "head_position s d = Some p" using t(2) d by (fastforce simp: entries_ok_def)
  obtain cur where cur: "current_target s d = Some cur" using t(2) d by (fastforce simp: entries_ok_def)
  show ?thesis
    by (rule exI [where x = "canvas (final (start_op oper d row lba q q s))"], cases oper)
      (simp_all add: start_op_def StartRead_def StartWrite_def StartRequest_def QueueSetColor_def
        BlockSetColor_def SetSeekDirection_def GetHeadPosition_def canvas_ops len q bo rid p cur
        launch_io_def seek_towards_def)
qed

subsection \<open>The branches of the schedulers\<close>

lemma tables_ok_queue [simp]: "tables_ok (s\<lparr>request_queue := rs\<rparr>) = tables_ok s"
  by (simp add: tables_ok_def)

lemma entries_ok_queue [simp]:
  "length rs = length (request_queue s) \<Longrightarrow> entries_ok (s\<lparr>request_queue := rs\<rparr>) = entries_ok s"
  by (simp add: entries_ok_def)

text \<open>A request after an assignment of statuses, at a time that may have been noted now.\<close>

definition restatus :: "req_status list \<Rightarrow> int \<Rightarrow> request \<Rightarrow> request" where
  "restatus sts t r = r\<lparr>status := Some sts, start_time := t\<rparr>"

definition launched :: "int \<Rightarrow> nat \<Rightarrow> optype \<Rightarrow> req_status list \<Rightarrow> item list \<Rightarrow> int \<Rightarrow> sim \<Rightarrow> sim" where
  "launched d q oper sts cv t s =
     (let r = request_queue s ! q in
      launch_io d q oper (block_row (mapping s) (logical_address r)) cv
        (s\<lparr>request_queue := (request_queue s)[q := restatus sts t r]\<rparr>))"

definition ready :: "sim \<Rightarrow> int \<Rightarrow> nat \<Rightarrow> bool" where
  "ready s d q \<longleftrightarrow> tables_ok s \<and> entries_ok s \<and> requests_ok s \<and> q < length (request_queue s) \<and>
     0 \<le> d \<and> d < 4"

lemma readyD:
  assumes "ready s d q"
  shows "tables_ok s" "entries_ok s" "q < length (request_queue s)" "0 \<le> d" "d < 4"
    "placed (mapping s) (request_queue s ! q)" "good_mapping (mapping s)" "disk_count s = 4"
  using assms by (auto simp: ready_def requests_ok_def tables_ok_def)

lemma placedD:
  assumes "placed m r"
  shows "0 \<le> logical_address r" "logical_address r < block_limit m"
    "phys_disk_list r = Some (block_disks m (logical_address r))"
    "phys_offset r = Some (block_row m (logical_address r))"
    "status r = Some (statuses r)" "length (statuses r) = (if m = 0 then 1 else 2)"
  using assms by (auto simp: placed_def length_block_disks)

lemma restatus_queue:
  assumes r: "ready s d q" and x: "phys_offset x = phys_offset (request_queue s ! q)"
  shows "\<exists>cv. pbind (on_request q GetPhysicalOffset)
      (\<lambda>off. start_op oper d off (logical_address (request_queue s ! q)) q q)
      (s\<lparr>request_queue := (request_queue s)[q := x]\<rparr>) =
    Ok () (launch_io d q oper (block_row (mapping s) (logical_address (request_queue s ! q))) cv
      (s\<lparr>request_queue := (request_queue s)[q := x]\<rparr>))"
proof -
  note R = readyD [OF r] and P = placedD [OF readyD(6) [OF r]]
  let ?s = "s\<lparr>request_queue := (request_queue s)[q := x]\<rparr>"
  have "on_request q GetPhysicalOffset ?s = Ok (block_row (mapping s) (logical_address (request_queue s ! q))) ?s"
    using R(3) P(4) x by simp
  then show ?thesis
    using start_op_apply [of ?s q d "logical_address (request_queue s ! q)" _ oper] R P by simp
qed

lemma start_rw:
  "start_read d q lba = pbind (on_request q GetPhysicalOffset) (\<lambda>off. start_op OP_READ d off lba q q)"
  "start_write d q lba = pbind (on_request q GetPhysicalOffset) (\<lambda>off. start_op OP_WRITE d off lba q q)"
  by (simp_all add: start_read_def start_write_def start_op_def)

text \<open>The three sequences of assignments that precede a start.\<close>

lemma restatus_fold:
  "r\<lparr>start_time := t, status := Some x\<rparr> = restatus x t r"
  "restatus x t r\<lparr>status := Some y\<rparr> = restatus y t r"
  "restatus x (start_time r) r = r\<lparr>status := Some x\<rparr>"
  by (simp_all add: restatus_def)

lemma restatus_sel [simp]:
  "status (restatus x t r) = Some x" "phys_offset (restatus x t r) = phys_offset r"
  "phys_disk_list (restatus x t r) = phys_disk_list r" "op_type (restatus x t r) = op_type r"
  "logical_address (restatus x t r) = logical_address r"
  "disk_to_index_map (restatus x t r) = disk_to_index_map r"
  "full_stripe_write (restatus x t r) = full_stripe_write r"
  "full_stripe_write_parity (restatus x t r) = full_stripe_write_parity r"
  by (simp_all add: restatus_def)

lemma start_marked:
  assumes r: "ready s d q" and i: "i < length (statuses (request_queue s ! q))"
  shows "\<exists>cv t. noted (timer s) (request_queue s ! q) t \<and> pseq (mark_start q) (pseq (set_status q (int i) st)
      (pbind (on_request q GetPhysicalOffset)
        (\<lambda>off. start_op oper d off (logical_address (request_queue s ! q)) q q))) s =
    Ok () (launched d q oper ((statuses (request_queue s ! q))[i := st]) cv t s)"
proof -
  obtain sts where sts: "status (request_queue s ! q) = Some sts" using placedD(5) [OF readyD(6) [OF r]] by blast
  let ?t = "started_at (timer s) (request_queue s ! q)"
  have "pseq (mark_start q) (pseq (set_status q (int i) st) m) s =
    m (s\<lparr>request_queue := (request_queue s)[q := restatus (sts[i := st]) ?t (request_queue s ! q)]\<rparr>)" for m :: "(sim, unit) py"
    using readyD(3) [OF r] i sts by (simp add: mark_start_apply set_status_apply restatus_fold)
  then show ?thesis
    using restatus_queue [OF r, of "restatus (sts[i := st]) ?t (request_queue s ! q)" oper] sts
    by (auto simp: launched_def noted_def Let_def)
qed

lemma start_marked2:
  assumes r: "ready s d q" and i: "i < 2" and two: "length (statuses (request_queue s ! q)) = 2"
  shows "\<exists>cv t. noted (timer s) (request_queue s ! q) t \<and> pseq (mark_start q) (pseq (set_status q (int i) st) (pseq (set_status q (1 - int i) st')
      (pbind (on_request q GetPhysicalOffset)
        (\<lambda>off. start_op oper d off (logical_address (request_queue s ! q)) q q)))) s =
    Ok () (launched d q oper ((statuses (request_queue s ! q))[i := st, 1 - i := st']) cv t s)"
proof -
  obtain sts where sts: "status (request_queue s ! q) = Some sts" using placedD(5) [OF readyD(6) [OF r]] by blast
  have len: "length sts = 2" using two sts by simp
  have i01: "i = 0 \<or> i = 1" using i by auto
  let ?t = "started_at (timer s) (request_queue s ! q)"
  have "pseq (mark_start q) (pseq (set_status q (int i) st) (pseq (set_status q (1 - int i) st') m)) s =
    m (s\<lparr>request_queue := (request_queue s)[q := restatus (sts[i := st, 1 - i := st']) ?t (request_queue s ! q)]\<rparr>)" for m :: "(sim, unit) py"
    using i01 readyD(3) [OF r] sts len
    by (elim disjE) (simp_all add: mark_start_apply set_status_apply restatus_fold)
  then show ?thesis
    using restatus_queue [OF r, of "restatus (sts[i := st, 1 - i := st']) ?t (request_queue s ! q)" oper] sts
    by (auto simp: launched_def noted_def Let_def)
qed

lemma start_unmarked:
  assumes r: "ready s d q" and i: "i < length (statuses (request_queue s ! q))"
      "statuses (request_queue s ! q) ! i \<noteq> REQ_NOT_STARTED"
  shows "\<exists>cv t. noted (timer s) (request_queue s ! q) t \<and> pseq (set_status q (int i) st)
      (pbind (on_request q GetPhysicalOffset)
        (\<lambda>off. start_op oper d off (logical_address (request_queue s ! q)) q q)) s =
    Ok () (launched d q oper ((statuses (request_queue s ! q))[i := st]) cv t s)"
proof -
  obtain sts where sts: "status (request_queue s ! q) = Some sts" using placedD(5) [OF readyD(6) [OF r]] by blast
  let ?t = "start_time (request_queue s ! q)"
  have "pseq (set_status q (int i) st) m s =
    m (s\<lparr>request_queue := (request_queue s)[q := restatus (sts[i := st]) ?t (request_queue s ! q)]\<rparr>)" for m :: "(sim, unit) py"
    using readyD(3) [OF r] i sts by (simp add: set_status_apply restatus_fold)
  moreover have "noted (timer s) (request_queue s ! q) ?t" using i nth_mem by (force simp: noted_def)
  ultimately show ?thesis
    using restatus_queue [OF r, of "restatus (sts[i := st]) ?t (request_queue s ! q)" oper] sts
    by (auto simp: launched_def Let_def)
qed

subsection \<open>The schedulers are the decision\<close>

definition follows :: "(int \<Rightarrow> nat \<Rightarrow> (sim, unit) py) \<Rightarrow> int \<Rightarrow> nat \<Rightarrow> sim \<Rightarrow> bool" where
  "follows sched d q s \<longleftrightarrow>
     (case decide (mapping s) d (request_queue s ! q) of
        None \<Rightarrow> sched d q s = Ok () s
      | Some (oper, sts) \<Rightarrow> \<exists>cv t. noted (timer s) (request_queue s ! q) t \<and>
          sched d q s = Ok () (launched d q oper sts cv t s))"

lemma follows_cong: "f d q s = g d q s \<Longrightarrow> follows f d q s = follows g d q s"
  by (auto simp: follows_def split: option.split)

lemma find_disk_apply:
  "length ds = 2 \<Longrightarrow> find_disk d ds s = Ok (map_option int (position_of d ds)) s"
  by (simp add: find_disk_def position_of_def)

lemma position_of_less: "position_of d ds = Some i \<Longrightarrow> i < 2"
  by (auto simp: position_of_def split: if_splits)

lemma DoStripeScheduling_follows:
  assumes r: "ready s d q" and m: "mapping s = 0"
  shows "follows DoStripeScheduling d q s"
proof -
  let ?r = "request_queue s ! q"
  obtain sts where sts: "status ?r = Some sts" "length sts = 1"
    using placedD(5,6) [OF readyD(6) [OF r]] m by auto
  have go: "DoStripeScheduling d q s =
    (if sts ! 0 = REQ_NOT_STARTED \<and> logical_address ?r mod 4 = d
     then pseq (mark_start q) (pseq (set_status q (int 0) (do_op (op_type ?r)))
       (pbind (on_request q GetPhysicalOffset) (\<lambda>off. start_op (op_type ?r) d off (logical_address ?r) q q))) s
     else Ok () s)"
    using readyD(3,8) [OF r] sts
    by (cases "op_type ?r") (auto simp: DoStripeScheduling_def start_rw do_op_def mark_start_apply)
  show ?thesis
    using start_marked [OF r, of 0 "do_op (op_type ?r)" "op_type ?r"] sts m
    by (auto simp: follows_def decide_def go position_of_def block_disks_def Let_def)
qed

lemma DoMirrorScheduling_follows:
  assumes r: "ready s d q" and m: "mapping s = 1"
  shows "follows DoMirrorScheduling d q s"
proof -
  let ?r = "request_queue s ! q" and ?ds = "block_disks (mapping s) (logical_address (request_queue s ! q))"
  obtain sts where sts: "status ?r = Some sts" "length sts = 2"
    using placedD(5,6) [OF readyD(6) [OF r]] m by auto
  have ds: "phys_disk_list ?r = Some ?ds" "length ?ds = 2"
    using placedD(3) [OF readyD(6) [OF r]] m by (simp_all add: length_block_disks)
  show ?thesis
  proof (cases "position_of d ?ds")
    case None
    then show ?thesis
      using readyD(3) [OF r] ds by (simp add: follows_def decide_def DoMirrorScheduling_def find_disk_apply)
  next
    case (Some i)
    then have i: "i < 2" by (rule position_of_less)
    have go: "DoMirrorScheduling d q s =
      (if sts ! i = REQ_NOT_STARTED then
         (if op_type ?r = OP_READ then
            pseq (mark_start q) (pseq (set_status q (int i) REQ_DO_READ) (pseq (set_status q (1 - int i) REQ_DONE)
              (pbind (on_request q GetPhysicalOffset) (\<lambda>off. start_op OP_READ d off (logical_address ?r) q q)))) s
          else
            pseq (mark_start q) (pseq (set_status q (int i) REQ_DO_WRITE)
              (pbind (on_request q GetPhysicalOffset) (\<lambda>off. start_op OP_WRITE d off (logical_address ?r) q q))) s)
       else Ok () s)"
      using readyD(3) [OF r] sts ds Some i
      by (cases "op_type ?r")
        (auto simp: DoMirrorScheduling_def find_disk_apply start_rw mark_start_apply)
    have two: "length (statuses ?r) = 2" "i < length (statuses ?r)" using sts i by auto
    show ?thesis
      using start_marked2 [OF r i two(1), of REQ_DO_READ REQ_DONE OP_READ]
        start_marked [OF r two(2), of REQ_DO_WRITE OP_WRITE] sts m Some
      by (cases "op_type ?r") (auto simp: follows_def decide_def go Let_def)
  qed
qed

lemma two_phase_write_apply:
  assumes r: "ready s d q" and i: "i < 2" and sts: "status (request_queue s ! q) = Some sts" "length sts = 2"
  shows "case (if sts ! i = REQ_NOT_STARTED then Some (OP_READ, sts[i := REQ_DO_READ])
        else if sts ! i = REQ_PARITY_WRITE_PHASE_BEGIN then Some (OP_WRITE, sts[i := REQ_DO_WRITE])
        else None) of
      None \<Rightarrow> two_phase_write d q (logical_address (request_queue s ! q)) (int i) s = Ok () s
    | Some (oper, sts') \<Rightarrow> \<exists>cv t. noted (timer s) (request_queue s ! q) t \<and> two_phase_write d q (logical_address (request_queue s ! q)) (int i) s =
        Ok () (launched d q oper sts' cv t s)"
proof -
  let ?r = "request_queue s ! q"
  have go: "two_phase_write d q (logical_address ?r) (int i) s =
    (if sts ! i = REQ_NOT_STARTED then
       pseq (mark_start q) (pseq (set_status q (int i) REQ_DO_READ)
         (pbind (on_request q GetPhysicalOffset) (\<lambda>off. start_op OP_READ d off (logical_address ?r) q q))) s
     else if sts ! i = REQ_PARITY_WRITE_PHASE_BEGIN then
       pseq (set_status q (int i) REQ_DO_WRITE)
         (pbind (on_request q GetPhysicalOffset) (\<lambda>off. start_op OP_WRITE d off (logical_address ?r) q q)) s
     else Ok () s)"
    using readyD(3) [OF r] sts i by (simp add: two_phase_write_def start_rw)
  have "i < length (statuses ?r)" using sts i by simp
  from start_marked [OF r this, of REQ_DO_READ OP_READ] start_unmarked [OF r this, of REQ_DO_WRITE OP_WRITE]
  show ?thesis using sts by (auto simp: go)
qed

lemma full_stripe_step_apply:
  assumes r: "ready s d q" and i: "i < 2" and sts: "status (request_queue s ! q) = Some sts" "length sts = 2"
  shows "if sts ! i = REQ_NOT_STARTED
    then \<exists>cv t. noted (timer s) (request_queue s ! q) t \<and> full_stripe_step d q (logical_address (request_queue s ! q)) (int i) p s =
      Ok () (launched d q OP_WRITE (if p then sts[i := REQ_DO_WRITE]
        else sts[i := REQ_DO_WRITE, 1 - i := REQ_DONE]) cv t s)
    else full_stripe_step d q (logical_address (request_queue s ! q)) (int i) p s = Ok () s"
proof -
  let ?r = "request_queue s ! q" and ?off = "block_row (mapping s) (logical_address (request_queue s ! q))"
  note P = placedD(4) [OF readyD(6) [OF r]]
  have off: "on_request q GetPhysicalOffset s = Ok ?off s" using readyD(3) [OF r] P by simp
  have st: "on_request q (GetStatus (int i)) s = Ok (sts ! i) s" using readyD(3) [OF r] sts i by simp
  have i01: "i = 0 \<or> i = 1" using i by auto
  have off': "on_request q GetPhysicalOffset t = Ok ?off t"
    if "t = s\<lparr>request_queue := (request_queue s)[q := x]\<rparr>" "phys_offset x = Some ?off" for t x
    using that readyD(3) [OF r] by simp
  have go1: "full_stripe_step d q (logical_address ?r) (int i) False s =
      pseq (mark_start q) (pseq (set_status q (int i) REQ_DO_WRITE) (pseq (set_status q (1 - int i) REQ_DONE)
        (pbind (on_request q GetPhysicalOffset) (\<lambda>off. start_op OP_WRITE d off (logical_address ?r) q q)))) s"
    if "sts ! i = REQ_NOT_STARTED"
    using that i01 readyD(3) [OF r] sts P
    by (elim disjE) (simp_all add: full_stripe_step_def off st start_op_def mark_start_apply set_status_apply)
  have go2: "full_stripe_step d q (logical_address ?r) (int i) True s =
      pseq (mark_start q) (pseq (set_status q (int i) REQ_DO_WRITE)
        (pbind (on_request q GetPhysicalOffset) (\<lambda>off. start_op OP_WRITE d off (logical_address ?r) q q))) s"
    if "sts ! i = REQ_NOT_STARTED"
    using that i01 readyD(3) [OF r] sts P
    by (elim disjE) (simp_all add: full_stripe_step_def off st start_op_def mark_start_apply set_status_apply)
  have go3: "full_stripe_step d q (logical_address ?r) (int i) p s = Ok () s"
    if "sts ! i \<noteq> REQ_NOT_STARTED"
    using that by (simp add: full_stripe_step_def off st)
  have two: "length (statuses ?r) = 2" "i < length (statuses ?r)" using sts i by auto
  show ?thesis
    using start_marked2 [OF r i two(1), of REQ_DO_WRITE REQ_DONE OP_WRITE]
      start_marked [OF r two(2), of REQ_DO_WRITE OP_WRITE] sts go1 go2 go3
    by (cases p) auto
qed

abbreviation parity_scheduling :: "int \<Rightarrow> int \<Rightarrow> nat \<Rightarrow> (sim, unit) py" where
  "parity_scheduling m \<equiv> (if m = 4 then DoRaid4Scheduling else DoRaid5Scheduling)"

lemma parity_ready:
  assumes r: "ready s d q" and m: "mapping s = 4 \<or> mapping s = 5"
  obtains sts where "status (request_queue s ! q) = Some sts" "length sts = 2"
    and "phys_disk_list (request_queue s ! q) = Some (block_disks (mapping s) (logical_address (request_queue s ! q)))"
proof -
  obtain sts where "status (request_queue s ! q) = Some sts" "length sts = 2"
    using placedD(5,6) [OF readyD(6) [OF r]] m by auto
  then show ?thesis using that placedD(3) [OF readyD(6) [OF r]] by blast
qed

lemma parity_read_follows:
  assumes r: "ready s d q" and m: "mapping s = 4 \<or> mapping s = 5" and o: "op_type (request_queue s ! q) = OP_READ"
  shows "follows (parity_scheduling (mapping s)) d q s"
proof -
  let ?r = "request_queue s ! q" and ?ds = "block_disks (mapping s) (logical_address (request_queue s ! q))"
  obtain sts where sts: "status ?r = Some sts" "length sts = 2" "phys_disk_list ?r = Some ?ds"
    by (rule parity_ready [OF r m])
  have ds: "length ?ds = 2" "mapping s = 4 \<Longrightarrow> ?ds ! 0 = logical_address ?r mod 3"
    using m by (auto simp: length_block_disks) (simp add: block_disks_def)
  have go: "parity_scheduling (mapping s) d q s =
      (if sts ! 0 = REQ_NOT_STARTED \<and> ?ds ! 0 = d
       then pseq (mark_start q) (pseq (set_status q (int 0) REQ_DO_READ)
         (pbind (on_request q GetPhysicalOffset) (\<lambda>off. start_op OP_READ d off (logical_address ?r) q q))) s
       else Ok () s)"
    using readyD(3,8) [OF r] sts ds o by (auto simp: DoRaid4Scheduling_def DoRaid5Scheduling_def start_rw)
  have l: "0 < length (statuses ?r)" using sts by simp
  have dec: "decide (mapping s) d ?r = (if sts ! 0 = REQ_NOT_STARTED \<and> ?ds ! 0 = d
        then Some (OP_READ, sts[0 := REQ_DO_READ]) else None)"
    using sts m o by (elim disjE) (simp_all add: decide_def position_of_def)
  show ?thesis
    using start_marked [OF r l, of REQ_DO_READ OP_READ] sts by (simp add: follows_def dec go)
qed

lemma parity_write_follows:
  assumes r: "ready s d q" and m: "mapping s = 4 \<or> mapping s = 5" and o: "op_type (request_queue s ! q) = OP_WRITE"
  shows "follows (parity_scheduling (mapping s)) d q s"
proof -
  let ?r = "request_queue s ! q" and ?ds = "block_disks (mapping s) (logical_address (request_queue s ! q))"
  obtain sts where sts: "status ?r = Some sts" "length sts = 2" "phys_disk_list ?r = Some ?ds"
    by (rule parity_ready [OF r m])
  have "length ?ds = 2" using m by (auto simp: length_block_disks)
  note base = readyD(3,8) [OF r] sts this o
  show ?thesis
  proof (cases "position_of d ?ds")
    case None
    then show ?thesis
      using base m
      by (elim disjE)
        (simp_all add: follows_def decide_def DoRaid4Scheduling_def DoRaid5Scheduling_def find_disk_apply)
  next
    case (Some i)
    then have i: "i < 2" by (rule position_of_less)
    have go4: "mapping s = 4 \<Longrightarrow> DoRaid4Scheduling d q s =
        (if full_stripe_write ?r
         then full_stripe_step d q (logical_address ?r) (int i) (full_stripe_write_parity ?r) s
         else two_phase_write d q (logical_address ?r) (int i) s)"
      and go5: "mapping s = 5 \<Longrightarrow> DoRaid5Scheduling d q s = two_phase_write d q (logical_address ?r) (int i) s"
      using base Some by (simp_all add: DoRaid4Scheduling_def DoRaid5Scheduling_def find_disk_apply)
    show ?thesis
      using full_stripe_step_apply [OF r i sts(1,2), of "full_stripe_write_parity ?r"]
        two_phase_write_apply [OF r i sts(1,2)] sts m Some o
      by (auto simp: follows_def decide_def go4 go5 Let_def split: if_splits; blast)
  qed
qed

lemma parity_scheduling_follows:
  "ready s d q \<Longrightarrow> mapping s = 4 \<or> mapping s = 5 \<Longrightarrow> follows (parity_scheduling (mapping s)) d q s"
  using parity_read_follows [of s d q] parity_write_follows [of s d q] by (cases "op_type (request_queue s ! q)") blast+

subsection \<open>The dispatcher\<close>

text \<open>
  The contract between the dispatcher and a scheduler: on its mapping the scheduler is the one that
  is called, and it does what \<open>decide\<close> says.
\<close>

locale scheduler =
  fixes m :: int
    and sched :: "int \<Rightarrow> nat \<Rightarrow> (sim, unit) py"
  assumes sched_follows: "ready s d q \<Longrightarrow> mapping s = m \<Longrightarrow> follows sched d q s"
    and sched_called: "mapping s = m \<Longrightarrow> disk_state s d = Some STATE_NULL \<Longrightarrow> schedule d q s = sched d q s"
begin

lemma schedule_follows:
  "ready s d q \<Longrightarrow> mapping s = m \<Longrightarrow> disk_state s d = Some STATE_NULL \<Longrightarrow> follows schedule d q s"
  using sched_follows sched_called follows_cong [of schedule d q s sched] by simp

end

interpretation striping: scheduler 0 DoStripeScheduling
  by unfold_locales (simp_all add: DoStripeScheduling_follows schedule_def)

interpretation mirroring: scheduler 1 DoMirrorScheduling
  by unfold_locales (simp_all add: DoMirrorScheduling_follows schedule_def)

interpretation raid4: scheduler 4 DoRaid4Scheduling
proof unfold_locales
  fix s d q assume "ready s d q" "mapping s = 4"
  then show "follows DoRaid4Scheduling d q s" using parity_scheduling_follows [of s d q] by simp
qed (simp add: schedule_def)

interpretation raid5: scheduler 5 DoRaid5Scheduling
proof unfold_locales
  fix s d q assume "ready s d q" "mapping s = 5"
  then show "follows DoRaid5Scheduling d q s" using parity_scheduling_follows [of s d q] by simp
qed (simp add: schedule_def)

lemma schedule_idle:
  assumes r: "ready s d q" and "disk_state s d = Some STATE_NULL"
  shows "follows schedule d q s"
  using readyD(7) [OF r]
  by (rule good_mappingE)
    (use assms striping.schedule_follows mirroring.schedule_follows raid4.schedule_follows raid5.schedule_follows in blast)+

lemma schedule_busy:
  assumes r: "ready s d q" and "disk_state s d \<noteq> Some STATE_NULL"
  shows "schedule d q s = Ok () s"
proof -
  obtain st where "disk_state s d = Some st" using readyD(2,4,5) [OF r] by (fastforce simp: entries_ok_def)
  then show ?thesis using assms(2) readyD(7) [OF r] by (auto simp: schedule_def good_mapping_def)
qed

subsection \<open>Completion\<close>

text \<open>A disk that has an I/O in flight for a request: its status there says which.\<close>

definition in_flight_at :: "int \<Rightarrow> nat \<Rightarrow> request \<Rightarrow> bool" where
  "in_flight_at m i r \<longleftrightarrow> statuses r ! i = REQ_DO_READ \<or> statuses r ! i = REQ_DO_WRITE"

lemma index_of_disk_apply:
  "disk_to_index_map r d = Some i \<Longrightarrow> index_of_disk d r = Ok i r"
  by (simp add: index_of_disk_def)

lemma GetStatus_apply:
  "status r = Some sts \<Longrightarrow> 0 \<le> i \<Longrightarrow> i < int (length sts) \<Longrightarrow> GetStatus i r = Ok (sts ! nat i) r"
  by (simp add: GetStatus_def)

lemma SetStatus_apply:
  "status r = Some sts \<Longrightarrow> 0 \<le> i \<Longrightarrow> i < int (length sts) \<Longrightarrow>
   SetStatus i st r = Ok () (r\<lparr>status := Some (sts[nat i := st])\<rparr>)"
  by (simp add: SetStatus_def)

lemmas request_ops = index_of_disk_apply GetStatus_apply SetStatus_apply finished_def GetType_def

text \<open>The second result of a completion: the latency of a request that is reported, -1 otherwise.\<close>

definition latency_of :: "int \<Rightarrow> request \<Rightarrow> bool \<Rightarrow> int" where
  "latency_of t r rep = (if rep then t - start_time r else - 1)"

lemma RequestLevel0Done_apply:
  assumes "status r = Some [st]" "disk_to_index_map r d = Some 0"
  shows "RequestLevel0Done d t r =
    Ok (True, t - start_time r) (r\<lparr>status := Some (fst (complete 0 0 r))\<rparr>) \<and> snd (complete 0 0 r)"
  using assms by (simp add: RequestLevel0Done_def request_ops complete_def)

lemma RequestLevel1Done_apply:
  assumes st: "status r = Some sts" "length sts = 2" and i: "i < 2" "disk_to_index_map r d = Some (int i)"
    and f: "in_flight_at 1 i r"
  shows "RequestLevel1Done d t r =
    Ok (snd (complete 1 i r), latency_of t r (snd (complete 1 i r))) (r\<lparr>status := Some (fst (complete 1 i r))\<rparr>)"
proof -
  obtain a b where ab: "sts = [a, b]" using st(2) by (auto simp: length_Suc_conv numeral_2_eq_2)
  have "i = 0 \<or> i = 1" using i(1) by auto
  then show ?thesis
    using st(1) i(2) f unfolding ab
    by (elim disjE) (auto simp: RequestLevel1Done_def request_ops complete_def in_flight_at_def latency_of_def)
qed

lemma RequestLevel4Done_read:
  assumes "status r = Some [a, b]" "disk_to_index_map r d = Some (int i)" "op_type r = OP_WRITE"
    and "i = 0 \<and> a = REQ_DO_READ \<and> x = b \<or> i = 1 \<and> b = REQ_DO_READ \<and> x = a"
  shows "RequestLevel4Done d t r = Ok (False, - 1) (r\<lparr>status := Some
    (if x = REQ_PARITY_READ_PHASE_DONE then [REQ_PARITY_WRITE_PHASE_BEGIN, REQ_PARITY_WRITE_PHASE_BEGIN]
     else [a, b][i := REQ_PARITY_READ_PHASE_DONE])\<rparr>)"
proof (cases "x = REQ_PARITY_READ_PHASE_DONE")
  case True
  show ?thesis using assms(4)
    by (elim disjE conjE) (use assms(1-3) True in \<open>simp_all add: RequestLevel4Done_def request_ops\<close>)
next
  case False
  show ?thesis using assms(4)
    by (elim disjE conjE) (use assms(1-3) False in \<open>simp_all add: RequestLevel4Done_def request_ops\<close>)
qed

lemma RequestLevel4Done_write:
  assumes "status r = Some [a, b]" "disk_to_index_map r d = Some (int i)" "op_type r = OP_WRITE"
    and "i = 0 \<and> a = REQ_DO_WRITE \<and> x = b \<or> i = 1 \<and> b = REQ_DO_WRITE \<and> x = a"
  shows "RequestLevel4Done d t r =
    Ok (x = REQ_DONE, if x = REQ_DONE then t - start_time r else - 1) (r\<lparr>status := Some ([a, b][i := REQ_DONE])\<rparr>)"
proof (cases "x = REQ_DONE")
  case True
  show ?thesis using assms(4)
    by (elim disjE conjE) (use assms(1-3) True in \<open>simp_all add: RequestLevel4Done_def request_ops\<close>)
next
  case False
  show ?thesis using assms(4)
    by (elim disjE conjE) (use assms(1-3) False in \<open>simp_all add: RequestLevel4Done_def request_ops\<close>)
qed

lemma RequestLevel4Done_apply:
  assumes st: "status r = Some sts" "length sts = 2" and i: "i < 2" "disk_to_index_map r d = Some (int i)"
    and f: "in_flight_at m i r" and m: "m = 4 \<or> m = 5"
  shows "RequestLevel4Done d t r =
    Ok (snd (complete m i r), latency_of t r (snd (complete m i r))) (r\<lparr>status := Some (fst (complete m i r))\<rparr>)"
proof -
  obtain a b where ab: "sts = [a, b]" using st(2) by (auto simp: length_Suc_conv numeral_2_eq_2)
  have i01: "i = 0 \<or> i = 1" using i(1) by auto
  have same: "r\<lparr>status := Some [a, b]\<rparr> = r" using st(1) ab by (cases r) simp
  have mm: "m \<noteq> 0" "m \<noteq> 1" using m by auto
  show ?thesis
  proof (cases "op_type r")
    case OP_READ
    then show ?thesis using i01 st(1) i(2) mm same unfolding ab
      by (elim disjE) (simp_all add: RequestLevel4Done_def request_ops complete_def latency_of_def)
  next
    case OP_WRITE
    define x where "x = [a, b] ! (1 - i)"
    have st': "status r = Some [a, b]" using st(1) ab by simp
    from f consider (rd) "[a, b] ! i = REQ_DO_READ" | (wr) "[a, b] ! i = REQ_DO_WRITE"
      by (auto simp: in_flight_at_def st')
    then show ?thesis
    proof cases
      case rd
      then have "i = 0 \<and> a = REQ_DO_READ \<and> x = b \<or> i = 1 \<and> b = REQ_DO_READ \<and> x = a"
        using i01 by (auto simp: x_def)
      from RequestLevel4Done_read [OF st' i(2) OP_WRITE this] show ?thesis
        using mm OP_WRITE rd by (simp add: complete_def st' x_def Let_def latency_of_def)
    next
      case wr
      then have "i = 0 \<and> a = REQ_DO_WRITE \<and> x = b \<or> i = 1 \<and> b = REQ_DO_WRITE \<and> x = a"
        using i01 by (auto simp: x_def)
      from RequestLevel4Done_write [OF st' i(2) OP_WRITE this] show ?thesis
        using mm OP_WRITE wr by (simp add: complete_def st' x_def Let_def latency_of_def)
    qed
  qed
qed

text \<open>The contract between \<open>MarkDone\<close> and the completion of a request at one mapping.\<close>

locale completion =
  fixes m :: int
    and request_done :: "int \<Rightarrow> int \<Rightarrow> (request, bool \<times> int) py"
  assumes done_completes:
      "status r = Some sts \<Longrightarrow> length sts = (if m = 0 then 1 else 2) \<Longrightarrow> i < length sts \<Longrightarrow>
       disk_to_index_map r d = Some (int i) \<Longrightarrow> in_flight_at m i r \<Longrightarrow>
       request_done d t r = Ok (snd (complete m i r), latency_of t r (snd (complete m i r)))
         (r\<lparr>status := Some (fst (complete m i r))\<rparr>)"
    and done_called: "mapping s = m \<Longrightarrow> level_done q d s = on_request q (request_done d (timer s)) s"
begin

lemma level_done_completes:
  assumes r: "ready s d q" and i: "position_of d (block_disks (mapping s) (logical_address (request_queue s ! q))) = Some i"
    and f: "in_flight_at (mapping s) i (request_queue s ! q)" and m: "mapping s = m"
  shows "level_done q d s =
    Ok (snd (complete (mapping s) i (request_queue s ! q)),
        latency_of (timer s) (request_queue s ! q) (snd (complete (mapping s) i (request_queue s ! q))))
      (s\<lparr>request_queue := (request_queue s)[q :=
        restatus (fst (complete (mapping s) i (request_queue s ! q))) (start_time (request_queue s ! q))
          (request_queue s ! q)]\<rparr>)"
proof -
  let ?r = "request_queue s ! q" and ?ds = "block_disks (mapping s) (logical_address (request_queue s ! q))"
  have q: "q < length (request_queue s)" using readyD(3) [OF r] .
  obtain sts where sts: "status ?r = Some sts" "length sts = (if m = 0 then 1 else 2)"
    using placedD(5,6) [OF readyD(6) [OF r]] m by auto
  have ds: "i < length ?ds" "?ds ! i = d"
    using i by (auto simp: position_of_def length_block_disks split: if_splits)
  have "disk_to_index_map ?r d = Some (int i)" using readyD(6) [OF r] ds by (auto simp: placed_def)
  moreover have "i < length sts" using ds(1) sts(2) m by (simp add: length_block_disks)
  ultimately have "request_done d (timer s) ?r = Ok (snd (complete m i ?r), latency_of (timer s) ?r (snd (complete m i ?r)))
      (?r\<lparr>status := Some (fst (complete m i ?r))\<rparr>)"
    using done_completes sts f m by blast
  then show ?thesis using done_called [OF m] on_request_apply [OF q] m by (simp add: restatus_fold)
qed

end

interpretation striping: completion 0 RequestLevel0Done
proof unfold_locales
  fix r :: request and sts i d t
  assume "status r = Some sts" "length sts = (if (0 :: int) = 0 then 1 else 2)" "i < length sts"
    "disk_to_index_map r d = Some (int i)"
  then obtain st where "status r = Some [st]" "disk_to_index_map r d = Some 0" "i = 0" by (auto simp: length_Suc_conv)
  then show "RequestLevel0Done d t r = Ok (snd (complete 0 i r), latency_of t r (snd (complete 0 i r)))
      (r\<lparr>status := Some (fst (complete 0 i r))\<rparr>)"
    using RequestLevel0Done_apply [of r st d t] by (simp add: latency_of_def)
qed (simp add: level_done_def)

interpretation mirroring: completion 1 RequestLevel1Done
  by unfold_locales (simp_all add: RequestLevel1Done_apply level_done_def)

interpretation raid4: completion 4 RequestLevel4Done
  by unfold_locales (simp_all add: RequestLevel4Done_apply level_done_def)

interpretation raid5: completion 5 RequestLevel4Done
  by unfold_locales (simp_all add: RequestLevel4Done_apply level_done_def)

lemma level_done_apply:
  assumes r: "ready s d q" and i: "position_of d (block_disks (mapping s) (logical_address (request_queue s ! q))) = Some i"
    and f: "in_flight_at (mapping s) i (request_queue s ! q)"
  shows "level_done q d s =
    Ok (snd (complete (mapping s) i (request_queue s ! q)),
        latency_of (timer s) (request_queue s ! q) (snd (complete (mapping s) i (request_queue s ! q))))
      (s\<lparr>request_queue := (request_queue s)[q :=
        restatus (fst (complete (mapping s) i (request_queue s ! q))) (start_time (request_queue s ! q))
          (request_queue s ! q)]\<rparr>)"
  using readyD(7) [OF r]
  by (rule good_mappingE)
    (fact striping.level_done_completes [OF assms] mirroring.level_done_completes [OF assms]
      raid4.level_done_completes [OF assms] raid5.level_done_completes [OF assms])+

end
