(* ===== verification/Graphics_Layout.thy ===== *)
theory Graphics_Layout
  imports Graphics_Machine
begin

section \<open>The layouts on the screen\<close>

text \<open>
  What the drawing loops of the constructor leave behind: every cell of the four disks and twenty
  rows has its rectangle and its label, at the coordinates of its disk and row, and the tables
  that later code looks up say where they are. \<open>cell_block\<close> is the inverse of \<open>block_disks\<close> and
  \<open>block_row\<close>.
\<close>

subsection \<open>Blocks and cells\<close>

definition parity_disk :: "int \<Rightarrow> int \<Rightarrow> int" where
  "parity_disk m row = (if m = 4 then 3 else parity_column row)"

definition cell_block :: "int \<Rightarrow> int \<times> int \<Rightarrow> int option" where
  "cell_block m c =
     (let (d, row) = c; p = parity_disk m row in
      if m = 0 then Some (4 * row + d)
      else if m = 1 then Some (2 * row + d div 2)
      else if d = p then None
      else Some (3 * row + (if d < p then d else d - 1)))"

definition cell_text :: "int \<Rightarrow> int \<times> int \<Rightarrow> string" where
  "cell_text m c =
     (case cell_block m c of Some lba \<Rightarrow> show_int lba | None \<Rightarrow> ''P'' @ show_int (snd c))"

text \<open>The disks with a copy of a block, its parity disk left out.\<close>

definition data_disks :: "int \<Rightarrow> int \<Rightarrow> int list" where
  "data_disks m lba = (if m = 1 then block_disks m lba else [block_disks m lba ! 0])"

lemma data_disks_simps:
  "data_disks 0 lba = [lba mod 4]" "data_disks 1 lba = [2 * (lba mod 2), 2 * (lba mod 2) + 1]"
  "data_disks 4 lba = [lba mod 3]" "data_disks 5 lba = [drawn_disk5 (lba div 3) (lba mod 3)]"
  using mod_3_cases [of lba] mod_4_cases [of "lba div 3"]
  by (auto simp: data_disks_def block_disks_def Let_def drawn_disk5_def parity_column_def)

lemma drawn_parity5_column: "drawn_parity5 row = parity_column row"
  using mod_4_cases [of row] by (auto simp: drawn_parity5_def parity_column_def)

lemma cell_block_place:
  assumes "good_mapping m" "d \<in> set (data_disks m lba)"
  shows "cell_block m (d, block_row m lba) = Some lba"
  using assms(1)
proof (rule good_mappingE)
  assume "m = 5"
  then show ?thesis
    using assms(2) mod_3_cases [of lba] mod_4_cases [of "lba div 3"] mult_div_mod_eq [of 3 lba]
    by (auto simp: cell_block_def data_disks_def block_disks_def block_row_def parity_disk_def Let_def parity_column_def)
qed (use assms(2) pos_mod_bound [of 3 lba] in
  \<open>auto simp: cell_block_def data_disks_simps block_row_def parity_disk_def Let_def\<close>)

lemma cell_block_inverse:
  assumes "good_mapping m" "cell_block m (d, row) = Some lba" "0 \<le> d" "d < 4" "0 \<le> row" "row < 20"
  shows "d \<in> set (data_disks m lba)" "block_row m lba = row" "0 \<le> lba" "lba < block_limit m"
proof -
  have d: "d = 0 \<or> d = 1 \<or> d = 2 \<or> d = 3" using assms(3,4) by linarith
  have "d \<in> set (data_disks m lba) \<and> block_row m lba = row \<and> 0 \<le> lba \<and> lba < block_limit m"
    using assms(1)
  proof (rule good_mappingE)
    assume "m = 5"
    then show ?thesis
      using assms d mod_4_cases [of row]
      by (auto simp: cell_block_def data_disks_def block_disks_def block_row_def block_limit_def parity_disk_def
          Let_def parity_column_def split: if_splits)
  next
    assume "m = 4"
    then show ?thesis
      using assms d
      by (auto simp: cell_block_def data_disks_simps block_row_def block_limit_def parity_disk_def Let_def
          split: if_splits)
  qed (use assms d in \<open>auto simp: cell_block_def data_disks_simps block_row_def block_limit_def Let_def\<close>)
  then show "d \<in> set (data_disks m lba)" "block_row m lba = row" "0 \<le> lba" "lba < block_limit m" by auto
qed

subsection \<open>What has been drawn\<close>

definition block_coords :: "int \<times> int \<Rightarrow> int list" where
  "block_coords c = [40 + 120 * fst c, 20 * snd c + 100, 140 + 120 * fst c, 20 * snd c + 120]"

definition cell_shown :: "sim \<Rightarrow> int \<times> int \<Rightarrow> string \<Rightarrow> bool" where
  "cell_shown s c txt \<longleftrightarrow>
     (\<exists>r. disk_and_offset_to_rect_id s c = Some r \<and> 1 \<le> r \<and> nat r < length (canvas s) \<and>
        coords (canvas s ! nat (r - 1)) = block_coords c \<and>
        color_map s c \<noteq> None \<and> fill (canvas s ! nat (r - 1)) = color_map s c \<and>
        label (canvas s ! nat r) = Some txt)"

text \<open>A state that differs from another in the canvas and the tables of blocks.\<close>

definition layout_only :: "sim \<Rightarrow> sim \<Rightarrow> bool" where
  "layout_only s0 s \<longleftrightarrow>
     (\<exists>cv bo oy rm cm. s = s0\<lparr>canvas := cv, block_offset := bo, offset_to_ypos := oy,
        disk_and_offset_to_rect_id := rm, color_map := cm\<rparr>)"

definition drawn_cell :: "int \<Rightarrow> sim \<Rightarrow> int \<times> int \<Rightarrow> bool" where
  "drawn_cell m s c \<longleftrightarrow> cell_shown s c (cell_text m c) \<and> offset_to_ypos s (snd c) = Some (20 * snd c + 100)"

text \<open>Drawn so far: the first \<open>n\<close> blocks and the first \<open>p\<close> parity blocks.\<close>

definition drawn :: "sim \<Rightarrow> int \<Rightarrow> int \<Rightarrow> int \<Rightarrow> sim \<Rightarrow> bool" where
  "drawn s0 m n p s \<longleftrightarrow>
     layout_only s0 s \<and>
     (\<forall>lba \<in> {0..<n}. block_offset s (IntKey lba) = Some (20 * block_row m lba + 100) \<and>
        (\<forall>d \<in> set (data_disks m lba). drawn_cell m s (d, block_row m lba))) \<and>
     (\<forall>row \<in> {0..<p}. drawn_cell m s (parity_disk m row, row))"

lemma drawn_0: "drawn s m 0 0 s"
  by (auto simp: drawn_def layout_only_def intro!: exI [of _ "canvas s"] exI [of _ "block_offset s"]
      exI [of _ "offset_to_ypos s"] exI [of _ "disk_and_offset_to_rect_id s"] exI [of _ "color_map s"])

text \<open>The state after one block.\<close>

definition with_cell :: "int \<times> int \<Rightarrow> string \<Rightarrow> string \<Rightarrow> key \<Rightarrow> sim \<Rightarrow> sim" where
  "with_cell c colour txt k s =
     s\<lparr>canvas := canvas s @
         [\<lparr>item_kind = RECTANGLE, coords = block_coords c, fill = Some colour, outline = Some ''black'',
           label = None, anchor = None, font = None\<rparr>,
          \<lparr>item_kind = LABEL, coords = [90 + 120 * fst c, 20 * snd c + 110], fill = None, outline = None,
           label = Some txt, anchor = Some ''c'', font = None\<rparr>],
       block_offset := (block_offset s)(k \<mapsto> 20 * snd c + 100),
       offset_to_ypos := (offset_to_ypos s)(snd c \<mapsto> 20 * snd c + 100),
       disk_and_offset_to_rect_id := (disk_and_offset_to_rect_id s)(c \<mapsto> int (length (canvas s)) + 1),
       color_map := (color_map s)(c \<mapsto> colour)\<rparr>"

lemmas drawing_defs = draw_block_def create_rectangle_def create_text_def create_item_def note_ypos_def
  note_rect_def disk_width_def

lemma put_block_apply: "put_block i d off colour s = Ok () (with_cell (d, off) colour (show_int i) (IntKey i) s)"
  by (simp add: put_block_def drawing_defs with_cell_def block_coords_def Let_def)

lemma put_parity_apply:
  "put_parity i d s = Ok () (with_cell (d, i) ''darkgray'' (''P'' @ show_int i) (StrKey (''p'' @ show_int i)) s)"
  by (simp add: put_parity_def drawing_defs with_cell_def block_coords_def Let_def)

lemma with_cell_layout: "layout_only s0 s \<Longrightarrow> layout_only s0 (with_cell c colour txt k s)"
  unfolding layout_only_def with_cell_def by (elim exE) (simp, blast)

lemma cell_shown_grow:
  assumes "cell_shown s c' txt'" "c' \<noteq> c"
  shows "cell_shown (with_cell c colour txt k s) c' txt'"
proof -
  obtain r where r: "disk_and_offset_to_rect_id s c' = Some r" "1 \<le> r" "nat r < length (canvas s)"
    "coords (canvas s ! nat (r - 1)) = block_coords c'" "color_map s c' \<noteq> None"
    "fill (canvas s ! nat (r - 1)) = color_map s c'" "label (canvas s ! nat r) = Some txt'"
    using assms(1) unfolding cell_shown_def by blast
  have "nat (r - 1) < length (canvas s)" using r(2,3) by linarith
  then show ?thesis
    unfolding cell_shown_def using r assms(2)
    by (intro exI [of _ r]) (simp add: with_cell_def nth_append del: fun_upd_apply, simp)
qed

lemma cell_shown_new: "cell_shown (with_cell c colour txt k s) c txt"
  unfolding cell_shown_def
  by (rule exI [of _ "int (length (canvas s)) + 1"]) (simp add: with_cell_def nth_append nat_add_distrib)

lemma with_cell_ypos:
  "offset_to_ypos (with_cell c colour txt k s) row =
     (if row = snd c then Some (20 * snd c + 100) else offset_to_ypos s row)"
  by (simp add: with_cell_def)

lemma with_cell_shown:
  "drawn_cell m s c' \<Longrightarrow> c' \<noteq> c \<Longrightarrow> drawn_cell m (with_cell c colour txt k s) c'"
  "txt = cell_text m c \<Longrightarrow> drawn_cell m (with_cell c colour txt k s) c"
  by (simp_all add: drawn_cell_def cell_shown_grow cell_shown_new with_cell_ypos)

lemma with_cell_keeps:
  "drawn_cell m s c' \<Longrightarrow> txt = cell_text m c \<Longrightarrow> drawn_cell m (with_cell c colour txt k s) c'"
  using with_cell_shown by (cases "c' = c") auto

lemma layout_only_sel:
  assumes "layout_only s0 s"
  shows "disk_count s = disk_count s0" "mapping s = mapping s0" "block_count s = block_count s0"
    "block_count_full s = block_count_full s0"
  using assms by (auto simp: layout_only_def)

lemma drawn_data:
  assumes "drawn s0 m n p s" "good_mapping m" "0 \<le> n" "data_disks m n = [d]" "off = block_row m n"
  shows "drawn s0 m (n + 1) p (with_cell (d, off) colour (show_int n) (IntKey n) s)"
proof -
  let ?s = "with_cell (d, off) colour (show_int n) (IntKey n) s"
  have t: "show_int n = cell_text m (d, off)"
    using cell_block_place [OF assms(2), of d n] assms(4,5) by (simp add: cell_text_def)
  have keep: "drawn_cell m s c \<Longrightarrow> drawn_cell m ?s c" for c by (rule with_cell_keeps [OF _ t])
  have "{0..<n + 1} = insert n {0..<n}" using assms(3) by auto
  moreover have "block_offset ?s (IntKey lba) = Some (20 * block_row m lba + 100)" if "lba \<in> insert n {0..<n}" for lba
    using that assms(1,5) by (auto simp: with_cell_def drawn_def)
  ultimately show ?thesis
    using assms(1,4,5) keep with_cell_layout [of s0 s] with_cell_shown(2) [OF t] by (auto simp: drawn_def)
qed

lemma drawn_mirror:
  assumes "drawn s0 1 n p s" "0 \<le> n" "d = 2 * (n mod 2)" "off = n div 2"
  shows "drawn s0 1 (n + 1) p (with_cell (d + 1, off) colour (show_int n) (IntKey n)
    (with_cell (d, off) colour (show_int n) (IntKey n) s))"
proof -
  let ?s1 = "with_cell (d, off) colour (show_int n) (IntKey n) s"
  let ?s = "with_cell (d + 1, off) colour (show_int n) (IntKey n) ?s1"
  have dd: "data_disks 1 n = [d, d + 1]" using assms(3) by (simp add: data_disks_simps)
  have off: "off = block_row 1 n" using assms(4) by (simp add: block_row_def)
  have t: "show_int n = cell_text 1 (d, off)" "show_int n = cell_text 1 (d + 1, off)"
    using cell_block_place [of 1 _ n] dd off by (simp_all add: cell_text_def good_mapping_def)
  have keep: "drawn_cell 1 s c \<Longrightarrow> drawn_cell 1 ?s c" for c
    by (intro with_cell_keeps) (use t in auto)
  have new: "drawn_cell 1 ?s (d, off)" "drawn_cell 1 ?s (d + 1, off)"
    using with_cell_keeps [OF with_cell_shown(2) [OF t(1)] t(2)] with_cell_shown(2) [OF t(2)] by auto
  have "{0..<n + 1} = insert n {0..<n}" using assms(2) by auto
  moreover have "block_offset ?s (IntKey lba) = Some (20 * block_row 1 lba + 100)" if "lba \<in> insert n {0..<n}" for lba
    using that assms(1) off by (auto simp: with_cell_def drawn_def)
  ultimately show ?thesis
    using assms(1) dd off keep new with_cell_layout [of s0 s] with_cell_layout [of s0 ?s1] by (auto simp: drawn_def)
qed

lemma drawn_parity:
  assumes "drawn s0 m n p s" "m = 4 \<or> m = 5" "0 \<le> p" "d = parity_disk m p"
  shows "drawn s0 m n (p + 1) (with_cell (d, p) colour (''P'' @ show_int p) (StrKey k) s)"
proof -
  let ?s = "with_cell (d, p) colour (''P'' @ show_int p) (StrKey k) s"
  have t: "''P'' @ show_int p = cell_text m (d, p)"
    using assms(2,4) by (auto simp: cell_text_def cell_block_def Let_def)
  have keep: "drawn_cell m s c \<Longrightarrow> drawn_cell m ?s c" for c by (rule with_cell_keeps [OF _ t])
  have "{0..<p + 1} = insert p {0..<p}" using assms(3) by auto
  moreover have "block_offset ?s (IntKey lba) = block_offset s (IntKey lba)" for lba by (simp add: with_cell_def)
  ultimately show ?thesis
    using assms(1,4) keep with_cell_layout [of s0 s] with_cell_shown(2) [OF t] by (auto simp: drawn_def)
qed

subsection \<open>The drawing loops\<close>

text \<open>After the layout: the block counts are set, all cells are drawn.\<close>

definition sized :: "int \<Rightarrow> sim \<Rightarrow> sim" where
  "sized m s = (if m = 0 then s\<lparr>block_count := 80\<rparr> else if m = 1 then s\<lparr>block_count := 40\<rparr>
     else s\<lparr>block_count_full := 80, block_count := 60\<rparr>)"

definition parity_rows :: "int \<Rightarrow> int" where
  "parity_rows m = (if m = 4 \<or> m = 5 then 20 else 0)"

lemma block_loop:
  assumes m: "good_mapping m" and n: "0 \<le> n" and s: "drawn s0 m 0 0 s"
    and body: "\<And>i t. 0 \<le> i \<Longrightarrow> i < n \<Longrightarrow> disk_count t = disk_count s0 \<Longrightarrow>
      \<exists>d colour. data_disks m i = [d] \<and> f i t = put_block i d (block_row m i) colour t"
  shows "\<exists>s'. for_each (py_range 0 n) f s = Ok () s' \<and> drawn s0 m n 0 s'"
proof (rule for_each_range [OF n, where I = "\<lambda>i t. drawn s0 m i 0 t"])
  fix i t assume i: "0 \<le> i" "i < n" "drawn s0 m i 0 t"
  then have "disk_count t = disk_count s0" by (auto simp: drawn_def layout_only_sel)
  then obtain d colour where "data_disks m i = [d]" "f i t = put_block i d (block_row m i) colour t"
    using body i by blast
  then show "\<exists>t'. f i t = Ok () t' \<and> drawn s0 m (i + 1) 0 t'"
    using drawn_data [OF i(3) m i(1)] by (auto simp: put_block_apply)
qed (fact s)

lemma parity_rows_loop:
  assumes m: "m = 4 \<or> m = 5" and s: "drawn s0 m n 0 s" and f: "\<And>i. f i = put_parity i (parity_disk m i)"
  shows "\<exists>s'. for_each (py_range 0 20) f s = Ok () s' \<and> drawn s0 m n 20 s'"
proof (rule for_each_range [where I = "\<lambda>i t. drawn s0 m n i t"])
  fix i t assume i: "0 \<le> (i :: int)" "drawn s0 m n i t"
  then show "\<exists>t'. f i t = Ok () t' \<and> drawn s0 m n (i + 1) t'"
    using drawn_parity [OF i(2) m i(1)] by (auto simp: f put_parity_apply)
qed (use s in auto)

text \<open>The drawing loop of each mapping.\<close>

lemma draw_striped_drawn:
  assumes "mapping s = 0" "disk_count s = 4"
  shows "\<exists>s'. draw_layout s = Ok () s' \<and> drawn (s\<lparr>block_count := 80\<rparr>) 0 80 0 s'"
proof -
  have "\<exists>s'. for_each (py_range 0 80) (\<lambda>i. pbind (gets disk_count) (\<lambda>n.
       pbind (py_mod i n) (\<lambda>dsk. pbind (py_div i n) (\<lambda>offset. put_block i dsk offset ''gray''))))
       (s\<lparr>block_count := 80\<rparr>) = Ok () s' \<and>
    drawn (s\<lparr>block_count := 80\<rparr>) 0 80 0 s'"
    by (rule block_loop [OF _ _ drawn_0])
      (use assms(2) in \<open>auto simp: good_mapping_def data_disks_simps block_row_def\<close>)
  then show ?thesis using assms(1) by (simp add: draw_layout_def draw_striped_def)
qed

lemma draw_mirrored_drawn:
  assumes "mapping s = 1" "disk_count s = 4"
  shows "\<exists>s'. draw_layout s = Ok () s' \<and> drawn (s\<lparr>block_count := 40\<rparr>) 1 40 0 s'"
proof -
  let ?s = "s\<lparr>block_count := 40\<rparr>" and ?body = "\<lambda>i.
       pbind (py_mod i 2) (\<lambda>INDEX.
       let disk_1 = INDEX * 2; disk_2 = disk_1 + 1 in
       pbind (py_div i 2) (\<lambda>offset.
       pbind (draw_block disk_1 offset ''gray'' (show_int i)) (\<lambda>(rect_id_1, rect_y).
       pbind (draw_block disk_2 offset ''gray'' (show_int i)) (\<lambda>(rect_id_2, _).
       pseq (note_ypos (IntKey i) offset rect_y) (
       pseq (note_rect disk_1 offset rect_id_1) (note_rect disk_2 offset rect_id_2))))))"
  have "\<exists>s'. for_each (py_range 0 40) ?body ?s = Ok () s' \<and> drawn ?s 1 40 0 s'"
  proof (rule for_each_range [where I = "\<lambda>i t. drawn ?s 1 i 0 t"])
    fix i t assume i: "0 \<le> (i :: int)" "drawn ?s 1 i 0 t"
    show "\<exists>t'. ?body i t = Ok () t' \<and> drawn ?s 1 (i + 1) 0 t'"
      by (rule exI, rule conjI [OF _ drawn_mirror [OF i(2,1) refl refl, where colour = "''gray''"]])
        (simp add: drawing_defs with_cell_def block_coords_def Let_def ac_simps)
  qed (simp_all add: drawn_0)
  then show ?thesis using assms by (auto simp: draw_layout_def draw_mirrored_def)
qed

text \<open>Mappings 4 and 5 draw the data blocks first and the parity blocks after them.\<close>

lemma blocks_then_parity:
  assumes m: "m = 4 \<or> m = 5" and s: "drawn s0 m 0 0 s" and c: "block_count_full s0 = 80"
    and body: "\<And>i t. 0 \<le> i \<Longrightarrow> i < 60 \<Longrightarrow> disk_count t = disk_count s0 \<Longrightarrow>
      \<exists>d colour. data_disks m i = [d] \<and> f i t = put_block i d (block_row m i) colour t"
    and put: "\<And>i. g i = put_parity i (parity_disk m i)"
  shows "\<exists>s'. pseq (for_each (py_range 0 60) f) (pbind (gets block_count_full) (\<lambda>full.
      pbind (py_div full 4) (\<lambda>rows. for_each (py_range 0 rows) g))) s = Ok () s' \<and> drawn s0 m 60 20 s'"
proof -
  have "good_mapping m" using m by (auto simp: good_mapping_def)
  then have "\<exists>s1. for_each (py_range 0 60) f s = Ok () s1 \<and> drawn s0 m 60 0 s1"
    by (rule block_loop [OF _ _ s]) (simp, erule (2) body)
  then obtain s1 where s1: "for_each (py_range 0 60) f s = Ok () s1" "drawn s0 m 60 0 s1" by blast
  then have "block_count_full s1 = 80" using c by (auto simp: drawn_def layout_only_sel)
  then show ?thesis using parity_rows_loop [OF m s1(2) put] s1(1) by simp
qed

lemma draw_parity_drawn:
  assumes m: "mapping s = 4 \<or> mapping s = 5" and d4: "disk_count s = 4"
  shows "\<exists>s'. draw_layout s = Ok () s' \<and>
    drawn (s\<lparr>block_count_full := 80, block_count := 60\<rparr>) (mapping s) 60 20 s'"
  using m
proof
  assume 4: "mapping s = 4"
  have "\<exists>s'. pseq (for_each (py_range 0 60) (\<lambda>i. pbind (py_mod i 3) (\<lambda>dsk.
       pbind (py_div i 3) (\<lambda>offset. put_block i dsk offset ''lightgray'')))) (pbind (gets block_count_full) (\<lambda>full.
      pbind (py_div full 4) (\<lambda>rows. for_each (py_range 0 rows) (\<lambda>i. put_parity i 3))))
      (s\<lparr>block_count_full := 80, block_count := 60\<rparr>) = Ok () s' \<and>
    drawn (s\<lparr>block_count_full := 80, block_count := 60\<rparr>) 4 60 20 s'"
    by (rule blocks_then_parity [OF _ drawn_0]) (auto simp: data_disks_simps block_row_def parity_disk_def)
  then show ?thesis using 4 d4 by (simp add: draw_layout_def draw_raid4_def)
next
  assume 5: "mapping s = 5"
  have "\<exists>s'. pseq (for_each (py_range 0 60) (\<lambda>i. pbind (py_div i 3) (\<lambda>offset. pbind (py_mod i 3) (\<lambda>col.
       put_block i (drawn_disk5 offset col) offset ''gray'')))) (pbind (gets block_count_full) (\<lambda>full.
      pbind (py_div full 4) (\<lambda>rows. for_each (py_range 0 rows) (\<lambda>i. put_parity i (drawn_parity5 i)))))
      (s\<lparr>block_count_full := 80, block_count := 60\<rparr>) = Ok () s' \<and>
    drawn (s\<lparr>block_count_full := 80, block_count := 60\<rparr>) 5 60 20 s'"
    by (rule blocks_then_parity [OF _ drawn_0])
      (auto simp: data_disks_simps block_row_def parity_disk_def drawn_parity5_column)
  then show ?thesis using 5 d4 by (simp add: draw_layout_def draw_raid5_def)
qed

lemma draw_layout_drawn:
  assumes m: "good_mapping (mapping s)" and d4: "disk_count s = 4"
  shows "\<exists>s'. draw_layout s = Ok () s' \<and>
    drawn (sized (mapping s) s) (mapping s) (block_limit (mapping s)) (parity_rows (mapping s)) s'"
  using m
  by (rule good_mappingE)
    (use d4 draw_striped_drawn [of s] draw_mirrored_drawn [of s] draw_parity_drawn [of s] in
      \<open>auto simp: sized_def block_limit_def parity_rows_def\<close>)

text \<open>Every cell of the four disks is drawn, with the block or parity block that is stored there.\<close>

lemma drawn_all_cells:
  assumes m: "good_mapping m" and s: "drawn s0 m (block_limit m) (parity_rows m) s"
    and d: "0 \<le> d" "d < 4" and row: "0 \<le> row" "row < 20"
  shows "drawn_cell m s (d, row)"
proof (cases "cell_block m (d, row)")
  case None
  then have "m = 4 \<or> m = 5" "d = parity_disk m row" using m by (auto simp: cell_block_def good_mapping_def Let_def split: if_splits)
  then show ?thesis using s row by (auto simp: drawn_def parity_rows_def)
next
  case (Some lba)
  note C = cell_block_inverse [OF m Some d row]
  have "lba \<in> {0..<block_limit m}" using C(3,4) by simp
  then have "\<forall>d \<in> set (data_disks m lba). drawn_cell m s (d, block_row m lba)" using s unfolding drawn_def by blast
  then show ?thesis using C(1,2) by auto
qed

end
