(* ===== verification/Graphics_Progress.thy ===== *)
theory Graphics_Progress
  imports Graphics_Machine
begin

section \<open>The life of one request\<close>

text \<open>
  Seven kinds of request, by mapping, direction and full-stripe marks; for each kind, the status
  lists that can occur and the number of I/Os that have not been started. A start takes one off
  that number, a completion leaves it alone, and a request with I/Os left and none in flight can
  always start one.
\<close>

datatype rkind = Stripe | MirrorRead | MirrorWrite | ParityRead | TwoPhase | FullData | FullParity

definition req_kind :: "int \<Rightarrow> request \<Rightarrow> rkind" where
  "req_kind m r =
     (if m = 0 then Stripe
      else if m = 1 then (if op_type r = OP_READ then MirrorRead else MirrorWrite)
      else if op_type r = OP_READ then ParityRead
      else if m = 4 \<and> full_stripe_write r then
        (if full_stripe_write_parity r then FullParity else FullData)
      else TwoPhase)"

fun legal :: "rkind \<Rightarrow> req_status list \<Rightarrow> bool" where
  "legal Stripe sts \<longleftrightarrow>
     sts \<in> {[REQ_NOT_STARTED], [REQ_DO_READ], [REQ_DO_WRITE], [REQ_DONE]}"
| "legal MirrorRead sts \<longleftrightarrow>
     sts \<in> {[REQ_NOT_STARTED, REQ_NOT_STARTED], [REQ_DO_READ, REQ_DONE], [REQ_DONE, REQ_DO_READ],
            [REQ_DONE, REQ_DONE]}"
| "legal MirrorWrite sts \<longleftrightarrow>
     length sts = 2 \<and> set sts \<subseteq> {REQ_NOT_STARTED, REQ_DO_WRITE, REQ_DONE}"
| "legal ParityRead sts \<longleftrightarrow>
     sts \<in> {[REQ_NOT_STARTED, REQ_NOT_STARTED], [REQ_DO_READ, REQ_NOT_STARTED]}"
| "legal TwoPhase sts \<longleftrightarrow>
     length sts = 2 \<and>
     (set sts \<subseteq> {REQ_NOT_STARTED, REQ_DO_READ, REQ_PARITY_READ_PHASE_DONE} \<and>
        sts \<noteq> [REQ_PARITY_READ_PHASE_DONE, REQ_PARITY_READ_PHASE_DONE] \<or>
      set sts \<subseteq> {REQ_PARITY_WRITE_PHASE_BEGIN, REQ_DO_WRITE, REQ_DONE})"
| "legal FullData sts \<longleftrightarrow>
     sts \<in> {[REQ_NOT_STARTED, REQ_NOT_STARTED], [REQ_DO_WRITE, REQ_DONE], [REQ_DONE, REQ_DO_WRITE],
            [REQ_DONE, REQ_DONE]}"
| "legal FullParity sts \<longleftrightarrow>
     length sts = 2 \<and> set sts \<subseteq> {REQ_NOT_STARTED, REQ_DO_WRITE, REQ_DONE}"

text \<open>The I/Os that a status leaves to start on its disk.\<close>

fun owed :: "rkind \<Rightarrow> req_status \<Rightarrow> nat" where
  "owed TwoPhase st =
     (case st of REQ_NOT_STARTED \<Rightarrow> 2 | REQ_DO_READ \<Rightarrow> 1 | REQ_PARITY_READ_PHASE_DONE \<Rightarrow> 1
      | REQ_PARITY_WRITE_PHASE_BEGIN \<Rightarrow> 1 | _ \<Rightarrow> 0)"
| "owed k st = (if st = REQ_NOT_STARTED then 1 else 0)"

definition todo :: "rkind \<Rightarrow> req_status list \<Rightarrow> nat" where
  "todo k sts =
     (if k = MirrorRead \<or> k = ParityRead \<or> k = FullData then owed k (sts ! 0)
      else sum_list (map (owed k) sts))"

definition moving :: "req_status \<Rightarrow> bool" where
  "moving st \<longleftrightarrow> st = REQ_DO_READ \<or> st = REQ_DO_WRITE"

lemma moving_do_op [simp]: "moving (do_op oper)"
  by (cases oper) (simp_all add: moving_def do_op_def)

lemma two_statuses:
  assumes "length sts = 2"
  obtains a b where "sts = [a, b]"
  using assms by (auto simp: length_Suc_conv numeral_2_eq_2)

text \<open>What one start changes.\<close>

definition starts :: "rkind \<Rightarrow> nat \<Rightarrow> req_status list \<Rightarrow> optype \<Rightarrow> req_status list \<Rightarrow> bool" where
  "starts k i sts oper sts' \<longleftrightarrow>
     legal k sts' \<and> todo k sts = Suc (todo k sts') \<and> length sts' = length sts \<and>
     sts' ! i = do_op oper \<and> (k = ParityRead \<longrightarrow> i = 0) \<and>
     (\<forall>j < length sts. j \<noteq> i \<longrightarrow> moving (sts' ! j) \<longrightarrow> moving (sts ! j)) \<and>
     (\<forall>j < length sts. j \<noteq> i \<longrightarrow> moving (sts ! j) \<longrightarrow> sts' ! j = sts ! j)"

lemma startsD:
  assumes "starts k i sts oper sts'"
  shows "legal k sts'" "todo k sts = Suc (todo k sts')" "length sts' = length sts"
    "sts' ! i = do_op oper" "k = ParityRead \<Longrightarrow> i = 0"
    "\<And>j. j < length sts \<Longrightarrow> j \<noteq> i \<Longrightarrow> moving (sts' ! j) \<Longrightarrow> moving (sts ! j)"
    "\<And>j. j < length sts \<Longrightarrow> j \<noteq> i \<Longrightarrow> moving (sts ! j) \<Longrightarrow> sts' ! j = sts ! j"
  using assms unfolding starts_def by blast+

fun decide_kind :: "rkind \<Rightarrow> nat \<Rightarrow> optype \<Rightarrow> req_status list \<Rightarrow> (optype \<times> req_status list) option" where
  "decide_kind Stripe i oper sts =
     (if sts ! i = REQ_NOT_STARTED then Some (oper, sts[i := do_op oper]) else None)"
| "decide_kind MirrorRead i oper sts =
     (if sts ! i = REQ_NOT_STARTED then Some (OP_READ, sts[i := REQ_DO_READ, 1 - i := REQ_DONE]) else None)"
| "decide_kind ParityRead i oper sts =
     (if i = 0 \<and> sts ! 0 = REQ_NOT_STARTED then Some (OP_READ, sts[0 := REQ_DO_READ]) else None)"
| "decide_kind TwoPhase i oper sts =
     (if sts ! i = REQ_NOT_STARTED then Some (OP_READ, sts[i := REQ_DO_READ])
      else if sts ! i = REQ_PARITY_WRITE_PHASE_BEGIN then Some (OP_WRITE, sts[i := REQ_DO_WRITE])
      else None)"
| "decide_kind FullData i oper sts =
     (if sts ! i = REQ_NOT_STARTED then Some (OP_WRITE, sts[i := REQ_DO_WRITE, 1 - i := REQ_DONE]) else None)"
| "decide_kind _ i oper sts =
     (if sts ! i = REQ_NOT_STARTED then Some (OP_WRITE, sts[i := REQ_DO_WRITE]) else None)"

lemma decide_by_kind:
  assumes "position_of d (block_disks m (logical_address r)) = Some i"
  shows "decide m d r = decide_kind (req_kind m r) i (op_type r) (statuses r)"
  using assms by (cases "op_type r") (simp_all add: decide_def req_kind_def Let_def)

lemma decide_position:
  "decide m d r = Some x \<Longrightarrow> \<exists>i. position_of d (block_disks m (logical_address r)) = Some i"
  by (auto simp: decide_def split: option.splits)

lemma less_2_cases': "(i :: nat) < 2 \<Longrightarrow> i = 0 \<or> i = 1"
  by auto

lemma all_less_two: "(\<forall>j < Suc (Suc 0). P j) \<longleftrightarrow> P 0 \<and> P (Suc 0)"
  by (auto simp: less_Suc_eq)

lemmas life_defs = starts_def todo_def do_op_def moving_def all_less_two

text \<open>The length of a legal list, and the positions that go with it.\<close>

lemma legal_length: "legal k sts \<Longrightarrow> length sts = (if k = Stripe then 1 else 2)"
  by (cases k) auto

lemma decide_kind_starts:
  assumes "legal k sts" "decide_kind k i oper sts = Some (oper', sts')" "i < length sts"
  shows "starts k i sts oper' sts'"
proof (cases "k = Stripe")
  case True
  then show ?thesis using assms by (cases oper) (auto simp: life_defs split: if_splits)
next
  case False
  then obtain a b where ab: "sts = [a, b]" using legal_length [OF assms(1)] by (auto elim: two_statuses)
  have "i = 0 \<or> i = 1" using assms(3) ab by auto
  then show ?thesis
  proof
    assume "i = 0"
    then show ?thesis using assms ab False
      by (cases k) (auto simp: life_defs split: if_splits req_status.splits)
  next
    assume "i = 1"
    then show ?thesis using assms ab False
      by (cases k) (auto simp: life_defs split: if_splits req_status.splits)
  qed
qed

text \<open>What one completion changes.\<close>

fun complete_kind :: "rkind \<Rightarrow> nat \<Rightarrow> req_status list \<Rightarrow> req_status list \<times> bool" where
  "complete_kind Stripe i sts = (sts[i := REQ_DONE], True)"
| "complete_kind MirrorRead i sts = (sts[i := REQ_DONE], True)"
| "complete_kind MirrorWrite i sts = (sts[i := REQ_DONE], sts ! (1 - i) = REQ_DONE)"
| "complete_kind ParityRead i sts = (sts, True)"
| "complete_kind _ i sts =
     (if sts ! i = REQ_DO_READ then
        (if sts ! (1 - i) = REQ_PARITY_READ_PHASE_DONE
         then [REQ_PARITY_WRITE_PHASE_BEGIN, REQ_PARITY_WRITE_PHASE_BEGIN]
         else sts[i := REQ_PARITY_READ_PHASE_DONE], False)
      else (sts[i := REQ_DONE], sts ! (1 - i) = REQ_DONE))"

definition finishes :: "rkind \<Rightarrow> nat \<Rightarrow> req_status list \<Rightarrow> req_status list \<Rightarrow> bool \<Rightarrow> bool" where
  "finishes k i sts sts' reported \<longleftrightarrow>
     legal k sts' \<and> todo k sts' = todo k sts \<and> length sts' = length sts \<and>
     (k \<noteq> ParityRead \<longrightarrow> \<not> moving (sts' ! i)) \<and>
     (\<forall>j < length sts. j \<noteq> i \<longrightarrow> moving (sts' ! j) \<or> moving (sts ! j) \<longrightarrow> sts' ! j = sts ! j) \<and>
     (reported \<longleftrightarrow> todo k sts = 0 \<and>
        (k = ParityRead \<or> (\<forall>j < length sts. j \<noteq> i \<longrightarrow> \<not> moving (sts ! j))))"

lemma finishesD:
  assumes "finishes k i sts sts' reported"
  shows "legal k sts'" "todo k sts' = todo k sts" "length sts' = length sts"
    "k \<noteq> ParityRead \<Longrightarrow> \<not> moving (sts' ! i)"
    "\<And>j. j < length sts \<Longrightarrow> j \<noteq> i \<Longrightarrow> moving (sts' ! j) \<or> moving (sts ! j) \<Longrightarrow> sts' ! j = sts ! j"
    "reported \<longleftrightarrow> todo k sts = 0 \<and>
       (k = ParityRead \<or> (\<forall>j < length sts. j \<noteq> i \<longrightarrow> \<not> moving (sts ! j)))"
  using assms unfolding finishes_def by blast+

lemma complete_by_kind:
  assumes "legal (req_kind m r) (statuses r)" "moving (statuses r ! i)" "i < length (statuses r)"
  shows "complete m i r = complete_kind (req_kind m r) i (statuses r)"
proof -
  have "i = 0 \<or> i = 1" using assms(3) legal_length [OF assms(1)] by (auto split: if_splits)
  moreover have "set (statuses r) \<subseteq> {REQ_NOT_STARTED, REQ_DO_WRITE, REQ_DONE} \<Longrightarrow> statuses r ! i \<noteq> REQ_DO_READ"
    using assms(3) nth_mem by fastforce
  ultimately show ?thesis
    using assms by (auto simp: complete_def req_kind_def moving_def Let_def split: if_splits)
qed

lemma complete_kind_finishes:
  assumes "legal k sts" "moving (sts ! i)" "i < length sts" "k = ParityRead \<longrightarrow> i = 0"
  shows "finishes k i sts (fst (complete_kind k i sts)) (snd (complete_kind k i sts))"
proof (cases "k = Stripe")
  case True
  then show ?thesis using assms by (auto simp: life_defs finishes_def split: if_splits)
next
  case False
  then obtain a b where ab: "sts = [a, b]" using legal_length [OF assms(1)] by (auto elim: two_statuses)
  have "i = 0 \<or> i = 1" using assms(3) ab by auto
  then show ?thesis
  proof
    assume "i = 0"
    then show ?thesis using assms ab False
      by (cases k) (auto simp: life_defs finishes_def split: if_splits req_status.splits)
  next
    assume "i = 1"
    then show ?thesis using assms ab False
      by (cases k) (auto simp: life_defs finishes_def split: if_splits req_status.splits)
  qed
qed

subsection \<open>The order of the statuses\<close>

text \<open>
  The phases in the order in which an I/O of a request goes through them; the numbers of the code are
  in another order. Starts and completions only move statuses up.
\<close>

primrec phase :: "req_status \<Rightarrow> nat" where
  "phase REQ_NOT_STARTED = 0"
| "phase REQ_DO_READ = 1"
| "phase REQ_PARITY_READ_PHASE_DONE = 2"
| "phase REQ_PARITY_WRITE_PHASE_BEGIN = 3"
| "phase REQ_DO_WRITE = 4"
| "phase REQ_DONE = 5"

lemma phase_inj: "phase a = phase b \<Longrightarrow> a = b"
  by (cases a; cases b) simp_all

instantiation req_status :: linorder
begin

definition less_eq_req_status :: "req_status \<Rightarrow> req_status \<Rightarrow> bool" where
  "less_eq_req_status a b \<longleftrightarrow> phase a \<le> phase b"

definition less_req_status :: "req_status \<Rightarrow> req_status \<Rightarrow> bool" where
  "less_req_status a b \<longleftrightarrow> phase a < phase b"

instance
  by standard (auto simp: less_eq_req_status_def less_req_status_def intro: phase_inj)

end

lemma status_le [simp]:
  "REQ_NOT_STARTED \<le> st" "st \<le> REQ_DONE" "REQ_DO_READ \<le> REQ_PARITY_READ_PHASE_DONE"
  "REQ_DO_READ \<le> REQ_PARITY_WRITE_PHASE_BEGIN" "REQ_PARITY_READ_PHASE_DONE \<le> REQ_PARITY_WRITE_PHASE_BEGIN"
  "REQ_PARITY_WRITE_PHASE_BEGIN \<le> REQ_DO_WRITE"
  by (cases st; simp add: less_eq_req_status_def)+

lemma decide_kind_grows:
  assumes "legal k sts" "decide_kind k i oper sts = Some (oper', sts')" "i < length sts"
  shows "list_all2 (\<le>) sts sts'"
proof (cases "k = Stripe")
  case True
  then show ?thesis using assms by (auto split: if_splits)
next
  case False
  then obtain a b where ab: "sts = [a, b]" using legal_length [OF assms(1)] by (auto elim: two_statuses)
  have "i = 0 \<or> i = 1" using assms(3) ab by auto
  then show ?thesis using assms(1,2) ab False by (cases k) (auto split: if_splits)
qed

lemma complete_kind_grows:
  assumes "legal k sts" "moving (sts ! i)" "i < length sts"
  shows "list_all2 (\<le>) sts (fst (complete_kind k i sts))"
proof (cases "k = Stripe")
  case True
  then show ?thesis using assms by (auto split: if_splits)
next
  case False
  then obtain a b where ab: "sts = [a, b]" using legal_length [OF assms(1)] by (auto elim: two_statuses)
  have "i = 0 \<or> i = 1" using assms(3) ab by auto
  then show ?thesis using assms(1,2) ab False by (cases k) (auto simp: list_all2_refl split: if_splits)
qed

subsection \<open>Requests that wait\<close>

text \<open>A request with I/Os left and none in flight can start one.\<close>

lemma position_of_nth:
  assumes "distinct ds" "i < length ds" "length ds \<le> 2"
  shows "position_of (ds ! i) ds = Some i"
proof -
  have "i = 0 \<or> i = 1" using assms by auto
  moreover have "1 < length ds \<Longrightarrow> ds ! 0 \<noteq> ds ! 1"
    using assms(1) by (metis distinct_conv_nth less_trans zero_less_one zero_neq_one)
  ultimately show ?thesis using assms by (auto simp: position_of_def)
qed

lemma todo_decide_kind:
  assumes "legal k sts" "todo k sts \<noteq> 0"
    and "k = ParityRead \<or> (\<forall>j < length sts. \<not> moving (sts ! j))"
  shows "\<exists>i < length sts. decide_kind k i oper sts \<noteq> None"
proof (cases "k = Stripe")
  case True
  then show ?thesis using assms by (auto simp: life_defs split: if_splits)
next
  case False
  then obtain a b where ab: "sts = [a, b]" using legal_length [OF assms(1)] by (auto elim: two_statuses)
  have "decide_kind k 0 oper sts \<noteq> None \<or> decide_kind k 1 oper sts \<noteq> None"
    using assms ab False
    by (cases k) (auto simp: life_defs split: if_splits req_status.splits)
  then show ?thesis using ab by (auto simp: less_Suc_eq)
qed

lemma todo_decide:
  assumes p: "placed m r" and l: "legal (req_kind m r) (statuses r)" and t: "todo (req_kind m r) (statuses r) \<noteq> 0"
    and idle: "req_kind m r = ParityRead \<or> (\<forall>j < length (statuses r). \<not> moving (statuses r ! j))"
  shows "\<exists>d \<in> set (block_disks m (logical_address r)). decide m d r \<noteq> None"
proof -
  obtain i where i: "i < length (statuses r)" "decide_kind (req_kind m r) i (op_type r) (statuses r) \<noteq> None"
    using todo_decide_kind [OF l t idle] by blast
  let ?ds = "block_disks m (logical_address r)"
  have len: "i < length ?ds" "length ?ds \<le> 2" using i(1) placedD(6) [OF p] by (auto simp: length_block_disks)
  then have "position_of (?ds ! i) ?ds = Some i"
    using distinct_block_disks position_of_nth by blast
  with i(2) have "decide m (?ds ! i) r \<noteq> None" by (simp add: decide_by_kind)
  then show ?thesis using len(1) nth_mem by blast
qed

end
