(* ===== verification/Graphics_Invariant.thy ===== *)
theory Graphics_Invariant
  imports Graphics_Progress
begin

section \<open>The invariant of the simulation\<close>

text \<open>
  What holds between two callbacks: every table has its entries, every request has a legal status
  list, a busy disk works for one request whose status at that disk says so, and conversely; the
  head of a seeking disk is a whole number of moves away from its target; and the I/Os counted, in
  flight and not yet started add up to the number needed. \<open>energy\<close> bounds the ticks left.
\<close>

definition disk_set :: "int set" where
  "disk_set = {0..<4}"

lemma disk_set_simps [simp]: "finite disk_set" "d \<in> disk_set \<longleftrightarrow> 0 \<le> d \<and> d < 4"
  by (auto simp: disk_set_def)

definition busy :: "sim \<Rightarrow> int \<Rightarrow> bool" where
  "busy s d \<longleftrightarrow> disk_state s d \<noteq> Some STATE_NULL"

definition target :: "sim \<Rightarrow> int \<Rightarrow> nat" where
  "target s d = the (the (current_target s d))"

abbreviation queue_size :: "sim \<Rightarrow> nat" where
  "queue_size s \<equiv> length (request_queue s)"

definition disks_of :: "sim \<Rightarrow> nat \<Rightarrow> int list" where
  "disks_of s q = block_disks (mapping s) (logical_address (request_queue s ! q))"

definition row_of :: "sim \<Rightarrow> nat \<Rightarrow> int" where
  "row_of s q = block_row (mapping s) (logical_address (request_queue s ! q))"

definition kind_of :: "sim \<Rightarrow> nat \<Rightarrow> rkind" where
  "kind_of s q = req_kind (mapping s) (request_queue s ! q)"

definition status_of :: "sim \<Rightarrow> nat \<Rightarrow> req_status list" where
  "status_of s q = statuses (request_queue s ! q)"

definition request_todo :: "int \<Rightarrow> request \<Rightarrow> nat" where
  "request_todo m r = todo (req_kind m r) (statuses r)"

text \<open>The requests that the scheduler may look at.\<close>

definition in_window :: "sim \<Rightarrow> nat \<Rightarrow> bool" where
  "in_window s q \<longleftrightarrow> q < queue_size s \<and> (window s = - 1 \<or> int q < window s)"

definition flight_ok :: "sim \<Rightarrow> int \<Rightarrow> bool" where
  "flight_ok s d \<longleftrightarrow>
     (busy s d \<longrightarrow>
        (disk_state s d = Some STATE_SEEK \<or> disk_state s d = Some STATE_XFER) \<and>
        current_target s d = Some (Some (target s d)) \<and> in_window s (target s d) \<and>
        (\<exists>i oper. position_of d (disks_of s (target s d)) = Some i \<and>
           status_of s (target s d) ! i = do_op oper \<and> current_optype s d = Some (Some oper)))"

definition status_ok :: "sim \<Rightarrow> nat \<Rightarrow> bool" where
  "status_ok s q \<longleftrightarrow>
     legal (kind_of s q) (status_of s q) \<and>
     (kind_of s q \<noteq> ParityRead \<longrightarrow>
        (\<forall>j < length (status_of s q). moving (status_of s q ! j) \<longrightarrow>
           busy s (disks_of s q ! j) \<and> target s (disks_of s q ! j) = q))"

definition head_y :: "sim \<Rightarrow> int \<Rightarrow> int" where
  "head_y s d = pos_y1 (the (head_position s d))"

definition goal_y :: "sim \<Rightarrow> int \<Rightarrow> int" where
  "goal_y s d = 20 * row_of s (target s d) + 100"

definition head_ok :: "sim \<Rightarrow> int \<Rightarrow> bool" where
  "head_ok s d \<longleftrightarrow>
     (disk_state s d = Some STATE_NULL \<longrightarrow> (\<exists>row. 0 \<le> row \<and> row < 20 \<and> head_y s d = 20 * row + 100)) \<and>
     (disk_state s d = Some STATE_SEEK \<longrightarrow>
        (\<exists>k delta. seek_delta s d = Some delta \<and> \<bar>delta\<bar> = seek_speed s \<and> 0 \<le> k \<and> k \<le> 380 \<and>
           goal_y s d = head_y s d + k * delta)) \<and>
     (disk_state s d = Some STATE_XFER \<longrightarrow>
        head_y s d = goal_y s d \<and> (\<exists>c. transfer_count s d = Some c \<and> 1 \<le> c \<and> c \<le> 10))"

definition last_ok :: "sim \<Rightarrow> int \<Rightarrow> bool" where
  "last_ok s d \<longleftrightarrow>
     (\<forall>q. last_target s d = Some (Some q) \<longrightarrow> q < queue_size s) \<and>
     (\<forall>q. current_target s d = Some (Some q) \<longrightarrow> q < queue_size s)"

text \<open>Requests all of whose I/Os have been done.\<close>

definition served :: "sim \<Rightarrow> nat \<Rightarrow> bool" where
  "served s q \<longleftrightarrow> request_todo (mapping s) (request_queue s ! q) = 0 \<and>
     (\<forall>d \<in> disk_set. busy s d \<longrightarrow> target s d \<noteq> q)"

definition total_todo :: "sim \<Rightarrow> nat" where
  "total_todo s = sum_list (map (request_todo (mapping s)) (request_queue s))"

definition busy_disks :: "sim \<Rightarrow> nat" where
  "busy_disks s = (\<Sum>d \<in> disk_set. of_bool (busy s d))"

definition accounts :: "sim \<Rightarrow> int" where
  "accounts s = request_count s + int (busy_disks s) + int (total_todo s)"

text \<open>The I/Os counted on the screen, all disks together.\<close>

definition tally :: "sim \<Rightarrow> int" where
  "tally s = (\<Sum>d \<in> disk_set. the (count_reads s d) + the (count_writes s d))"

definition window_ok :: "sim \<Rightarrow> bool" where
  "window_ok s \<longleftrightarrow> window s = - 1 \<or> 1 + logical_requests s \<le> window s"

definition sim_ok :: "sim \<Rightarrow> bool" where
  "sim_ok s \<longleftrightarrow>
     tables_ok s \<and> entries_ok s \<and> requests_ok s \<and> 0 < queue_size s \<and>
     0 < seek_speed s \<and> seek_speed s dvd 20 \<and>
     (\<forall>d \<in> disk_set. flight_ok s d \<and> head_ok s d \<and> last_ok s d) \<and>
     (\<forall>q < queue_size s. status_ok s q) \<and>
     logical_requests s = int (card {q. q < queue_size s \<and> served s q}) \<and>
     window_ok s \<and>
     accounts s = request_count_needed s \<and> tally s = request_count s \<and>
     (is_done s \<longrightarrow> request_count s = request_count_needed s)"

definition ticks_left :: "sim \<Rightarrow> int \<Rightarrow> nat" where
  "ticks_left s d =
     (case disk_state s d of
        Some STATE_SEEK \<Rightarrow> nat ((goal_y s d - head_y s d) div the (seek_delta s d)) + 11
      | Some STATE_XFER \<Rightarrow> nat (the (transfer_count s d))
      | _ \<Rightarrow> 0)"

definition energy :: "sim \<Rightarrow> nat" where
  "energy s = 392 * total_todo s + (\<Sum>d \<in> disk_set. ticks_left s d)"

subsection \<open>Changing one disk\<close>

lemma disk_set_minus: "d \<in> disk_set \<Longrightarrow> disk_set = insert d (disk_set - {d})"
  by auto

lemma sum_one_disk:
  fixes f g :: "int \<Rightarrow> nat"
  assumes "d \<in> disk_set" "\<And>d'. d' \<in> disk_set \<Longrightarrow> d' \<noteq> d \<Longrightarrow> g d' = f d'"
  shows "(\<Sum>x \<in> disk_set. g x) + f d = (\<Sum>x \<in> disk_set. f x) + g d"
proof -
  have "(\<Sum>x \<in> disk_set. g x) = g d + (\<Sum>x \<in> disk_set - {d}. g x)"
    "(\<Sum>x \<in> disk_set. f x) = f d + (\<Sum>x \<in> disk_set - {d}. f x)"
    using assms(1) by (simp_all only: sum.remove [OF disk_set_simps(1) assms(1)])
  moreover have "(\<Sum>x \<in> disk_set - {d}. g x) = (\<Sum>x \<in> disk_set - {d}. f x)"
    using assms(2) by (intro sum.cong) auto
  ultimately show ?thesis by simp
qed

lemma sum_list_one:
  fixes f :: "'a \<Rightarrow> nat"
  assumes "q < length xs"
  shows "sum_list (map f (xs[q := x])) + f (xs ! q) = sum_list (map f xs) + f x"
  using assms
proof (induction xs arbitrary: q)
  case (Cons y ys)
  then show ?case by (cases q) (auto simp: ac_simps)
qed simp

subsection \<open>Changing the statuses of one request\<close>

definition restatused :: "sim \<Rightarrow> sim \<Rightarrow> nat \<Rightarrow> req_status list \<Rightarrow> bool" where
  "restatused s s' q sts \<longleftrightarrow>
     q < queue_size s \<and> length sts = length (status_of s q) \<and> mapping s' = mapping s \<and>
     (\<exists>t. request_queue s' = (request_queue s)[q := restatus sts t (request_queue s ! q)])"

lemma req_kind_restatus [simp]: "req_kind m (restatus sts t r) = req_kind m r"
  by (simp add: req_kind_def)

lemma request_todo_restatus [simp]: "request_todo m (restatus sts t r) = todo (req_kind m r) sts"
  by (simp add: request_todo_def)

lemma restatused_views:
  assumes "restatused s s' q sts"
  shows "queue_size s' = queue_size s" "kind_of s' x = kind_of s x" "disks_of s' x = disks_of s x"
    "row_of s' x = row_of s x" "status_of s' x = (if x = q then sts else status_of s x)"
    "mapping s' = mapping s" "q < queue_size s" "length sts = length (status_of s q)"
    "request_todo (mapping s) (request_queue s' ! x) =
      (if x = q then todo (kind_of s q) sts else request_todo (mapping s) (request_queue s ! x))"
  using assms
  by (auto simp: restatused_def kind_of_def disks_of_def row_of_def status_of_def nth_list_update)

lemma restatused_total:
  assumes "restatused s s' q sts"
  shows "total_todo s' + todo (kind_of s q) (status_of s q) = total_todo s + todo (kind_of s q) sts"
proof -
  obtain t where t: "request_queue s' = (request_queue s)[q := restatus sts t (request_queue s ! q)]"
    "q < queue_size s" "mapping s' = mapping s" using assms by (auto simp: restatused_def)
  show ?thesis
    using sum_list_one [OF t(2), of "request_todo (mapping s)" "restatus sts t (request_queue s ! q)"] t
    by (simp add: total_todo_def kind_of_def status_of_def request_todo_def)
qed

text \<open>What the requests of the queue ask for; their statuses and start times left out.\<close>

definition wanted :: "sim \<Rightarrow> (int \<times> optype \<times> bool \<times> bool) list" where
  "wanted s = map (\<lambda>r. (logical_address r, op_type r, full_stripe_write r, full_stripe_write_parity r)) (request_queue s)"

lemma restatused_wanted: "restatused s s' q sts \<Longrightarrow> wanted s' = wanted s"
  by (auto simp: restatused_def wanted_def map_update intro!: list_update_same_conv [THEN iffD2])

lemma length_wanted [simp]: "length (wanted s) = queue_size s"
  by (simp add: wanted_def)

lemma placed_restatus:
  "placed m r \<Longrightarrow> length sts = length (statuses r) \<Longrightarrow> placed m (restatus sts t r)"
  by (auto simp: placed_def)

lemma restatused_requests_ok:
  assumes "restatused s s' q sts" "requests_ok s"
  shows "requests_ok s'"
proof -
  obtain t where t: "request_queue s' = (request_queue s)[q := restatus sts t (request_queue s ! q)]"
    "q < queue_size s" "mapping s' = mapping s" using assms by (auto simp: restatused_def)
  have "placed (mapping s) (restatus sts t (request_queue s ! q))"
    using assms t(2) by (intro placed_restatus) (auto simp: requests_ok_def restatused_def status_of_def)
  then show ?thesis using assms(2) t by (auto simp: requests_ok_def nth_list_update)
qed

text \<open>The disks of a request have distinct places, and a place determines the disk.\<close>

lemma placed_lengths:
  assumes "requests_ok s" "q < queue_size s"
  shows "length (status_of s q) = length (disks_of s q)"
  using placedD(6) [of "mapping s" "request_queue s ! q"] assms
  by (simp add: requests_ok_def status_of_def disks_of_def length_block_disks)

lemma position_of_place:
  assumes "position_of d (disks_of s q) = Some i"
  shows "i < length (disks_of s q)" "disks_of s q ! i = d"
  using assms by (auto simp: position_of_def disks_of_def length_block_disks split: if_splits)

lemma disks_of_inj:
  assumes "i < length (disks_of s q)" "j < length (disks_of s q)" "disks_of s q ! i = disks_of s q ! j"
  shows "i = j"
  using distinct_block_disks assms by (simp add: disks_of_def nth_eq_iff_index_eq)

lemma disks_of_range: "j < length (disks_of s q) \<Longrightarrow> disks_of s q ! j \<in> disk_set"
  using block_disks_range nth_mem by (fastforce simp: disks_of_def)

subsection \<open>Starting an I/O keeps the invariant\<close>

lemma launched_sel [simp]:
  "mapping (launched d q oper sts cv t s) = mapping s"
  "disk_count (launched d q oper sts cv t s) = disk_count s"
  "seek_speed (launched d q oper sts cv t s) = seek_speed s"
  "window (launched d q oper sts cv t s) = window s"
  "head_position (launched d q oper sts cv t s) = head_position s"
  "disk_state (launched d q oper sts cv t s) = (disk_state s)(d \<mapsto> STATE_SEEK)"
  "last_target (launched d q oper sts cv t s) = (last_target s)(d \<mapsto> the (current_target s d))"
  "current_target (launched d q oper sts cv t s) = (current_target s)(d \<mapsto> Some q)"
  "current_optype (launched d q oper sts cv t s) = (current_optype s)(d \<mapsto> Some oper)"
  "transfer_count (launched d q oper sts cv t s) = transfer_count s"
  "count_reads (launched d q oper sts cv t s) = count_reads s"
  "count_writes (launched d q oper sts cv t s) = count_writes s"
  "request_count (launched d q oper sts cv t s) = request_count s"
  "request_count_needed (launched d q oper sts cv t s) = request_count_needed s"
  "logical_requests (launched d q oper sts cv t s) = logical_requests s"
  "do_animate (launched d q oper sts cv t s) = do_animate s"
  "is_done (launched d q oper sts cv t s) = is_done s"
  "pending (launched d q oper sts cv t s) = pending s"
  "timer (launched d q oper sts cv t s) = timer s"
  "printed (launched d q oper sts cv t s) = printed s"
  "seek_delta (launched d q oper sts cv t s) = (seek_delta s)(d \<mapsto> seek_towards s d (row_of s q))"
  by (simp_all add: launched_def launch_io_def Let_def row_of_def seek_towards_def)

lemma launched_tables:
  "tables_ok (launched d q oper sts cv t s) = tables_ok s"
  "q < queue_size s \<Longrightarrow> entries_ok s \<Longrightarrow> entries_ok (launched d q oper sts cv t s)"
  by (simp_all add: launched_def launch_io_def Let_def tables_ok_def entries_ok_def)

lemma launched_restatused:
  "q < queue_size s \<Longrightarrow> length sts = length (status_of s q) \<Longrightarrow> restatused s (launched d q oper sts cv t s) q sts"
  by (auto simp: restatused_def launched_def launch_io_def Let_def)

lemma status_okD:
  assumes "status_ok s q" "kind_of s q \<noteq> ParityRead" "j < length (status_of s q)" "moving (status_of s q ! j)"
  shows "busy s (disks_of s q ! j)" "target s (disks_of s q ! j) = q"
  using assms by (auto simp: status_ok_def)

lemma sim_okD:
  assumes "sim_ok s"
  shows "tables_ok s" "entries_ok s" "requests_ok s" "0 < queue_size s" "0 < seek_speed s"
    "seek_speed s dvd 20" "\<And>d. d \<in> disk_set \<Longrightarrow> flight_ok s d" "\<And>d. d \<in> disk_set \<Longrightarrow> head_ok s d"
    "\<And>d. d \<in> disk_set \<Longrightarrow> last_ok s d"
    "\<And>q. q < queue_size s \<Longrightarrow> status_ok s q"
    "logical_requests s = int (card {q. q < queue_size s \<and> served s q})"
    "window_ok s" "accounts s = request_count_needed s" "good_mapping (mapping s)"
    "is_done s \<Longrightarrow> request_count s = request_count_needed s" "tally s = request_count s"
  using assms by (auto simp: sim_ok_def tables_ok_def)

lemma sim_ok_ready: "sim_ok s \<Longrightarrow> q < queue_size s \<Longrightarrow> d \<in> disk_set \<Longrightarrow> ready s d q"
  by (simp add: sim_ok_def ready_def)

lemma sim_ok_placed: "sim_ok s \<Longrightarrow> q < queue_size s \<Longrightarrow> placed (mapping s) (request_queue s ! q)"
  by (simp add: sim_ok_def requests_ok_def)

lemma row_of_range:
  assumes "sim_ok s" "q < queue_size s"
  shows "0 \<le> row_of s q" "row_of s q < 20"
  using block_row_range placedD(1,2) [OF sim_ok_placed [OF assms]] sim_okD(14) [OF assms(1)]
  by (auto simp: row_of_def)

lemma busy_launched [simp]: "busy (launched d q oper sts cv t s) x \<longleftrightarrow> x = d \<or> busy s x"
  by (simp add: busy_def)

lemma target_launched [simp]: "target (launched d q oper sts cv t s) x = (if x = d then q else target s x)"
  by (simp add: target_def)

lemma head_y_launched [simp]: "head_y (launched d q oper sts cv t s) x = head_y s x"
  by (simp add: head_y_def)

text \<open>The number of moves to a target, from a row of the disk.\<close>

lemma seek_moves:
  assumes v: "0 < v" "v dvd (20 :: int)" and y: "y = 20 * row + 100" "0 \<le> row" "row < 20"
    and g: "g = 20 * row' + 100" "0 \<le> row'" "row' < 20"
    and delta: "delta = (if y < g then v else - v)"
  obtains k where "0 \<le> k" "k \<le> 380" "g = y + k * delta"
proof -
  obtain c where c: "20 = v * c" using v(2) by (rule dvdE)
  then have c1: "0 < v * c" by simp
  then have c0: "0 < c" using v(1) by (simp add: zero_less_mult_iff)
  have "1 * c \<le> v * c" using v(1) c0 by (intro mult_right_mono) auto
  then have "c \<le> 20" using c by linarith
  note c0 = c0 this
  let ?k = "c * \<bar>row' - row\<bar>"
  have "?k \<le> 20 * 19" using c0 y g by (intro mult_mono) auto
  moreover have "g = y + ?k * delta"
  proof (cases "row < row'")
    case True
    then have "?k * delta = (v * c) * (row' - row)" using delta y(1) g(1) by (simp add: ac_simps)
    then show ?thesis using y(1) g(1) c by (simp add: algebra_simps)
  next
    case False
    then have "?k * delta = (v * c) * (row' - row)" using delta y(1) g(1) by (simp add: algebra_simps)
    then show ?thesis using y(1) g(1) c by (simp add: algebra_simps)
  qed
  ultimately show ?thesis using c0 that [of ?k] by simp
qed

lemma launch_setup:
  assumes ok: "sim_ok s" and q: "q < queue_size s"
    and dec: "decide (mapping s) d (request_queue s ! q) = Some (oper, sts)"
  obtains i where "position_of d (disks_of s q) = Some i" "starts (kind_of s q) i (status_of s q) oper sts"
    "restatused s (launched d q oper sts cv t s) q sts" "i < length (status_of s q)"
proof -
  obtain i where i: "position_of d (block_disks (mapping s) (logical_address (request_queue s ! q))) = Some i"
    using decide_position [OF dec] by blast
  have "status_ok s q" using sim_okD(10) [OF ok q] .
  then have legal: "legal (kind_of s q) (status_of s q)" by (simp add: status_ok_def)
  have il: "i < length (status_of s q)"
    using position_of_place(1) i placed_lengths [OF sim_okD(3) [OF ok] q] by (simp add: disks_of_def)
  have st: "starts (kind_of s q) i (status_of s q) oper sts"
    using decide_kind_starts [OF legal _ il] dec decide_by_kind [OF i] by (simp add: kind_of_def status_of_def)
  then have "length sts = length (status_of s q)" by (simp add: starts_def)
  then have "restatused s (launched d q oper sts cv t s) q sts" by (rule launched_restatused [OF q])
  then show ?thesis using that i st il by (simp add: disks_of_def)
qed

lemma launched_flight:
  assumes ok: "sim_ok s" and q: "q < queue_size s" and w: "in_window s q" and idle: "\<not> busy s d"
    and dec: "decide (mapping s) d (request_queue s ! q) = Some (oper, sts)" and x: "x \<in> disk_set"
  shows "flight_ok (launched d q oper sts cv t s) x"
proof -
  obtain i where i: "position_of d (disks_of s q) = Some i" "starts (kind_of s q) i (status_of s q) oper sts"
    "restatused s (launched d q oper sts cv t s) q sts" "i < length (status_of s q)"
    using launch_setup [OF ok q dec] by blast
  note V = restatused_views [OF i(3)]
  show ?thesis
  proof (cases "x = d")
    case True
    then show ?thesis using i w by (auto simp: flight_ok_def in_window_def V starts_def)
  next
    case False
    have f: "flight_ok s x" using sim_okD(7) [OF ok x] .
    show ?thesis
    proof (cases "busy s x")
      case True
      then obtain j oper' where j: "position_of x (disks_of s (target s x)) = Some j"
        "status_of s (target s x) ! j = do_op oper'" "current_optype s x = Some (Some oper')"
        "in_window s (target s x)" "current_target s x = Some (Some (target s x))"
        "disk_state s x = Some STATE_SEEK \<or> disk_state s x = Some STATE_XFER"
        using f by (auto simp: flight_ok_def)
      have "sts ! j = do_op oper'" if "target s x = q"
      proof -
        have "j \<noteq> i" using position_of_place(2) [OF i(1)] position_of_place(2) [OF j(1)] False that by auto
        moreover have "j < length (status_of s q)"
          using position_of_place(1) [of x s q j] j(1) placed_lengths [OF sim_okD(3) [OF ok] q] that by simp
        ultimately show ?thesis using startsD(7) [OF i(2)] j(2) that by simp
      qed
      then show ?thesis using False j by (auto simp: flight_ok_def in_window_def V)
    qed (use False in \<open>simp add: flight_ok_def\<close>)
  qed
qed

lemma launched_status:
  assumes ok: "sim_ok s" and q: "q < queue_size s" and idle: "\<not> busy s d"
    and dec: "decide (mapping s) d (request_queue s ! q) = Some (oper, sts)" and x: "x < queue_size s"
  shows "status_ok (launched d q oper sts cv t s) x"
proof -
  obtain i where i: "position_of d (disks_of s q) = Some i" "starts (kind_of s q) i (status_of s q) oper sts"
    "restatused s (launched d q oper sts cv t s) q sts" "i < length (status_of s q)"
    using launch_setup [OF ok q dec] by blast
  note V = restatused_views [OF i(3)] and P = position_of_place [OF i(1)]
  have sx: "status_ok s x" using sim_okD(10) [OF ok x] .
  show ?thesis
  proof (cases "x = q")
    case True
    have "busy (launched d q oper sts cv t s) (disks_of s q ! j) \<and> target (launched d q oper sts cv t s) (disks_of s q ! j) = q"
      if "kind_of s q \<noteq> ParityRead" "j < length sts" "moving (sts ! j)" for j
    proof (cases "j = i")
      case True
      then show ?thesis using P by simp
    next
      case False
      then have "moving (status_of s q ! j)" using startsD(6) [OF i(2)] that V(8) by simp
      then have "busy s (disks_of s q ! j)" "target s (disks_of s q ! j) = q"
        using status_okD [OF sx [unfolded True] that(1)] that(2) V(8) by simp_all
      then show ?thesis by simp
    qed
    then show ?thesis using True i(2) by (auto simp: status_ok_def V starts_def)
  next
    case False
    have "busy (launched d q oper sts cv t s) (disks_of s x ! j) \<and>
        target (launched d q oper sts cv t s) (disks_of s x ! j) = x"
      if "kind_of s x \<noteq> ParityRead" "j < length (status_of s x)" "moving (status_of s x ! j)" for j
    proof -
      have b: "busy s (disks_of s x ! j)" "target s (disks_of s x ! j) = x" by (fact status_okD [OF sx that])+
      then have "disks_of s x ! j \<noteq> d" using idle by metis
      then show ?thesis using b by simp
    qed
    then show ?thesis using sx False by (simp add: status_ok_def V(1-5))
  qed
qed

lemma launched_head:
  assumes ok: "sim_ok s" and q: "q < queue_size s" and d: "d \<in> disk_set" and idle: "\<not> busy s d"
    and st: "restatused s (launched d q oper sts cv t s) q sts" and x: "x \<in> disk_set"
  shows "head_ok (launched d q oper sts cv t s) x"
    and "x \<noteq> d \<Longrightarrow> ticks_left (launched d q oper sts cv t s) x = ticks_left s x"
    and "ticks_left (launched d q oper sts cv t s) d \<le> 391"
proof -
  let ?s = "launched d q oper sts cv t s"
  note V = restatused_views [OF st]
  have goal: "goal_y ?s y = (if y = d then 20 * row_of s q + 100 else goal_y s y)" for y
    by (simp add: goal_y_def V)
  have n: "disk_state s d = Some STATE_NULL" using idle by (simp add: busy_def)
  have "head_ok s d" using sim_okD(8) [OF ok d] .
  then obtain row where row: "0 \<le> row" "row < 20" "head_y s d = 20 * row + 100"
    using n by (auto simp: head_ok_def)
  have delta: "seek_towards s d (row_of s q) = (if head_y s d < 20 * row_of s q + 100 then seek_speed s else - seek_speed s)"
    by (simp add: seek_towards_def head_y_def)
  obtain k where k: "0 \<le> k" "k \<le> 380" "20 * row_of s q + 100 = head_y s d + k * seek_towards s d (row_of s q)"
    using seek_moves [OF sim_okD(5,6) [OF ok] row(3,1,2) refl row_of_range [OF ok q] delta] by blast
  have v: "seek_towards s d (row_of s q) \<noteq> 0" "\<bar>seek_towards s d (row_of s q)\<bar> = seek_speed s"
    using sim_okD(5) [OF ok] by (simp_all add: seek_towards_def)
  have "head_ok ?s d" using k v by (auto simp: head_ok_def goal intro!: exI [of _ k])
  moreover have "head_ok ?s x" if "x \<noteq> d" using sim_okD(8) [OF ok x] that by (simp add: head_ok_def goal)
  ultimately show "head_ok ?s x" by blast
  show "x \<noteq> d \<Longrightarrow> ticks_left ?s x = ticks_left s x"
    by (simp add: ticks_left_def goal split: option.split activity.split)
  have "(goal_y ?s d - head_y ?s d) div seek_towards s d (row_of s q) = k"
    using k(3) v(1) by (simp add: goal)
  then show "ticks_left ?s d \<le> 391" using k by (simp add: ticks_left_def)
qed

lemma launched_served:
  assumes ok: "sim_ok s" and q: "q < queue_size s" and d: "d \<in> disk_set" and idle: "\<not> busy s d"
    and dec: "decide (mapping s) d (request_queue s ! q) = Some (oper, sts)" and x: "x < queue_size s"
  shows "served (launched d q oper sts cv t s) x \<longleftrightarrow> served s x"
proof -
  obtain i where i: "starts (kind_of s q) i (status_of s q) oper sts"
    "restatused s (launched d q oper sts cv t s) q sts"
    using launch_setup [OF ok q dec] by blast
  note V = restatused_views [OF i(2)]
  show ?thesis
  proof (cases "x = q")
    case True
    have "\<not> served s q" using startsD(2) [OF i(1)]
      by (simp add: served_def request_todo_def kind_of_def status_of_def)
    moreover have "\<not> served (launched d q oper sts cv t s) q" using d by (auto simp: served_def)
    ultimately show ?thesis using True by simp
  next
    case False
    have "(\<forall>y \<in> disk_set. busy (launched d q oper sts cv t s) y \<longrightarrow> target (launched d q oper sts cv t s) y \<noteq> x) \<longleftrightarrow>
      (\<forall>y \<in> disk_set. busy s y \<longrightarrow> target s y \<noteq> x)"
      using False idle by auto
    then show ?thesis using False by (simp add: served_def V(6,9))
  qed
qed

text \<open>A start keeps the invariant and uses up energy.\<close>

lemma sim_ok_launched:
  assumes ok: "sim_ok s" and w: "in_window s q" and d: "d \<in> disk_set" and idle: "\<not> busy s d"
    and dec: "decide (mapping s) d (request_queue s ! q) = Some (oper, sts)"
  shows "sim_ok (launched d q oper sts cv t s)" "energy (launched d q oper sts cv t s) < energy s"
proof -
  let ?s = "launched d q oper sts cv t s"
  have q: "q < queue_size s" using w by (simp add: in_window_def)
  obtain i where i: "starts (kind_of s q) i (status_of s q) oper sts" "restatused s ?s q sts"
    using launch_setup [OF ok q dec] by blast
  note V = restatused_views [OF i(2)]
  have total: "total_todo s = Suc (total_todo ?s)"
    using restatused_total [OF i(2)] startsD(2) [OF i(1)] by simp
  have busy: "busy_disks ?s = Suc (busy_disks s)"
    using sum_one_disk [OF d, of "\<lambda>x. of_bool (busy ?s x)" "\<lambda>x. of_bool (busy s x)"] idle
    by (simp add: busy_disks_def)
  have last: "last_ok ?s x" if "x \<in> disk_set" for x
    using sim_okD(9) [OF ok d] sim_okD(9) [OF ok that] q readyD(2,4,5) [OF sim_ok_ready [OF ok q d]]
    by (auto simp: last_ok_def V(1) entries_ok_def split: if_splits)
  have nd: "\<not> is_done s"
    using sim_okD(13,15) [OF ok] total by (auto simp: accounts_def)
  have "{x. x < queue_size ?s \<and> served ?s x} = {x. x < queue_size s \<and> served s x}"
    using launched_served [OF ok q d idle dec] by (auto simp: V(1))
  then show "sim_ok ?s"
    using launched_flight [OF ok q w idle dec] launched_status [OF ok q idle dec] launched_head(1) [OF ok q d idle i(2)]
      sim_okD [OF ok] restatused_requests_ok [OF i(2)] last total busy nd launched_tables(2) [OF q]
    by (simp add: sim_ok_def V(1) launched_tables(1) accounts_def window_ok_def tally_def)
  have "(\<Sum>x \<in> disk_set. ticks_left ?s x) + ticks_left s d = (\<Sum>x \<in> disk_set. ticks_left s x) + ticks_left ?s d"
    using launched_head(2) [OF ok q d idle i(2)] by (intro sum_one_disk [OF d])
  moreover have "ticks_left ?s d \<le> 391" using launched_head(3) [OF ok q d idle i(2) d] .
  ultimately show "energy ?s < energy s" using total by (simp add: energy_def)
qed

subsection \<open>Progress and time\<close>

text \<open>
  What every step keeps besides: no status goes back; the start time of a request lies in the past
  if one of its I/Os has been started, and is -1 otherwise; and the latencies add up to at most the
  time passed for each request reported.
\<close>

definition timed :: "int \<Rightarrow> request \<Rightarrow> bool" where
  "timed now r \<longleftrightarrow>
     (if \<forall>st \<in> set (statuses r). st = REQ_NOT_STARTED then start_time r = - 1
      else 0 \<le> start_time r \<and> start_time r \<le> now)"

definition clock_ok :: "sim \<Rightarrow> bool" where
  "clock_ok s \<longleftrightarrow>
     0 \<le> timer s \<and> (\<forall>r \<in> set (request_queue s). timed (timer s) r) \<and> 0 \<le> logical_requests s \<and>
     0 \<le> latency_total s \<and> latency_total s \<le> timer s * logical_requests s"

text \<open>
  The reads of a request with parity that are in, by its statuses: those of a write that reads
  first, once the read phase of their disk is over, and that of a read, once its disk is done with
  it (the code leaves its status as it is). Each disk has counted exactly the reads that are in.
\<close>

definition read_in :: "sim \<Rightarrow> nat \<Rightarrow> int \<Rightarrow> bool" where
  "read_in s q d \<longleftrightarrow>
     (case position_of d (disks_of s q) of
        None \<Rightarrow> False
      | Some i \<Rightarrow>
          if kind_of s q = TwoPhase then status_of s q ! i \<notin> {REQ_NOT_STARTED, REQ_DO_READ}
          else kind_of s q = ParityRead \<and> i = 0 \<and> status_of s q ! 0 = REQ_DO_READ \<and> \<not> (busy s d \<and> target s d = q))"

definition reads_ok :: "sim \<Rightarrow> bool" where
  "reads_ok s \<longleftrightarrow>
     (mapping s = 4 \<or> mapping s = 5 \<longrightarrow>
        (\<forall>d \<in> disk_set. count_reads s d = Some (int (card {q. q < queue_size s \<and> read_in s q d}))))"

lemma reads_ok_same:
  assumes "request_queue s' = request_queue s" "mapping s' = mapping s" "count_reads s' = count_reads s"
    "current_target s' = current_target s" "\<And>d. busy s' d = busy s d"
  shows "reads_ok s' = reads_ok s"
proof -
  have "kind_of s' q = kind_of s q" "disks_of s' q = disks_of s q" "status_of s' q = status_of s q"
    "target s' d = target s d" for q d
    by (simp_all add: assms(1,2,4) kind_of_def disks_of_def status_of_def target_def)
  then have "read_in s' = read_in s" by (simp add: fun_eq_iff read_in_def assms(5) split: option.split)
  then show ?thesis by (simp add: reads_ok_def assms(1-3))
qed

definition onward :: "sim \<Rightarrow> sim \<Rightarrow> bool" where
  "onward s s' \<longleftrightarrow>
     queue_size s' = queue_size s \<and> (\<forall>q < queue_size s. list_all2 (\<le>) (status_of s q) (status_of s' q)) \<and>
     (clock_ok s \<longrightarrow> clock_ok s') \<and> (reads_ok s \<longrightarrow> reads_ok s')"

lemma onward_refl [simp]: "onward s s"
  by (simp add: onward_def list_all2_refl)

lemma onward_trans:
  assumes "onward s t" "onward t u"
  shows "onward s u"
proof -
  have "list_all2 (\<le>) (status_of s q) (status_of u q)" if "q < queue_size s" for q
    using assms that list_all2_trans [of "(\<le>)" "(\<le>)" "(\<le>)" "status_of s q" "status_of t q" "status_of u q"]
    by (auto simp: onward_def)
  then show ?thesis using assms by (auto simp: onward_def)
qed

lemma onward_frame:
  assumes "request_queue s' = request_queue s" "timer s \<le> timer s'" "logical_requests s' = logical_requests s"
    "latency_total s' = latency_total s" "mapping s' = mapping s" "count_reads s' = count_reads s"
    "current_target s' = current_target s" "\<And>d. busy s' d = busy s d"
  shows "onward s s'"
proof -
  have "clock_ok s'" if c: "clock_ok s"
  proof -
    have "timer s * logical_requests s \<le> timer s' * logical_requests s"
      using c assms(2) by (intro mult_right_mono) (auto simp: clock_ok_def)
    moreover have "timed (timer s') r" if "timed (timer s) r" for r using that assms(2) unfolding timed_def by (metis order_trans)
    ultimately show ?thesis using c assms by (auto simp: clock_ok_def)
  qed
  then show ?thesis using assms(1) reads_ok_same [OF assms(1,5-8)] by (simp add: onward_def status_of_def list_all2_refl)
qed

text \<open>A request whose statuses have moved up, the first of them now or earlier.\<close>

lemma onward_restatus:
  assumes q: "q < queue_size s" and r: "request_queue s' = (request_queue s)[q := restatus sts t (request_queue s ! q)]"
    and up: "list_all2 (\<le>) (status_of s q) sts" and new: "\<exists>st \<in> set sts. st \<noteq> REQ_NOT_STARTED"
    and clock: "clock_ok s \<Longrightarrow> 0 \<le> t \<and> t \<le> timer s \<and> 0 \<le> latency_total s' \<and> 0 \<le> logical_requests s' \<and>
      latency_total s' \<le> timer s * logical_requests s'"
    and now: "timer s' = timer s" and reads: "reads_ok s \<Longrightarrow> reads_ok s'"
  shows "onward s s'"
proof -
  have "list_all2 (\<le>) (status_of s x) (status_of s' x)" if "x < queue_size s" for x
    using that up by (cases "x = q") (simp_all add: status_of_def r list_all2_refl)
  moreover have "clock_ok s'" if c: "clock_ok s"
  proof -
    have "timed (timer s) (restatus sts t (request_queue s ! q))"
      using clock [OF c] new by (auto simp: timed_def restatus_def)
    then have "timed (timer s) x" if "x \<in> set (request_queue s')" for x
      using c that set_update_subset_insert [of "request_queue s" q] by (fastforce simp: r clock_ok_def)
    then show ?thesis using c clock [OF c] now by (auto simp: clock_ok_def)
  qed
  ultimately show ?thesis using reads by (simp add: onward_def r)
qed

lemma list_all2_started:
  assumes "list_all2 (\<le>) sts sts'" "\<exists>st \<in> set sts. st \<noteq> REQ_NOT_STARTED"
  shows "\<exists>st \<in> set sts'. st \<noteq> REQ_NOT_STARTED"
proof -
  obtain i where i: "i < length sts" "sts ! i \<noteq> REQ_NOT_STARTED" using assms(2) by (auto simp: in_set_conv_nth)
  then have "i < length sts'" "sts ! i \<le> sts' ! i" using assms(1) by (auto simp: list_all2_conv_all_nth)
  moreover from this have "sts' ! i \<noteq> REQ_NOT_STARTED" using i(2) status_le(1) [of "sts ! i"] by (metis antisym)
  ultimately show ?thesis using nth_mem by blast
qed

lemma timed_started:
  assumes "clock_ok s" "q < queue_size s" "\<exists>st \<in> set (status_of s q). st \<noteq> REQ_NOT_STARTED"
  shows "0 \<le> start_time (request_queue s ! q)" "start_time (request_queue s ! q) \<le> timer s"
proof -
  have "timed (timer s) (request_queue s ! q)" using assms(1,2) by (simp add: clock_ok_def)
  moreover have "\<not> (\<forall>st \<in> set (statuses (request_queue s ! q)). st = REQ_NOT_STARTED)"
    using assms(3) by (simp add: status_of_def)
  ultimately show "0 \<le> start_time (request_queue s ! q)" "start_time (request_queue s ! q) \<le> timer s"
    unfolding timed_def by auto
qed

text \<open>A start puts no read in and takes none out.\<close>

lemma launched_read_in:
  assumes ok: "sim_ok s" and q: "q < queue_size s" and idle: "\<not> busy s d"
    and dec: "decide (mapping s) d (request_queue s ! q) = Some (oper, sts)"
  shows "read_in (launched d q oper sts cv t s) x y = read_in s x y"
proof -
  let ?s = "launched d q oper sts cv t s" and ?r = "request_queue s ! q"
  obtain i where i: "position_of d (disks_of s q) = Some i" "restatused s ?s q sts" "i < length (status_of s q)"
    using launch_setup [OF ok q dec] by metis
  note V = restatused_views [OF i(2)]
  have k: "decide_kind (kind_of s q) i (op_type ?r) (status_of s q) = Some (oper, sts)"
    using decide_by_kind [of d "mapping s" ?r i] i(1) dec by (simp add: disks_of_def kind_of_def status_of_def)
  show ?thesis
  proof (cases "x = q")
    case False
    then show ?thesis using idle by (auto simp: read_in_def V split: option.split)
  next
    case True
    have "j = i \<longrightarrow> y = d" if "position_of y (disks_of s q) = Some j" for j
      using position_of_place(2) [OF that] position_of_place(2) [OF i(1)] by auto
    then show ?thesis using True k i(3)
      by (cases "kind_of s q") (auto simp: read_in_def V nth_list_update split: option.split if_splits)
  qed
qed

lemma launched_reads:
  assumes "sim_ok s" "q < queue_size s" "\<not> busy s d"
    and "decide (mapping s) d (request_queue s ! q) = Some (oper, sts)" and "reads_ok s"
  shows "reads_ok (launched d q oper sts cv t s)"
proof -
  have "queue_size (launched d q oper sts cv t s) = queue_size s" by (simp add: launched_def launch_io_def Let_def)
  then show ?thesis using assms(5) by (simp add: reads_ok_def launched_read_in [OF assms(1-4)])
qed

lemma launched_onward:
  assumes ok: "sim_ok s" and q: "q < queue_size s" and idle: "\<not> busy s d"
    and dec: "decide (mapping s) d (request_queue s ! q) = Some (oper, sts)"
    and t: "noted (timer s) (request_queue s ! q) t"
  shows "onward s (launched d q oper sts cv t s)"
proof -
  let ?r = "request_queue s ! q"
  obtain i where i: "position_of d (disks_of s q) = Some i" "starts (kind_of s q) i (status_of s q) oper sts"
    "i < length (status_of s q)"
    using launch_setup [OF ok q dec] by metis
  have "status_ok s q" using sim_okD(10) [OF ok q] .
  then have "legal (kind_of s q) (status_of s q)" by (simp add: status_ok_def)
  moreover have "decide_kind (kind_of s q) i (op_type ?r) (status_of s q) = Some (oper, sts)"
    using decide_by_kind [of d "mapping s" ?r i] i(1) dec by (simp add: disks_of_def kind_of_def status_of_def)
  ultimately have up: "list_all2 (\<le>) (status_of s q) sts" using decide_kind_grows i(3) by blast
  have "sts ! i \<in> set sts" using startsD(3) [OF i(2)] i(3) by simp
  moreover have "sts ! i = do_op oper" by (rule startsD(4) [OF i(2)])
  moreover have "do_op oper \<noteq> REQ_NOT_STARTED" by (simp add: do_op_def split: optype.split)
  ultimately have new: "\<exists>st \<in> set sts. st \<noteq> REQ_NOT_STARTED" by metis
  have "0 \<le> t \<and> t \<le> timer s" if c: "clock_ok s"
  proof (cases "start_time ?r = - 1")
    case True
    then have "\<not> (\<exists>st \<in> set (status_of s q). st \<noteq> REQ_NOT_STARTED)" using timed_started(1) [OF c q] by auto
    then show ?thesis using t True c by (auto simp: noted_def started_at_def status_of_def clock_ok_def)
  next
    case False
    have "timed (timer s) ?r" using c q by (simp add: clock_ok_def)
    then have "0 \<le> start_time ?r \<and> start_time ?r \<le> timer s" using False by (auto simp: timed_def split: if_splits)
    then show ?thesis using t False by (auto simp: noted_def started_at_def)
  qed
  then show ?thesis
    by (intro onward_restatus [OF q _ up new _ _ launched_reads [OF ok q idle dec]])
      (auto simp: launched_def launch_io_def Let_def clock_ok_def)
qed

end
