(* ===== verification/Graphics_Schedule.thy ===== *)
theory Graphics_Schedule
  imports Graphics_Invariant
begin

section \<open>GetNextIOs\<close>

text \<open>
  The scheduling loops keep the invariant, never take an I/O away, and cannot leave every disk idle
  while I/Os remain: the first request that is not served lies inside the window, and one of its
  disks would have started it.
\<close>

text \<open>What scheduling does not touch.\<close>

definition same_run :: "sim \<Rightarrow> sim \<Rightarrow> bool" where
  "same_run s s' \<longleftrightarrow>
     mapping s' = mapping s \<and> queue_size s' = queue_size s \<and> wanted s' = wanted s \<and> window s' = window s \<and>
     request_count s' = request_count s \<and> request_count_needed s' = request_count_needed s \<and>
     logical_requests s' = logical_requests s \<and> timer s' = timer s \<and> printed s' = printed s \<and>
     do_animate s' = do_animate s \<and> is_done s' = is_done s \<and> pending s' = pending s \<and> onward s s'"

lemma same_run_refl [simp]: "same_run s s"
  by (simp add: same_run_def)

lemma same_run_trans: "same_run s t \<Longrightarrow> same_run t u \<Longrightarrow> same_run s u"
  using onward_trans [of s t u] by (simp add: same_run_def)

definition scheduled :: "sim \<Rightarrow> sim \<Rightarrow> bool" where
  "scheduled s s' \<longleftrightarrow>
     sim_ok s' \<and> same_run s s' \<and> (s' = s \<or> energy s' < energy s) \<and>
     (\<forall>d. busy s d \<longrightarrow> busy s' d) \<and> (s' \<noteq> s \<longrightarrow> (\<exists>d \<in> disk_set. busy s' d))"

lemma scheduled_refl [simp]: "sim_ok s \<Longrightarrow> scheduled s s"
  by (simp add: scheduled_def)

lemma scheduled_trans:
  assumes "scheduled s t" "scheduled t u"
  shows "scheduled s u" "u = s \<Longrightarrow> t = s"
  using assms by (auto simp: scheduled_def intro: same_run_trans)

text \<open>One call of the dispatcher.\<close>

lemma schedule_scheduled:
  assumes ok: "sim_ok s" and w: "in_window s q" and d: "d \<in> disk_set"
  shows "\<exists>s'. schedule d q s = Ok () s' \<and> scheduled s s' \<and>
    (s' = s \<and> \<not> busy s d \<longrightarrow> decide (mapping s) d (request_queue s ! q) = None)"
proof (cases "busy s d")
  case True
  have q: "q < queue_size s" using w by (simp add: in_window_def)
  show ?thesis
    using schedule_busy [OF sim_ok_ready [OF ok q d]] ok True by (simp add: busy_def)
next
  case False
  have q: "q < queue_size s" using w by (simp add: in_window_def)
  have f: "follows schedule d q s"
    using schedule_idle [OF sim_ok_ready [OF ok q d]] False by (simp add: busy_def)
  show ?thesis
  proof (cases "decide (mapping s) d (request_queue s ! q)")
    case None
    then show ?thesis using f ok by (auto simp: follows_def)
  next
    case (Some x)
    then obtain oper sts where x: "decide (mapping s) d (request_queue s ! q) = Some (oper, sts)" by (cases x) auto
    then obtain cv t where s': "schedule d q s = Ok () (launched d q oper sts cv t s)"
      "noted (timer s) (request_queue s ! q) t"
      using f by (auto simp: follows_def)
    have "energy (launched d q oper sts cv t s) < energy s" by (rule sim_ok_launched [OF ok w d False x])
    moreover from this have "launched d q oper sts cv t s \<noteq> s" by auto
    moreover have r: "restatused s (launched d q oper sts cv t s) q sts" using launch_setup [OF ok q x] by blast
    have "same_run s (launched d q oper sts cv t s)"
      using launched_onward [OF ok q False x s'(2)] by (simp add: same_run_def restatused_wanted [OF r] restatused_views(1) [OF r])
    ultimately have "scheduled s (launched d q oper sts cv t s)"
      using sim_ok_launched(1) [OF ok w d False x] d by (auto simp: scheduled_def)
    then show ?thesis using s'(1) \<open>launched d q oper sts cv t s \<noteq> s\<close> by blast
  qed
qed

subsection \<open>The loops\<close>

text \<open>Nothing to start for a disk, among the requests from \<open>k\<close> on.\<close>

definition stuck_from :: "nat \<Rightarrow> int \<Rightarrow> sim \<Rightarrow> bool" where
  "stuck_from k d s \<longleftrightarrow>
     (\<forall>q. k \<le> q \<longrightarrow> in_window s q \<longrightarrow> decide (mapping s) d (request_queue s ! q) = None)"

lemma window_loop:
  assumes "sim_ok s" "d \<in> disk_set" "k \<le> queue_size s"
    and "window s = - 1 \<or> count = min (int k) (window s)"
  shows "\<exists>c s'. for_acc [k..<queue_size s] count (window_step d) s = Ok c s' \<and>
    scheduled s s' \<and> (s' = s \<and> \<not> busy s d \<longrightarrow> stuck_from k d s)"
  using assms
proof (induction "queue_size s - k" arbitrary: k count s)
  case 0
  then show ?case by (auto simp: stuck_from_def in_window_def)
next
  case (Suc n)
  then have k: "k < queue_size s" by simp
  have n: "n = queue_size s - Suc k" using Suc.hyps(2) by simp
  have upt: "[k..<queue_size s] = k # [Suc k..<queue_size s]" using k by (rule upt_conv_Cons)
  have w: "window s = - 1 \<or> 1 \<le> window s"
    using sim_okD(11,12) [OF Suc.prems(1)] by (auto simp: window_ok_def)
  show ?case
  proof (cases "window s \<noteq> - 1 \<and> count \<ge> window s")
    case True
    then have out: "\<not> int k < window s" "window s \<noteq> - 1" using Suc.prems(4) by auto
    obtain c s' where s': "for_acc [Suc k..<queue_size s] count (window_step d) s = Ok c s'" "scheduled s s'"
      using Suc.hyps(1) [of s "Suc k" count] Suc.prems n k out by auto
    have "stuck_from k d s" using out by (auto simp: stuck_from_def in_window_def)
    moreover have "window_step d k count s = Ok count s" using True by (simp add: window_step_def)
    ultimately show ?thesis using s' by (auto simp: upt)
  next
    case False
    then have count: "window s = - 1 \<or> count = int k \<and> int k < window s" using Suc.prems(4) by auto
    obtain s1 where s1: "schedule d k s = Ok () s1" "scheduled s s1"
      "s1 = s \<and> \<not> busy s d \<longrightarrow> decide (mapping s) d (request_queue s ! k) = None"
      using schedule_scheduled [OF Suc.prems(1) _ Suc.prems(2), of k] k count by (auto simp: in_window_def)
    have r: "same_run s s1" "sim_ok s1" using s1(2) by (auto simp: scheduled_def)
    then have size: "queue_size s1 = queue_size s" and win: "window s1 = window s"
      by (simp_all add: same_run_def)
    have "\<exists>c s'. for_acc [Suc k..<queue_size s1] (count + 1) (window_step d) s1 = Ok c s' \<and>
      scheduled s1 s' \<and> (s' = s1 \<and> \<not> busy s1 d \<longrightarrow> stuck_from (Suc k) d s1)"
      using Suc.hyps(2) k r(2) Suc.prems(2) count by (intro Suc.hyps(1)) (auto simp: size win)
    then obtain c s' where s': "for_acc [Suc k..<queue_size s] (count + 1) (window_step d) s1 = Ok c s'"
      "scheduled s1 s'" "s' = s1 \<and> \<not> busy s1 d \<longrightarrow> stuck_from (Suc k) d s1" unfolding size by blast
    have "stuck_from k d s" if "s' = s" "\<not> busy s d"
    proof -
      have "s1 = s" using scheduled_trans(2) [OF s1(2) s'(2) that(1)] .
      then have "decide (mapping s) d (request_queue s ! k) = None" "stuck_from (Suc k) d s"
        using s1(3) s'(3) that by auto
      then show ?thesis by (auto simp: stuck_from_def Suc_le_eq) (metis le_neq_implies_less)
    qed
    moreover have "window_step d k count s = Ok (count + 1) s1" using s1(1) False by (simp add: window_step_def)
    ultimately show ?thesis using s'(1) scheduled_trans(1) [OF s1(2) s'(2)] by (auto simp: upt)
  qed
qed

lemma schedule_disk_scheduled:
  assumes "sim_ok s" "d \<in> disk_set"
  shows "\<exists>s'. schedule_disk d s = Ok () s' \<and> scheduled s s' \<and> (s' = s \<and> \<not> busy s d \<longrightarrow> stuck_from 0 d s)"
proof -
  have "window s = - 1 \<or> 0 = min (int 0) (window s)"
    using sim_okD(11,12) [OF assms(1)] by (auto simp: window_ok_def)
  then obtain c s' where "for_acc [0..<queue_size s] 0 (window_step d) s = Ok c s'" "scheduled s s'"
    "s' = s \<and> \<not> busy s d \<longrightarrow> stuck_from 0 d s"
    using window_loop [OF assms, of 0 0] by auto
  then show ?thesis by (simp add: schedule_disk_def queue_length_def)
qed

lemma schedule_disks_scheduled:
  assumes "sim_ok s" "set ds \<subseteq> disk_set"
  shows "\<exists>s'. for_each ds schedule_disk s = Ok () s' \<and>
    scheduled s s' \<and> (s' = s \<longrightarrow> (\<forall>d \<in> set ds. \<not> busy s d \<longrightarrow> stuck_from 0 d s))"
  using assms
proof (induction ds arbitrary: s)
  case Nil
  then show ?case by simp
next
  case (Cons d ds)
  obtain s1 where s1: "schedule_disk d s = Ok () s1" "scheduled s s1"
    "s1 = s \<and> \<not> busy s d \<longrightarrow> stuck_from 0 d s"
    using schedule_disk_scheduled [of s d] Cons.prems by auto
  have "sim_ok s1" using s1(2) by (simp add: scheduled_def)
  have sub: "set ds \<subseteq> disk_set" using Cons.prems(2) by simp
  obtain s' where s': "for_each ds schedule_disk s1 = Ok () s'"
    "scheduled s1 s'" "s' = s1 \<longrightarrow> (\<forall>d \<in> set ds. \<not> busy s1 d \<longrightarrow> stuck_from 0 d s1)"
    using Cons.IH [OF \<open>sim_ok s1\<close> sub] by blast
  have "\<forall>x \<in> set (d # ds). \<not> busy s x \<longrightarrow> stuck_from 0 x s" if "s' = s"
    using scheduled_trans(2) [OF s1(2) s'(2) that] s1(3) s'(3) that by auto
  then show ?case using s1(1) s'(1) scheduled_trans(1) [OF s1(2) s'(2)] by auto
qed

subsection \<open>No deadlock\<close>

lemma busy_disks_0: "busy_disks s = 0 \<longleftrightarrow> (\<forall>d \<in> disk_set. \<not> busy s d)"
  by (auto simp: busy_disks_def)

lemma total_todo_0: "total_todo s = 0 \<longleftrightarrow> (\<forall>q < queue_size s. request_todo (mapping s) (request_queue s ! q) = 0)"
  by (simp add: total_todo_def all_set_conv_all_nth)

lemma accounts_done:
  assumes ok: "sim_ok s"
  shows "request_count s = request_count_needed s \<longleftrightarrow>
      (\<forall>d \<in> disk_set. \<not> busy s d) \<and> (\<forall>q < queue_size s. request_todo (mapping s) (request_queue s ! q) = 0)"
    and "request_count s = request_count_needed s \<Longrightarrow> logical_requests s = int (queue_size s)"
proof -
  have a: "request_count s = request_count_needed s \<longleftrightarrow> busy_disks s = 0 \<and> total_todo s = 0"
    using sim_okD(13) [OF ok] by (auto simp: accounts_def)
  then show b: "request_count s = request_count_needed s \<longleftrightarrow>
      (\<forall>d \<in> disk_set. \<not> busy s d) \<and> (\<forall>q < queue_size s. request_todo (mapping s) (request_queue s ! q) = 0)"
    by (simp only: busy_disks_0 total_todo_0)
  assume "request_count s = request_count_needed s"
  then have "{q. q < queue_size s \<and> served s q} = {..<queue_size s}" using b by (auto simp: served_def)
  then show "logical_requests s = int (queue_size s)" using sim_okD(11) [OF ok] by simp
qed

lemma idle_request_stuck:
  assumes ok: "sim_ok s" and q: "q < queue_size s" and idle: "\<forall>d \<in> disk_set. \<not> busy s d"
    and stuck: "\<forall>d \<in> disk_set. decide (mapping s) d (request_queue s ! q) = None"
  shows "served s q"
proof (rule ccontr)
  assume "\<not> served s q"
  then have t: "todo (kind_of s q) (status_of s q) \<noteq> 0"
    using idle by (auto simp: served_def request_todo_def kind_of_def status_of_def)
  have st: "status_ok s q" using sim_okD(10) [OF ok q] .
  have "\<not> moving (status_of s q ! j)" if "kind_of s q \<noteq> ParityRead" "j < length (status_of s q)" for j
    using status_okD(1) [OF st that] idle disks_of_range [of j s q] placed_lengths [OF sim_okD(3) [OF ok] q] that(2)
    by auto
  then obtain d where "d \<in> set (block_disks (mapping s) (logical_address (request_queue s ! q)))"
    "decide (mapping s) d (request_queue s ! q) \<noteq> None"
    using todo_decide [OF sim_ok_placed [OF ok q]] st t by (auto simp: status_ok_def kind_of_def status_of_def)
  then show False using stuck block_disks_range by auto
qed

lemma no_deadlock:
  assumes ok: "sim_ok s" and idle: "\<forall>d \<in> disk_set. \<not> busy s d" and stuck: "\<forall>d \<in> disk_set. stuck_from 0 d s"
  shows "request_count s = request_count_needed s"
proof -
  have in_w: "served s q" if "in_window s q" for q
    using idle_request_stuck [OF ok _ idle] stuck that by (auto simp: stuck_from_def in_window_def)
  have "served s q" if q: "q < queue_size s" for q
  proof (cases "window s = - 1")
    case True
    then show ?thesis using in_w q by (simp add: in_window_def)
  next
    case False
    then have w: "1 + logical_requests s \<le> window s" using sim_okD(12) [OF ok] by (simp add: window_ok_def)
    have "queue_size s \<le> nat (window s)"
    proof (rule ccontr)
      assume "\<not> queue_size s \<le> nat (window s)"
      then have "x < queue_size s \<and> served s x" if "x < nat (window s)" for x
        using in_w [of x] that by (simp add: in_window_def) linarith
      then have "{..<nat (window s)} \<subseteq> {q. q < queue_size s \<and> served s q}" by blast
      from card_mono [OF _ this] have "nat (window s) \<le> card {q. q < queue_size s \<and> served s q}" by simp
      then show False using w sim_okD(11) [OF ok] by linarith
    qed
    then have "int q < window s" using q by linarith
    then show ?thesis using in_w q by (simp add: in_window_def)
  qed
  then show ?thesis using accounts_done(1) [OF ok] idle by (simp add: served_def)
qed

subsection \<open>The whole method\<close>

lemma fl_of_int_pos: "0 < n \<Longrightarrow> fl_of_int n \<noteq> 0"
  using rnd_pos [of "of_int n"] by (simp add: fl_of_int_def)

definition stat_lines :: "sim \<Rightarrow> gline list" where
  "stat_lines s =
     [StatTotalTime (timer s), StatRequests (logical_requests s),
      StatAvgLatency (fl_div (fl_of_int (latency_total s)) (fl_of_int (logical_requests s)))]"

text \<open>Either everything is done and reported, or some disk is busy afterwards.\<close>

definition reported :: "sim \<Rightarrow> sim \<Rightarrow> bool" where
  "reported s s' \<longleftrightarrow>
     (\<exists>cv. s' = s\<lparr>canvas := cv, printed := printed s @ stat_lines s, do_animate := False, is_done := True\<rparr>)"

lemma GetNextIOs_done:
  assumes "request_count s = request_count_needed s" "0 < logical_requests s"
  shows "\<exists>s'. GetNextIOs s = Ok () s' \<and> reported s s'"
  using assms fl_of_int_pos [of "logical_requests s"]
  by (simp add: GetNextIOs_def UpdateTime_def canvas_ops PrintStats_def gprint_def reported_def stat_lines_def)
    blast

lemma GetNextIOs_spec:
  assumes ok: "sim_ok s"
  shows "request_count s = request_count_needed s \<Longrightarrow> \<exists>s'. GetNextIOs s = Ok () s' \<and> reported s s'"
    and "request_count s \<noteq> request_count_needed s \<Longrightarrow>
      \<exists>s'. GetNextIOs s = Ok () s' \<and> scheduled s s' \<and> (\<exists>d \<in> disk_set. busy s' d)"
proof -
  show "\<exists>s'. GetNextIOs s = Ok () s' \<and> reported s s'" if "request_count s = request_count_needed s"
    using GetNextIOs_done [OF that] accounts_done(2) [OF ok that] sim_okD(4) [OF ok] by simp
  assume nd: "request_count s \<noteq> request_count_needed s"
  have ds: "set (py_range 0 4) = disk_set" by (auto simp: disk_set_def)
  obtain s' where s': "for_each (py_range 0 4) schedule_disk s = Ok () s'"
    "scheduled s s'" "s' = s \<longrightarrow> (\<forall>d \<in> set (py_range 0 4). \<not> busy s d \<longrightarrow> stuck_from 0 d s)"
    using schedule_disks_scheduled [OF ok, of "py_range 0 4"] ds by blast
  have "GetNextIOs s = Ok () s'"
    using s'(1) nd sim_okD(1) [OF ok] by (simp add: GetNextIOs_def tables_ok_def)
  moreover have "\<exists>d \<in> disk_set. busy s' d"
  proof (rule ccontr)
    assume no: "\<not> (\<exists>d \<in> disk_set. busy s' d)"
    then have "s' = s" using s'(2) by (auto simp: scheduled_def)
    then show False using no_deadlock [OF ok] no s'(3) ds nd by auto
  qed
  ultimately show "\<exists>s'. GetNextIOs s = Ok () s' \<and> scheduled s s' \<and> (\<exists>d \<in> disk_set. busy s' d)"
    using s'(2) by blast
qed

end
