(* ===== verification/Graphics_Tick.thy ===== *)
theory Graphics_Tick
  imports Graphics_Schedule
begin

section \<open>One tick of the animation\<close>

text \<open>
  A busy disk moves its head, starts or continues its transfer, or completes it; each keeps the
  invariant and uses up energy, and none of the lookups on the way fails.
\<close>

definition tick_disk :: "int \<Rightarrow> (sim, unit) py" where
  "tick_disk d = pseq (seek_step d) (transfer_step d)"

lemma sim_ok_entry:
  assumes "sim_ok s" "d \<in> disk_set"
  obtains p st l c o' v tc cr cw where
    "head_position s d = Some p" "disk_state s d = Some st" "last_target s d = Some l"
    "current_target s d = Some c" "current_optype s d = Some o'" "seek_delta s d = Some v"
    "transfer_count s d = Some tc" "count_reads s d = Some cr" "count_writes s d = Some cw"
  using sim_okD(2) [OF assms(1)] assms(2) unfolding entries_ok_def by (auto simp: disk_set_def)

lemma busy_states:
  assumes "sim_ok s" "d \<in> disk_set"
  shows "busy s d \<longleftrightarrow> disk_state s d = Some STATE_SEEK \<or> disk_state s d = Some STATE_XFER"
  using sim_okD(7) [OF assms] by (auto simp: flight_ok_def busy_def)

lemma tick_idle:
  assumes "sim_ok s" "d \<in> disk_set" "\<not> busy s d"
  shows "tick_disk d s = Ok () s"
  using assms(3) by (simp add: tick_disk_def seek_step_def transfer_step_def busy_def)

text \<open>What is known of a busy disk's target.\<close>

lemma busy_target:
  assumes ok: "sim_ok s" and d: "d \<in> disk_set" and b: "busy s d"
  obtains i oper where "position_of d (disks_of s (target s d)) = Some i"
    "status_of s (target s d) ! i = do_op oper" "current_optype s d = Some (Some oper)"
    "target s d < queue_size s" "current_target s d = Some (Some (target s d))"
  using sim_okD(7) [OF ok d] b by (auto simp: flight_ok_def in_window_def)

lemma target_offset_apply:
  assumes "current_target t d = Some (Some q)" "q < queue_size t" "phys_offset (request_queue t ! q) = Some off"
  shows "target_offset d t = Ok off t"
  using assms by (simp add: target_offset_def target_of_def)

lemma busy_offset:
  assumes ok: "sim_ok s" and d: "d \<in> disk_set" and b: "busy s d"
  shows "target_offset d s = Ok (row_of s (target s d)) s"
proof -
  obtain i where t: "target s d < queue_size s" "current_target s d = Some (Some (target s d))"
    using busy_target [OF ok d b] by metis
  show ?thesis
    using target_offset_apply [OF t(2,1)] placedD(4) [OF sim_ok_placed [OF ok t(1)]] by (simp add: row_of_def)
qed

subsection \<open>Seeking\<close>

lemma sum_less_one_disk:
  fixes f g :: "int \<Rightarrow> nat"
  assumes "d \<in> disk_set" "\<And>d'. d' \<in> disk_set \<Longrightarrow> d' \<noteq> d \<Longrightarrow> g d' = f d'" "g d < f d"
  shows "(\<Sum>x \<in> disk_set. g x) < (\<Sum>x \<in> disk_set. f x)"
proof -
  have "(\<Sum>x \<in> disk_set. g x) + f d = (\<Sum>x \<in> disk_set. f x) + g d"
    by (rule sum_one_disk [OF assms(1)]) (rule assms(2))
  then show ?thesis using assms(3) by linarith
qed

text \<open>A change of the per-disk tables of one disk that leaves it busy with the same request.\<close>

definition retabled :: "int \<Rightarrow> sim \<Rightarrow> sim \<Rightarrow> bool" where
  "retabled d s s' \<longleftrightarrow>
     (\<exists>cv hp ds tc. s' = s\<lparr>canvas := cv, head_position := (head_position s)(d \<mapsto> hp),
        disk_state := (disk_state s)(d \<mapsto> ds), transfer_count := (transfer_count s)(d \<mapsto> tc)\<rparr> \<and>
        (ds = STATE_SEEK \<or> ds = STATE_XFER))"

lemma retabled_sel:
  assumes "retabled d s s'"
  shows "request_queue s' = request_queue s" "mapping s' = mapping s" "window s' = window s"
    "disk_count s' = disk_count s" "seek_speed s' = seek_speed s" "current_target s' = current_target s"
    "current_optype s' = current_optype s" "last_target s' = last_target s" "seek_delta s' = seek_delta s"
    "request_count s' = request_count s" "request_count_needed s' = request_count_needed s"
    "logical_requests s' = logical_requests s" "timer s' = timer s" "printed s' = printed s"
    "do_animate s' = do_animate s" "is_done s' = is_done s" "pending s' = pending s"
    "busy s' x \<longleftrightarrow> x = d \<or> busy s x" "x \<noteq> d \<Longrightarrow> disk_state s' x = disk_state s x"
    "x \<noteq> d \<Longrightarrow> head_position s' x = head_position s x" "x \<noteq> d \<Longrightarrow> transfer_count s' x = transfer_count s x"
    "tables_ok s' = tables_ok s" "entries_ok s \<Longrightarrow> entries_ok s'" "requests_ok s' = requests_ok s"
    "disk_state s' d = Some STATE_SEEK \<or> disk_state s' d = Some STATE_XFER"
    "latency_total s' = latency_total s" "count_reads s' = count_reads s" "count_writes s' = count_writes s"
  using assms
  by (auto simp: retabled_def busy_def tables_ok_def entries_ok_def requests_ok_def split: if_splits)

lemma retabled_ok:
  assumes ok: "sim_ok s" and d: "d \<in> disk_set" and b: "busy s d" and r: "retabled d s s'"
    and h: "head_ok s' d" and less: "ticks_left s' d < ticks_left s d"
  shows "sim_ok s'" "energy s' < energy s"
proof -
  note R = retabled_sel [OF r]
  have view: "target s' x = target s x" "disks_of s' y = disks_of s y" "row_of s' y = row_of s y"
    "kind_of s' y = kind_of s y" "status_of s' y = status_of s y" "in_window s' y = in_window s y" for x y
    by (simp_all add: target_def disks_of_def row_of_def kind_of_def status_of_def in_window_def R)
  have busy: "busy s' x \<longleftrightarrow> busy s x" for x using b R(18) by auto
  have fl: "flight_ok s' x" if "x \<in> disk_set" for x
    using sim_okD(7) [OF ok that] R(19) [of x] R(25) by (cases "x = d") (auto simp: flight_ok_def busy view R)
  have hd: "head_ok s' x" if "x \<in> disk_set" for x
    using sim_okD(8) [OF ok that] h R(19) [of x] R(20) [of x] R(21) [of x]
    by (cases "x = d") (auto simp: head_ok_def head_y_def goal_y_def view R)
  have "served s' x \<longleftrightarrow> served s x" for x by (simp add: served_def busy view R)
  then show "sim_ok s'"
    using sim_okD [OF ok] fl hd R(23)
    by (simp add: sim_ok_def R(1-17) R(22,24,27,28) last_ok_def status_ok_def busy view window_ok_def
        accounts_def busy_disks_def total_todo_def tally_def)
  have "ticks_left s' x = ticks_left s x" if "x \<noteq> d" for x
    using R(19) [OF that] R(20) [OF that] R(21) [OF that]
    by (simp add: ticks_left_def head_y_def goal_y_def view R split: option.split activity.split)
  then have "(\<Sum>x \<in> disk_set. ticks_left s' x) < (\<Sum>x \<in> disk_set. ticks_left s x)"
    using less by (intro sum_less_one_disk [OF d]) auto
  then show "energy s' < energy s" by (simp add: energy_def total_todo_def R)
qed

lemma DoneWithSeek_apply:
  assumes ok: "sim_ok s" and d: "d \<in> disk_set" and b: "busy s d"
  shows "DoneWithSeek d s = Ok (head_y s d = goal_y s d) s"
proof -
  obtain i where t: "target s d < queue_size s" "current_target s d = Some (Some (target s d))"
    using busy_target [OF ok d b] by metis
  obtain p where p: "head_position s d = Some p" using sim_ok_entry [OF ok d] by metis
  have "offset_to_ypos s (row_of s (target s d)) = Some (goal_y s d)"
    using row_of_range [OF ok t(1)] sim_okD(1) [OF ok] by (simp add: tables_ok_def goal_y_def)
  then show ?thesis
    using busy_offset [OF ok d b] t(2) p
    by (simp add: DoneWithSeek_def GetHeadPosition_def head_y_def)
qed

lemma MoveHead_tick:
  assumes ok: "sim_ok s" and d: "d \<in> disk_set" and seek: "disk_state s d = Some STATE_SEEK"
    and far: "head_y s d \<noteq> goal_y s d"
  shows "\<exists>s'. MoveHead d s = Ok () s' \<and> retabled d s s' \<and> disk_state s' d = Some STATE_SEEK \<and>
    head_ok s' d \<and> ticks_left s' d < ticks_left s d"
proof -
  obtain p where p: "head_position s d = Some p" using sim_ok_entry [OF ok d] by metis
  obtain tc where tc: "transfer_count s d = Some tc" using sim_ok_entry [OF ok d] by metis
  obtain ident where ident: "head_ids s d = Some ident"
    using sim_okD(1) [OF ok] d by (fastforce simp: tables_ok_def)
  obtain k delta where k: "seek_delta s d = Some delta" "\<bar>delta\<bar> = seek_speed s" "0 \<le> k" "k \<le> 380"
    "goal_y s d = head_y s d + k * delta"
    using sim_okD(8) [OF ok d] seek by (auto simp: head_ok_def)
  have delta0: "delta \<noteq> 0" using k(2) sim_okD(5) [OF ok] by auto
  have k1: "1 \<le> k" using far k(3,5) by (cases "k = 0") auto
  let ?p = "p\<lparr>pos_y1 := pos_y1 p + delta, pos_y2 := pos_y2 p + delta\<rparr>"
  define cv where "cv = canvas (final (MoveHead d s))"
  have s': "MoveHead d s = Ok () (s\<lparr>canvas := cv, head_position := (head_position s)(d \<mapsto> ?p)\<rparr>)"
    using p k(1) ident by (simp add: cv_def MoveHead_def canvas_ops Let_def)
  let ?s = "s\<lparr>canvas := cv, head_position := (head_position s)(d \<mapsto> ?p)\<rparr>"
  have "?s = s\<lparr>canvas := cv, head_position := (head_position s)(d \<mapsto> ?p),
      disk_state := (disk_state s)(d \<mapsto> STATE_SEEK), transfer_count := (transfer_count s)(d \<mapsto> tc)\<rparr>"
    using seek tc by (simp add: fun_upd_idem)
  then have r: "retabled d s ?s" unfolding retabled_def by blast
  have goal: "goal_y ?s d = goal_y s d" by (simp add: goal_y_def target_def row_of_def)
  have y: "head_y ?s d = head_y s d + delta" using p by (simp add: head_y_def)
  have rest: "goal_y ?s d = head_y ?s d + (k - 1) * delta" unfolding goal y k(5) by (simp add: algebra_simps)
  have "head_ok ?s d" using seek k k1 rest by (auto simp: head_ok_def intro!: exI [of _ "k - 1"])
  moreover have "ticks_left ?s d = nat (k - 1) + 11" "ticks_left s d = nat k + 11"
    using seek k(1,5) rest delta0 by (simp_all add: ticks_left_def)
  ultimately show ?thesis using s' r seek k1 by (intro exI [of _ ?s]) simp
qed

lemma arrive_tick:
  assumes ok: "sim_ok s" and d: "d \<in> disk_set" and seek: "disk_state s d = Some STATE_SEEK"
    and near: "head_y s d = goal_y s d"
  shows "\<exists>s'. seek_step d s = Ok () s' \<and> retabled d s s' \<and> disk_state s' d = Some STATE_XFER \<and>
    head_ok s' d \<and> ticks_left s' d < ticks_left s d"
proof -
  have b: "busy s d" using seek by (simp add: busy_def)
  obtain i where t: "target s d < queue_size s" "current_target s d = Some (Some (target s d))"
    using busy_target [OF ok d b] by metis
  obtain p where p: "head_position s d = Some p" using sim_ok_entry [OF ok d] by metis
  obtain l where l: "last_target s d = Some l" using sim_ok_entry [OF ok d] by metis
  let ?t = "s\<lparr>disk_state := (disk_state s)(d \<mapsto> STATE_XFER)\<rparr>"
  have off: "target_offset d ?t = Ok (row_of s (target s d)) ?t"
    using target_offset_apply [of ?t d "target s d"] t placedD(4) [OF sim_ok_placed [OF ok t(1)]]
    by (simp add: row_of_def)
  obtain rid where rid: "disk_and_offset_to_rect_id s (d, row_of s (target s d)) = Some rid"
    using sim_okD(1) [OF ok] d row_of_range [OF ok t(1)] by (fastforce simp: tables_ok_def)
  have "\<exists>off'. (case l of None \<Rightarrow> return (- 1) | Some q \<Rightarrow> on_request q GetPhysicalOffset) ?t = Ok off' ?t"
  proof (cases l)
    case None
    then show ?thesis by simp
  next
    case (Some q)
    then have "q < queue_size s" using sim_okD(9) [OF ok d] l by (simp add: last_ok_def)
    then show ?thesis using Some placedD(4) [OF sim_ok_placed [OF ok]] by simp
  qed
  then obtain off' where off': "(case l of None \<Rightarrow> return (- 1) | Some q \<Rightarrow> on_request q GetPhysicalOffset) ?t = Ok off' ?t" ..
  define c :: int where "c = (if row_of s (target s d) = off' + 1 then 1 else 10)"
  let ?s = "?t\<lparr>transfer_count := (transfer_count s)(d \<mapsto> c)\<rparr>"
  have s': "seek_step d s = Ok () ?s"
    using DoneWithSeek_apply [OF ok d b] near seek off rid l off'
    by (simp add: seek_step_def set_disk_state_def StartTransfer_def c_def)
  have "?s = s\<lparr>canvas := canvas s, head_position := (head_position s)(d \<mapsto> p),
      disk_state := (disk_state s)(d \<mapsto> STATE_XFER), transfer_count := (transfer_count s)(d \<mapsto> c)\<rparr>"
    using p by (simp add: fun_upd_idem)
  then have r: "retabled d s ?s" unfolding retabled_def by blast
  have "goal_y ?s d = goal_y s d" "head_y ?s d = head_y s d"
    by (simp_all add: goal_y_def target_def row_of_def head_y_def)
  then have "head_ok ?s d" using near by (simp add: head_ok_def c_def)
  moreover have "ticks_left ?s d < ticks_left s d" using seek near by (simp add: ticks_left_def c_def)
  ultimately show ?thesis using s' r by (intro exI [of _ ?s]) simp
qed

subsection \<open>Completing an I/O\<close>

definition count_up :: "optype \<Rightarrow> optype \<Rightarrow> int \<Rightarrow> (int \<rightharpoonup> int) \<Rightarrow> (int \<rightharpoonup> int)" where
  "count_up mine oper d m = (if mine = oper then m(d \<mapsto> the (m d) + 1) else m)"

definition settled :: "int \<Rightarrow> optype \<Rightarrow> req_status list \<Rightarrow> bool \<Rightarrow> int \<Rightarrow> item list \<Rightarrow> sim \<Rightarrow> sim" where
  "settled d oper sts rep lat cv s =
     (let q = target s d; r = request_queue s ! q in
      s\<lparr>canvas := cv, count_reads := count_up OP_READ oper d (count_reads s),
        count_writes := count_up OP_WRITE oper d (count_writes s),
        request_queue := (request_queue s)[q := restatus sts (start_time r) r],
        logical_requests := logical_requests s + (if rep then 1 else 0),
        latency_total := latency_total s + (if rep then lat else 0),
        window := (if rep \<and> window s > 0 then window s + 1 else window s),
        request_count := request_count s + 1,
        disk_state := (disk_state s)(d \<mapsto> STATE_NULL),
        transfer_count := (transfer_count s)(d \<mapsto> 0)\<rparr>)"

lemma counter_apply:
  assumes ok: "tables_ok s" "entries_ok s" and d: "d \<in> disk_set"
  shows "\<exists>cv. (if Some oper = Some OP_WRITE then UpdateWriteCounter d 1
      else if Some oper = Some OP_READ then UpdateReadCounter d 1 else return ()) s =
    Ok () (s\<lparr>canvas := cv, count_reads := count_up OP_READ oper d (count_reads s),
      count_writes := count_up OP_WRITE oper d (count_writes s)\<rparr>)"
proof -
  obtain cr cw where c: "count_reads s d = Some cr" "count_writes s d = Some cw"
    using ok(2) d by (fastforce simp: entries_ok_def)
  obtain ri wi where i: "count_reads_id s d = Some ri" "count_writes_id s d = Some wi"
    using ok(1) d by (fastforce simp: tables_ok_def)
  show ?thesis
    by (rule exI [where x = "canvas (final ((if Some oper = Some OP_WRITE then UpdateWriteCounter d 1
      else if Some oper = Some OP_READ then UpdateReadCounter d 1 else return ()) s))"], cases oper)
      (simp_all add: UpdateReadCounter_def UpdateWriteCounter_def canvas_ops count_up_def c i)
qed

lemma MarkDone_apply:
  assumes ok: "sim_ok s" and d: "d \<in> disk_set" and b: "busy s d"
  shows "\<exists>i oper lat cv.
    lat = latency_of (timer s) (request_queue s ! target s d) (snd (complete (mapping s) i (request_queue s ! target s d))) \<and>
    position_of d (disks_of s (target s d)) = Some i \<and>
    status_of s (target s d) ! i = do_op oper \<and> current_optype s d = Some (Some oper) \<and>
    pseq (MarkDone d) (pseq (modify (\<lambda>s. s\<lparr>request_count := request_count s + 1\<rparr>)) (set_disk_state d STATE_NULL))
      (s\<lparr>transfer_count := (transfer_count s)(d \<mapsto> 0)\<rparr>) =
    Ok () (settled d oper (fst (complete (mapping s) i (request_queue s ! target s d)))
      (snd (complete (mapping s) i (request_queue s ! target s d))) lat cv s)"
proof -
  obtain i oper where i: "position_of d (disks_of s (target s d)) = Some i"
    "status_of s (target s d) ! i = do_op oper" "current_optype s d = Some (Some oper)"
    "target s d < queue_size s" "current_target s d = Some (Some (target s d))"
    using busy_target [OF ok d b] by metis
  let ?q = "target s d" and ?t = "s\<lparr>transfer_count := (transfer_count s)(d \<mapsto> 0)\<rparr>"
  let ?r = "request_queue s ! target s d"
  have t: "tables_ok ?t" "entries_ok ?t"
    using sim_okD(1,2) [OF ok] by (simp_all add: tables_ok_def entries_ok_def)
  obtain cv where cv: "(if Some oper = Some OP_WRITE then UpdateWriteCounter d 1
      else if Some oper = Some OP_READ then UpdateReadCounter d 1 else return ()) ?t =
    Ok () (?t\<lparr>canvas := cv, count_reads := count_up OP_READ oper d (count_reads s),
      count_writes := count_up OP_WRITE oper d (count_writes s)\<rparr>)"
    using counter_apply [OF t d, of oper] by auto
  let ?u = "?t\<lparr>canvas := cv, count_reads := count_up OP_READ oper d (count_reads s),
      count_writes := count_up OP_WRITE oper d (count_writes s)\<rparr>"
  have "entries_ok ?u" using sim_okD(2) [OF ok] by (simp add: entries_ok_def count_up_def)
  then have ready: "ready ?u d ?q"
    using sim_okD(1,3) [OF ok] i(4) d by (simp add: ready_def tables_ok_def requests_ok_def)
  have f: "in_flight_at (mapping ?u) i (request_queue ?u ! ?q)"
    using i(2) by (cases oper) (auto simp: in_flight_at_def status_of_def do_op_def)
  define lat where "lat = latency_of (timer s) ?r (snd (complete (mapping s) i ?r))"
  have lat: "level_done ?q d ?u =
    Ok (snd (complete (mapping s) i ?r), lat)
      (?u\<lparr>request_queue := (request_queue s)[?q := restatus (fst (complete (mapping s) i ?r)) (start_time ?r) ?r]\<rparr>)"
    using level_done_apply [OF ready _ f] i(1) by (simp add: disks_of_def lat_def)
  have tgt: "target_of d ?t = Ok ?q ?t" using i(5) by (simp add: target_of_def)
  have "pseq (MarkDone d) (pseq (modify (\<lambda>s. s\<lparr>request_count := request_count s + 1\<rparr>)) (set_disk_state d STATE_NULL)) ?t =
    Ok () (settled d oper (fst (complete (mapping s) i ?r)) (snd (complete (mapping s) i ?r)) lat cv s)"
    using tgt cv lat i(3)
    by (cases "snd (complete (mapping s) i ?r)")
      (simp_all add: MarkDone_def set_disk_state_def settled_def Let_def del: option.inject)
  then show ?thesis using i(1-3) lat_def by blast
qed

lemma settled_sel [simp]:
  "mapping (settled d oper sts rep lat cv s) = mapping s"
  "seek_speed (settled d oper sts rep lat cv s) = seek_speed s"
  "head_position (settled d oper sts rep lat cv s) = head_position s"
  "disk_state (settled d oper sts rep lat cv s) = (disk_state s)(d \<mapsto> STATE_NULL)"
  "last_target (settled d oper sts rep lat cv s) = last_target s"
  "current_target (settled d oper sts rep lat cv s) = current_target s"
  "current_optype (settled d oper sts rep lat cv s) = current_optype s"
  "seek_delta (settled d oper sts rep lat cv s) = seek_delta s"
  "transfer_count (settled d oper sts rep lat cv s) = (transfer_count s)(d \<mapsto> 0)"
  "count_reads (settled d oper sts rep lat cv s) = count_up OP_READ oper d (count_reads s)"
  "count_writes (settled d oper sts rep lat cv s) = count_up OP_WRITE oper d (count_writes s)"
  "request_count (settled d oper sts rep lat cv s) = request_count s + 1"
  "request_count_needed (settled d oper sts rep lat cv s) = request_count_needed s"
  "logical_requests (settled d oper sts rep lat cv s) = logical_requests s + (if rep then 1 else 0)"
  "window (settled d oper sts rep lat cv s) = (if rep \<and> window s > 0 then window s + 1 else window s)"
  "do_animate (settled d oper sts rep lat cv s) = do_animate s"
  "is_done (settled d oper sts rep lat cv s) = is_done s"
  "pending (settled d oper sts rep lat cv s) = pending s"
  "timer (settled d oper sts rep lat cv s) = timer s"
  "printed (settled d oper sts rep lat cv s) = printed s"
  "target (settled d oper sts rep lat cv s) x = target s x"
  "head_y (settled d oper sts rep lat cv s) x = head_y s x"
  by (simp_all add: settled_def Let_def target_def head_y_def)

lemma settled_busy [simp]: "busy (settled d oper sts rep lat cv s) x \<longleftrightarrow> x \<noteq> d \<and> busy s x"
  by (simp add: busy_def)

lemma settled_tally:
  assumes "d \<in> disk_set"
  shows "tally (settled d oper sts rep lat cv s) = tally s + 1"
proof -
  have "the (count_up OP_READ oper d (count_reads s) x) + the (count_up OP_WRITE oper d (count_writes s) x) =
      (the (count_reads s x) + the (count_writes s x)) + (if x = d then 1 else 0)" for x
    by (cases oper) (simp_all add: count_up_def)
  then show ?thesis using assms by (simp add: tally_def sum.distrib)
qed

lemma settled_tables:
  "tables_ok (settled d oper sts rep lat cv s) = tables_ok s"
  "entries_ok s \<Longrightarrow> entries_ok (settled d oper sts rep lat cv s)"
  by (simp_all add: settled_def Let_def tables_ok_def entries_ok_def count_up_def)

lemma settled_restatused:
  "target s d < queue_size s \<Longrightarrow> length sts = length (status_of s (target s d)) \<Longrightarrow>
   restatused s (settled d oper sts rep lat cv s) (target s d) sts"
  by (auto simp: restatused_def settled_def Let_def)

text \<open>A request has another I/O in flight exactly when another of its statuses moves.\<close>

lemma others_busy:
  assumes ok: "sim_ok s" and d: "d \<in> disk_set" and b: "busy s d"
    and i: "position_of d (disks_of s (target s d)) = Some i"
  shows "(\<exists>x \<in> disk_set. x \<noteq> d \<and> busy s x \<and> target s x = target s d) \<longleftrightarrow>
    kind_of s (target s d) \<noteq> ParityRead \<and>
    (\<exists>j < length (status_of s (target s d)). j \<noteq> i \<and> moving (status_of s (target s d) ! j))"
    (is "?L \<longleftrightarrow> ?R")
proof -
  let ?q = "target s d"
  have q: "?q < queue_size s" using busy_target [OF ok d b] by metis
  have st: "status_ok s ?q" using sim_okD(10) [OF ok q] .
  have len: "length (status_of s ?q) = length (disks_of s ?q)" by (rule placed_lengths [OF sim_okD(3) [OF ok] q])
  note P = position_of_place [OF i]
  have zero: "k = 0" if "kind_of s ?q = ParityRead" "k < length (status_of s ?q)" "moving (status_of s ?q ! k)" for k
    using st that by (auto simp: status_ok_def moving_def less_Suc_eq)
  show ?thesis
  proof
    assume ?L
    then obtain x where x: "x \<in> disk_set" "x \<noteq> d" "busy s x" "target s x = ?q" by blast
    obtain j oper where j: "position_of x (disks_of s ?q) = Some j" "status_of s ?q ! j = do_op oper"
      using busy_target [OF ok x(1,3)] x(4) by metis
    have jl: "j < length (status_of s ?q)" "disks_of s ?q ! j = x" using position_of_place [OF j(1)] len by auto
    then have "j \<noteq> i" using P x(2) by auto
    moreover have "kind_of s ?q \<noteq> ParityRead"
    proof
      assume k: "kind_of s ?q = ParityRead"
      obtain i' o' where i': "position_of d (disks_of s ?q) = Some i'" "status_of s ?q ! i' = do_op o'"
        using busy_target [OF ok d b] by metis
      have "i' = i" using i i'(1) by simp
      then have "i = 0" "j = 0" using zero [OF k] i'(2) jl(1) j(2) P(1) len by auto
      then show False using \<open>j \<noteq> i\<close> by simp
    qed
    ultimately show ?R using jl(1) j(2) by (metis moving_do_op)
  next
    assume ?R
    then obtain j where j: "kind_of s ?q \<noteq> ParityRead" "j < length (status_of s ?q)" "j \<noteq> i" "moving (status_of s ?q ! j)"
      by blast
    have "disks_of s ?q ! j \<noteq> d"
      using disks_of_inj [of j s ?q i] P j(2,3) len by auto
    then show ?L using status_okD [OF st j(1,2,4)] disks_of_range [of j s ?q] j(2) len by metis
  qed
qed

lemma settle_setup:
  assumes ok: "sim_ok s" and d: "d \<in> disk_set" and b: "busy s d"
    and i: "position_of d (disks_of s (target s d)) = Some i" "status_of s (target s d) ! i = do_op oper"
    and c: "(sts, rep) = complete (mapping s) i (request_queue s ! target s d)"
  shows "finishes (kind_of s (target s d)) i (status_of s (target s d)) sts rep"
    and "restatused s (settled d oper sts rep lat cv s) (target s d) sts"
    and "i < length (status_of s (target s d))"
proof -
  let ?q = "target s d"
  have q: "?q < queue_size s" using busy_target [OF ok d b] by metis
  have st: "legal (kind_of s ?q) (status_of s ?q)" using sim_okD(10) [OF ok q] by (simp add: status_ok_def)
  show il: "i < length (status_of s ?q)"
    using position_of_place(1) [OF i(1)] placed_lengths [OF sim_okD(3) [OF ok] q] by simp
  have mv: "moving (status_of s ?q ! i)" using i(2) by simp
  have zero: "kind_of s ?q = ParityRead \<longrightarrow> i = 0"
    using st mv il by (auto simp: moving_def less_Suc_eq)
  have "(sts, rep) = complete_kind (kind_of s ?q) i (status_of s ?q)"
    using c complete_by_kind [of "mapping s" "request_queue s ! ?q" i] st mv il
    by (simp add: kind_of_def status_of_def)
  then have "sts = fst (complete_kind (kind_of s ?q) i (status_of s ?q))"
    "rep = snd (complete_kind (kind_of s ?q) i (status_of s ?q))" by (metis fst_conv, metis snd_conv)
  then show f: "finishes (kind_of s ?q) i (status_of s ?q) sts rep"
    using complete_kind_finishes [OF st mv il zero] by simp
  show "restatused s (settled d oper sts rep lat cv s) ?q sts"
    using settled_restatused [OF q finishesD(3) [OF f]] .
qed

end
