(* ===== verification/Graphics_Settle.thy ===== *)
theory Graphics_Settle
  imports Graphics_Tick
begin

section \<open>A completed I/O keeps the invariant\<close>

text \<open>
  The state after \<open>MarkDone\<close>: one more I/O counted, its disk idle, its request moved on, and a
  request reported exactly when its last I/O has been done.
\<close>

text \<open>The I/O that disk \<open>d\<close> completes is the one at place \<open>i\<close> of its request, which then has statuses \<open>sts\<close>.\<close>

definition completing :: "sim \<Rightarrow> int \<Rightarrow> nat \<Rightarrow> optype \<Rightarrow> req_status list \<Rightarrow> bool \<Rightarrow> bool" where
  "completing s d i oper sts rep \<longleftrightarrow>
     sim_ok s \<and> d \<in> disk_set \<and> disk_state s d = Some STATE_XFER \<and>
     position_of d (disks_of s (target s d)) = Some i \<and>
     status_of s (target s d) ! i = do_op oper \<and>
     (sts, rep) = complete (mapping s) i (request_queue s ! target s d)"

lemma completingD:
  assumes "completing s d i oper sts rep"
  shows "sim_ok s" "d \<in> disk_set" "disk_state s d = Some STATE_XFER"
    "position_of d (disks_of s (target s d)) = Some i" "busy s d" "target s d < queue_size s"
  using assms busy_target [of s d] by (auto simp: completing_def busy_def)

lemma completing_finishes:
  assumes "completing s d i oper sts rep"
  shows "finishes (kind_of s (target s d)) i (status_of s (target s d)) sts rep"
    and "restatused s (settled d oper sts rep lat cv s) (target s d) sts"
  using assms settle_setup [OF completingD(1,2,5) [OF assms]] unfolding completing_def by metis+

lemma completing_flight:
  assumes c: "completing s d i oper sts rep" and x: "x \<in> disk_set"
  shows "flight_ok (settled d oper sts rep lat cv s) x"
proof (cases "x \<noteq> d \<and> busy s x")
  case True
  note C = completingD [OF c] and V = restatused_views [OF completing_finishes(2) [OF c]]
  obtain j oper' where j: "position_of x (disks_of s (target s x)) = Some j"
    "status_of s (target s x) ! j = do_op oper'" "current_optype s x = Some (Some oper')"
    "in_window s (target s x)" "current_target s x = Some (Some (target s x))"
    "disk_state s x = Some STATE_SEEK \<or> disk_state s x = Some STATE_XFER"
    using sim_okD(7) [OF C(1) x] True by (auto simp: flight_ok_def)
  have "sts ! j = do_op oper'" if same: "target s x = target s d"
  proof -
    have "j \<noteq> i" using position_of_place(2) [OF C(4)] position_of_place(2) [OF j(1)] True same by auto
    moreover have "j < length (status_of s (target s d))"
      using position_of_place(1) [OF j(1)] placed_lengths [OF sim_okD(3) [OF C(1)] C(6)] same by simp
    ultimately show ?thesis using finishesD(5) [OF completing_finishes(1) [OF c], of j] j(2) same by simp
  qed
  then show ?thesis using True j by (auto simp: flight_ok_def in_window_def V)
qed (auto simp: flight_ok_def)

lemma completing_status:
  assumes c: "completing s d i oper sts rep" and x: "x < queue_size s"
  shows "status_ok (settled d oper sts rep lat cv s) x"
proof -
  let ?s = "settled d oper sts rep lat cv s"
  note C = completingD [OF c] and F = finishesD [OF completing_finishes(1) [OF c]]
    and V = restatused_views [OF completing_finishes(2) [OF c]]
  have sx: "status_ok s x" using sim_okD(10) [OF C(1) x] .
  have "busy ?s (disks_of s x ! j) \<and> target ?s (disks_of s x ! j) = x"
    if k: "kind_of s x \<noteq> ParityRead" "j < length (status_of ?s x)" "moving (status_of ?s x ! j)" for j
  proof -
    have m: "j < length (status_of s x)" "moving (status_of s x ! j)" "x = target s d \<longrightarrow> j \<noteq> i"
      using k F(4) F(5) [of j] F(3) by (auto simp: V split: if_splits) metis+
    have bt: "busy s (disks_of s x ! j)" "target s (disks_of s x ! j) = x" by (fact status_okD [OF sx k(1) m(1,2)])+
    moreover have "disks_of s x ! j \<noteq> d"
      using bt(2) m(1,3) disks_of_inj [of j s "target s d" i] position_of_place [OF C(4)]
        placed_lengths [OF sim_okD(3) [OF C(1)] C(6)] by auto
    ultimately show ?thesis by simp
  qed
  moreover have "legal (kind_of s x) (status_of ?s x)" using sx F(1) by (simp add: V status_ok_def)
  ultimately show ?thesis by (simp add: status_ok_def V(2,3))
qed

lemma completing_head:
  assumes c: "completing s d i oper sts rep" and x: "x \<in> disk_set"
  shows "head_ok (settled d oper sts rep lat cv s) x"
    and "x \<noteq> d \<Longrightarrow> ticks_left (settled d oper sts rep lat cv s) x = ticks_left s x"
    and "ticks_left (settled d oper sts rep lat cv s) d = 0"
proof -
  let ?s = "settled d oper sts rep lat cv s"
  note C = completingD [OF c] and V = restatused_views [OF completing_finishes(2) [OF c]]
  have goal: "goal_y ?s x = goal_y s x" for x by (simp add: goal_y_def V)
  have "head_y s d = 20 * row_of s (target s d) + 100"
    using sim_okD(8) [OF C(1,2)] C(3) by (simp add: head_ok_def goal_y_def)
  then have "head_ok ?s d" using row_of_range [OF C(1,6)] by (auto simp: head_ok_def)
  moreover have "x \<noteq> d \<Longrightarrow> head_ok ?s x" using sim_okD(8) [OF C(1) x] by (simp add: head_ok_def goal)
  ultimately show "head_ok ?s x" by blast
  show "x \<noteq> d \<Longrightarrow> ticks_left ?s x = ticks_left s x"
    by (simp add: ticks_left_def goal split: option.split activity.split)
  show "ticks_left ?s d = 0" by (simp add: ticks_left_def)
qed

lemma completing_served:
  assumes c: "completing s d i oper sts rep"
  shows "served (settled d oper sts rep lat cv s) x \<longleftrightarrow> (if x = target s d then rep else served s x)"
proof -
  note C = completingD [OF c] and F = finishesD [OF completing_finishes(1) [OF c]]
    and V = restatused_views [OF completing_finishes(2) [OF c]]
  show ?thesis
  proof (cases "x = target s d")
    case True
    have "rep \<longleftrightarrow> todo (kind_of s (target s d)) sts = 0 \<and>
        \<not> (\<exists>y \<in> disk_set. y \<noteq> d \<and> busy s y \<and> target s y = target s d)"
      unfolding others_busy [OF C(1,2,5,4)] F(6) F(2) by blast
    moreover have "served (settled d oper sts rep lat cv s) x \<longleftrightarrow> todo (kind_of s (target s d)) sts = 0 \<and>
        (\<forall>y \<in> disk_set. y \<noteq> d \<and> busy s y \<longrightarrow> target s y \<noteq> target s d)"
      using True by (simp add: served_def V)
    ultimately show ?thesis using True by auto
  next
    case False
    then show ?thesis by (auto simp: served_def V)
  qed
qed

text \<open>The counters: requests reported, disks at work, I/Os to start.\<close>

lemma completing_counts:
  assumes c: "completing s d i oper sts rep"
  shows "int (card {x. x < queue_size s \<and> served (settled d oper sts rep lat cv s) x}) =
      int (card {x. x < queue_size s \<and> served s x}) + (if rep then 1 else 0)"
    and "busy_disks s = Suc (busy_disks (settled d oper sts rep lat cv s))"
    and "total_todo (settled d oper sts rep lat cv s) = total_todo s"
proof -
  let ?s = "settled d oper sts rep lat cv s"
  note C = completingD [OF c] and F = completing_finishes [OF c]
  have ns: "\<not> served s (target s d)" using C by (auto simp: served_def)
  have "{x. x < queue_size s \<and> served ?s x} =
      (if rep then insert (target s d) {x. x < queue_size s \<and> served s x} else {x. x < queue_size s \<and> served s x})"
    using C(6) ns by (auto simp: completing_served [OF c] split: if_splits)
  then show "int (card {x. x < queue_size s \<and> served ?s x}) =
      int (card {x. x < queue_size s \<and> served s x}) + (if rep then 1 else 0)" using ns by simp
  show "busy_disks s = Suc (busy_disks ?s)"
    using sum_one_disk [OF C(2), of "\<lambda>x. of_bool (busy ?s x)" "\<lambda>x. of_bool (busy s x)"] C(5)
    by (simp add: busy_disks_def)
  show "total_todo ?s = total_todo s" using restatused_total [OF F(2)] finishesD(2) [OF F(1)] by simp
qed

lemma completing_not_done:
  assumes c: "completing s d i oper sts rep"
  shows "request_count s \<noteq> request_count_needed s" "\<not> is_done s"
  using sim_okD(13,15) [OF completingD(1) [OF c]] completing_counts(2) [OF c] by (auto simp: accounts_def)

lemma completing_ok:
  assumes c: "completing s d i oper sts rep"
  shows "sim_ok (settled d oper sts rep lat cv s)"
    and "energy (settled d oper sts rep lat cv s) < energy s"
proof -
  let ?s = "settled d oper sts rep lat cv s"
  note C = completingD [OF c] and K = completing_counts [OF c]
    and V = restatused_views [OF completing_finishes(2) [OF c]]
  have "last_ok ?s x" if "x \<in> disk_set" for x
    using sim_okD(9) [OF C(1) that] by (simp add: last_ok_def V)
  moreover have "window_ok ?s" using sim_okD(11,12) [OF C(1)] by (auto simp: window_ok_def)
  moreover have "accounts ?s = request_count_needed s"
    using sim_okD(13) [OF C(1)] K(2) [of lat cv] K(3) [of lat cv] by (simp add: accounts_def)
  ultimately show "sim_ok ?s"
    using sim_okD [OF C(1)] completing_not_done [OF c] completing_flight [OF c] completing_status [OF c]
      completing_head(1) [OF c] K(1) settled_tally [OF C(2)] settled_tables(2) restatused_requests_ok [OF completing_finishes(2) [OF c]]
    by (simp add: sim_ok_def settled_tables(1) V(1))
  have "(\<Sum>x \<in> disk_set. ticks_left ?s x) + ticks_left s d = (\<Sum>x \<in> disk_set. ticks_left s x) + ticks_left ?s d"
    by (rule sum_one_disk [OF C(2)]) (rule completing_head(2) [OF c])
  moreover have "0 < ticks_left s d" using sim_okD(8) [OF C(1,2)] C(3) by (auto simp: head_ok_def ticks_left_def)
  ultimately show "energy ?s < energy s" using completing_head(3) [OF c C(2)] K(3) by (simp add: energy_def)
qed

text \<open>If it was a read, it is in now, and its disk has counted it.\<close>

lemma completing_kind:
  assumes c: "completing s d i oper sts rep"
  shows "legal (kind_of s (target s d)) (status_of s (target s d))" "i < length (status_of s (target s d))"
    "status_of s (target s d) ! i = do_op oper"
    "(sts, rep) = complete_kind (kind_of s (target s d)) i (status_of s (target s d))"
proof -
  let ?q = "target s d"
  note C = completingD [OF c]
  show op: "status_of s ?q ! i = do_op oper" using c by (simp add: completing_def)
  have sr: "(sts, rep) = complete (mapping s) i (request_queue s ! ?q)" using c by (simp add: completing_def)
  show st: "legal (kind_of s ?q) (status_of s ?q)" using sim_okD(10) [OF C(1,6)] by (simp add: status_ok_def)
  show il: "i < length (status_of s ?q)"
    using position_of_place(1) [OF C(4)] placed_lengths [OF sim_okD(3) [OF C(1)] C(6)] by simp
  have mv: "moving (status_of s ?q ! i)" by (simp add: op)
  show "(sts, rep) = complete_kind (kind_of s ?q) i (status_of s ?q)"
    using complete_by_kind [of "mapping s" "request_queue s ! ?q" i] st il mv sr by (simp add: kind_of_def status_of_def)
qed

lemma two_phase_read_in:
  assumes "legal TwoPhase st" "(sts, rep) = complete_kind TwoPhase i st" "st ! i = do_op oper" "i < 2" "j < 2"
  shows "sts ! j \<notin> {REQ_NOT_STARTED, REQ_DO_READ} \<longleftrightarrow> st ! j \<notin> {REQ_NOT_STARTED, REQ_DO_READ} \<or> j = i \<and> oper = OP_READ"
proof -
  obtain a b where ab: "st = [a, b]" using assms(1) by (auto elim: two_statuses)
  have i: "i = 0 \<or> i = 1" and j: "j = 0 \<or> j = 1" using assms(4,5) by auto
  show ?thesis
  proof (cases oper)
    case OP_READ
    then have "st ! i = REQ_DO_READ" using assms(3) by (simp add: do_op_def)
    then show ?thesis using assms(2) ab i j OP_READ by (elim disjE) (auto split: if_splits)
  next
    case OP_WRITE
    then have "st ! i = REQ_DO_WRITE" using assms(3) by (simp add: do_op_def)
    then show ?thesis using assms(2) ab i j OP_WRITE by (elim disjE) (auto split: if_splits)
  qed
qed

lemma completing_read_in:
  assumes c: "completing s d i oper sts rep" and m: "mapping s = 4 \<or> mapping s = 5"
  shows "read_in (settled d oper sts rep lat cv s) x y \<longleftrightarrow> read_in s x y \<or> x = target s d \<and> y = d \<and> oper = OP_READ"
    and "oper = OP_READ \<Longrightarrow> \<not> read_in s (target s d) d"
proof -
  let ?q = "target s d"
  define u where "u = settled d oper sts rep lat cv s"
  note C = completingD [OF c] and K = completing_kind [OF c]
    and V = restatused_views [OF completing_finishes(2) [OF c, of lat cv, folded u_def]]
  have B: "busy u y \<longleftrightarrow> y \<noteq> d \<and> busy s y" "target u y = target s y" for y by (simp_all add: u_def)
  have kd: "kind_of s ?q \<in> {TwoPhase, ParityRead, FullData, FullParity}" using m by (auto simp: kind_of_def req_kind_def)
  then have l: "length (status_of s ?q) = 2" using legal_length [OF K(1)] by auto
  then obtain a b where ab: "status_of s ?q = [a, b]" by (rule two_statuses)
  have i: "i = 0 \<or> i = 1" using K(2) l by auto
  show n: "\<not> read_in s ?q d" if "oper = OP_READ"
    using that kd K(3) C(4,5) by (auto simp: read_in_def do_op_def)
  have "read_in u x y \<longleftrightarrow> read_in s x y \<or> x = ?q \<and> y = d \<and> oper = OP_READ"
  proof (cases "x = ?q")
    case False
    then show ?thesis by (auto simp: read_in_def B V split: option.split)
  next
    case True
    have sts: "status_of u ?q = sts" by (simp add: V)
    show ?thesis
    proof (cases "position_of y (disks_of s ?q)")
      case None
      then show ?thesis using True C(4) by (auto simp: read_in_def B V)
    next
      case (Some j)
      have j: "j < 2" "j = i \<longleftrightarrow> y = d"
        using position_of_place [OF Some] position_of_place [OF C(4)] Some C(4) l
          placed_lengths [OF sim_okD(3) [OF C(1)] C(6)] disks_of_inj [of j s ?q i] by auto
      consider "kind_of s ?q = TwoPhase" | "kind_of s ?q = ParityRead" | "kind_of s ?q = FullData" | "kind_of s ?q = FullParity"
        using kd by blast
      then show ?thesis
      proof cases
        case 1
        then show ?thesis
          using two_phase_read_in [OF _ _ K(3) _ j(1), of sts rep] K(1,2,4) l j(2) True Some sts
          by (simp add: read_in_def B V(2,3))
      next
        case 2
        then have p: "i = 0" "oper = OP_READ" "status_of s ?q ! 0 = REQ_DO_READ" "sts = status_of s ?q"
          using K(1,3,4) ab i by (auto simp: do_op_def split: optype.splits)
        show ?thesis
        proof (cases "y = d")
          case True
          then show ?thesis using 2 p j(2) Some sts \<open>x = ?q\<close> by (simp add: read_in_def B V(2,3))
        next
          case False
          then show ?thesis using 2 p j(2) Some \<open>x = ?q\<close> by (simp add: read_in_def B V(2,3))
        qed
      next
        case 3
        then have "oper = OP_WRITE" using K(1,3) ab i by (cases oper) (auto simp: do_op_def)
        then show ?thesis using 3 True Some by (simp add: read_in_def B V(2,3))
      next
        case 4
        then have "oper = OP_WRITE" using K(1,3) ab i by (cases oper) (auto simp: do_op_def)
        then show ?thesis using 4 True Some by (simp add: read_in_def B V(2,3))
      qed
    qed
  qed
  then show "read_in (settled d oper sts rep lat cv s) x y \<longleftrightarrow> read_in s x y \<or> x = ?q \<and> y = d \<and> oper = OP_READ"
    by (simp add: u_def)
qed

lemma completing_reads:
  assumes c: "completing s d i oper sts rep" and r: "reads_ok s"
  shows "reads_ok (settled d oper sts rep lat cv s)"
proof -
  let ?s = "settled d oper sts rep lat cv s"
  note C = completingD [OF c] and V = restatused_views [OF completing_finishes(2) [OF c]]
  have "count_reads ?s y = Some (int (card {q. q < queue_size s \<and> read_in ?s q y}))"
    if m: "mapping s = 4 \<or> mapping s = 5" and y: "y \<in> disk_set" for y
  proof (cases "y = d \<and> oper = OP_READ")
    case True
    then have "{q. q < queue_size s \<and> read_in ?s q y} = insert (target s d) {q. q < queue_size s \<and> read_in s q y}"
      using C(6) completing_read_in(1) [OF c m] by auto
    then show ?thesis
      using True r m y completing_read_in(2) [OF c m] by (simp add: reads_ok_def count_up_def)
  next
    case False
    then show ?thesis using r m y completing_read_in(1) [OF c m, of lat cv _ y] by (auto simp: reads_ok_def count_up_def)
  qed
  then show ?thesis by (simp add: reads_ok_def V(1))
qed

text \<open>The statuses have moved up, and the latency added is the time since the request's first start.\<close>

lemma completing_onward:
  assumes c: "completing s d i oper sts rep" and l: "lat = latency_of (timer s) (request_queue s ! target s d) rep"
  shows "onward s (settled d oper sts rep lat cv s)"
proof -
  let ?q = "target s d" and ?s = "settled d oper sts rep lat cv s"
  note C = completingD [OF c]
  note K = completing_kind [OF c]
  have mv: "moving (status_of s ?q ! i)" by (simp add: K(3))
  have up: "list_all2 (\<le>) (status_of s ?q) sts" using complete_kind_grows [OF K(1) mv K(2)] K(4) by (metis fst_conv)
  have old: "\<exists>st \<in> set (status_of s ?q). st \<noteq> REQ_NOT_STARTED"
    using mv K(2) nth_mem by (force simp: moving_def)
  have time: "0 \<le> start_time (request_queue s ! ?q) \<and> start_time (request_queue s ! ?q) \<le> timer s \<and> 0 \<le> latency_total ?s \<and>
      0 \<le> logical_requests ?s \<and> latency_total ?s \<le> timer s * logical_requests ?s" if k: "clock_ok s"
    using timed_started [OF k C(6) old] k
    by (auto simp: settled_def Let_def l latency_of_def clock_ok_def algebra_simps)
  show ?thesis
    by (rule onward_restatus [OF C(6) _ up list_all2_started [OF up old] time _ completing_reads [OF c]])
      (auto simp: settled_def Let_def)
qed

end
