(* ===== verification/Graphics_Animate.thy ===== *)
theory Graphics_Animate
  imports Graphics_Settle
begin

section \<open>Animate and the event loop\<close>

text \<open>
  A tick of a disk, a call of \<open>Animate\<close>, and every event keep the invariant and raise nothing;
  a tick uses up energy as long as a disk is at work, and some disk is until everything is done.
  So the animation ends, within 392 ticks for each I/O.
\<close>

subsection \<open>What the invariant does not look at\<close>

lemmas views_defs = tables_ok_def entries_ok_def requests_ok_def flight_ok_def head_ok_def
  last_ok_def status_ok_def busy_def target_def disks_of_def row_of_def kind_of_def status_of_def
  head_y_def goal_y_def served_def window_ok_def accounts_def busy_disks_def total_todo_def tally_def in_window_def

lemma sim_ok_frame [simp]:
  "sim_ok (s\<lparr>timer := t\<rparr>) = sim_ok s" "sim_ok (s\<lparr>canvas := cv\<rparr>) = sim_ok s"
  "sim_ok (s\<lparr>pending := n\<rparr>) = sim_ok s" "sim_ok (s\<lparr>do_animate := g\<rparr>) = sim_ok s"
  "sim_ok (s\<lparr>printed := out\<rparr>) = sim_ok s"
  by (simp_all add: sim_ok_def views_defs)

lemma sim_ok_is_done:
  "sim_ok s \<Longrightarrow> request_count s = request_count_needed s \<Longrightarrow> sim_ok (s\<lparr>is_done := True\<rparr>)"
  unfolding sim_ok_def views_defs by (elim conjE, intro conjI) simp_all

lemma ticks_left_frame [simp]:
  "ticks_left (s\<lparr>timer := t\<rparr>) d = ticks_left s d" "ticks_left (s\<lparr>canvas := cv\<rparr>) d = ticks_left s d"
  "ticks_left (s\<lparr>pending := n\<rparr>) d = ticks_left s d" "ticks_left (s\<lparr>do_animate := g\<rparr>) d = ticks_left s d"
  "ticks_left (s\<lparr>printed := out\<rparr>) d = ticks_left s d" "ticks_left (s\<lparr>is_done := g\<rparr>) d = ticks_left s d"
  by (simp_all add: ticks_left_def goal_y_def head_y_def row_of_def target_def
      split: option.split activity.split)

lemma energy_frame [simp]:
  "energy (s\<lparr>timer := t\<rparr>) = energy s" "energy (s\<lparr>canvas := cv\<rparr>) = energy s"
  "energy (s\<lparr>pending := n\<rparr>) = energy s" "energy (s\<lparr>do_animate := g\<rparr>) = energy s"
  "energy (s\<lparr>printed := out\<rparr>) = energy s" "energy (s\<lparr>is_done := g\<rparr>) = energy s"
  by (simp_all add: energy_def total_todo_def)

lemma busy_frame [simp]:
  "busy (s\<lparr>timer := t\<rparr>) d = busy s d" "busy (s\<lparr>canvas := cv\<rparr>) d = busy s d"
  "busy (s\<lparr>pending := n\<rparr>) d = busy s d" "busy (s\<lparr>do_animate := g\<rparr>) d = busy s d"
  "busy (s\<lparr>printed := out\<rparr>) d = busy s d" "busy (s\<lparr>is_done := g\<rparr>) d = busy s d"
  by (simp_all add: busy_def)

lemma reported_ok:
  assumes "sim_ok s" "request_count s = request_count_needed s" "reported s s'"
  shows "sim_ok s'" "energy s' = energy s" "queue_size s' = queue_size s" "wanted s' = wanted s" "mapping s' = mapping s"
    "request_count_needed s' = request_count_needed s" "request_count s' = request_count s"
    "logical_requests s' = logical_requests s" "timer s' = timer s" "pending s' = pending s"
    "is_done s'" "\<not> do_animate s'" "printed s' = printed s @ stat_lines s'" "busy s' d = busy s d"
  using assms by (auto simp: reported_def stat_lines_def sim_ok_is_done wanted_def)

subsection \<open>One disk\<close>

definition alive :: "sim \<Rightarrow> bool" where
  "alive s \<longleftrightarrow> is_done s \<or> (\<exists>d \<in> disk_set. busy s d)"

definition open_run :: "sim \<Rightarrow> sim \<Rightarrow> bool" where
  "open_run s s' \<longleftrightarrow> is_done s' = is_done s \<and> printed s' = printed s \<and> do_animate s' = do_animate s"

definition closes_run :: "sim \<Rightarrow> sim \<Rightarrow> bool" where
  "closes_run s s' \<longleftrightarrow> \<not> is_done s \<and> is_done s' \<and> printed s' = printed s @ stat_lines s' \<and> \<not> do_animate s'"

definition ticked :: "sim \<Rightarrow> sim \<Rightarrow> bool" where
  "ticked s s' \<longleftrightarrow>
     sim_ok s' \<and> mapping s' = mapping s \<and> queue_size s' = queue_size s \<and> wanted s' = wanted s \<and>
     request_count_needed s' = request_count_needed s \<and> timer s' = timer s \<and> pending s' = pending s \<and>
     (s' = s \<or> energy s' < energy s) \<and> (alive s \<longrightarrow> alive s') \<and> (is_done s \<longrightarrow> s' = s) \<and>
     (open_run s s' \<or> closes_run s s') \<and> onward s s'"

lemma ticked_refl [simp]: "sim_ok s \<Longrightarrow> ticked s s"
  by (simp add: ticked_def open_run_def)

lemma ticked_trans:
  assumes "ticked s t" "ticked t u"
  shows "ticked s u"
proof -
  have "open_run s u \<or> closes_run s u"
    using assms unfolding ticked_def open_run_def closes_run_def by metis
  moreover have "onward s u" using assms onward_trans unfolding ticked_def by blast
  ultimately show ?thesis using assms unfolding ticked_def by (metis less_trans)
qed

text \<open>The end of \<open>complete_io\<close>: the block gets its colour back, and the next I/Os start.\<close>

definition recolour :: "int \<Rightarrow> int \<Rightarrow> (sim, unit) py" where
  "recolour d offset =
     pbind (target_offset d) (\<lambda>offset'.
     pbind (gets color_map) (\<lambda>colours.
     pbind (py_lookup colours (d, offset)) (\<lambda>colour.
     BlockSetColor d offset' colour)))"

lemma complete_io_split:
  "complete_io d = pbind (target_offset d) (\<lambda>offset.
     pseq (pseq (MarkDone d) (pseq (modify (\<lambda>s. s\<lparr>request_count := request_count s + 1\<rparr>)) (set_disk_state d STATE_NULL)))
       (pseq (recolour d offset) GetNextIOs))"
  by (rule ext) (simp add: complete_io_def recolour_def pbind_def pseq_def split: outcome.split)

lemma recolour_apply:
  assumes "sim_ok s" "d \<in> disk_set" "current_target s d = Some (Some q)" "q < queue_size s" "off = row_of s q"
  shows "\<exists>cv. recolour d off s = Ok () (s\<lparr>canvas := cv\<rparr>)"
proof -
  have off: "target_offset d s = Ok off s"
    using target_offset_apply [OF assms(3,4)] placedD(4) [OF sim_ok_placed [OF assms(1,4)]] assms(5)
    by (simp add: row_of_def)
  obtain rid colour where "disk_and_offset_to_rect_id s (d, off) = Some rid" "color_map s (d, off) = Some colour"
    using sim_okD(1) [OF assms(1)] row_of_range [OF assms(1,4)] assms(2,5) by (fastforce simp: tables_ok_def)
  then have "recolour d off s = Ok () (s\<lparr>canvas := config_item rid (\<lambda>it. it\<lparr>fill := Some colour\<rparr>) (canvas s)\<rparr>)"
    using off by (simp add: recolour_def BlockSetColor_def canvas_ops)
  then show ?thesis ..
qed

lemma settled_canvas: "settled d oper sts rep lat cv s\<lparr>canvas := cv'\<rparr> = settled d oper sts rep lat cv' s"
  by (simp add: settled_def Let_def)

text \<open>A completion leads to a state after \<open>MarkDone\<close>, from which \<open>GetNextIOs\<close> goes on.\<close>

lemma complete_io_apply:
  assumes ok: "sim_ok s" and d: "d \<in> disk_set" and x: "disk_state s d = Some STATE_XFER"
  shows "\<exists>i oper sts rep lat cv. completing s d i oper sts rep \<and>
    lat = latency_of (timer s) (request_queue s ! target s d) rep \<and>
    complete_io d (s\<lparr>transfer_count := (transfer_count s)(d \<mapsto> 0)\<rparr>) = GetNextIOs (settled d oper sts rep lat cv s)"
proof -
  let ?t = "s\<lparr>transfer_count := (transfer_count s)(d \<mapsto> 0)\<rparr>"
  have b: "busy s d" using x by (simp add: busy_def)
  obtain i oper sts rep lat cv where c: "completing s d i oper sts rep"
    and l: "lat = latency_of (timer s) (request_queue s ! target s d) rep"
    and m: "pseq (MarkDone d) (pseq (modify (\<lambda>s. s\<lparr>request_count := request_count s + 1\<rparr>)) (set_disk_state d STATE_NULL)) ?t =
      Ok () (settled d oper sts rep lat cv s)"
    using MarkDone_apply [OF ok d b] ok d x unfolding completing_def by (metis prod.collapse)
  let ?u = "settled d oper sts rep lat cv s"
  note V = restatused_views [OF completing_finishes(2) [OF c]]
  have cur: "current_target s d = Some (Some (target s d))" "target s d < queue_size s"
    using busy_target [OF ok d b] by metis+
  have off: "target_offset d ?t = Ok (row_of s (target s d)) ?t"
    using target_offset_apply [of ?t d "target s d"] cur placedD(4) [OF sim_ok_placed [OF ok cur(2)]]
    by (simp add: row_of_def)
  obtain cv' where "recolour d (row_of s (target s d)) ?u = Ok () (?u\<lparr>canvas := cv'\<rparr>)"
    using recolour_apply [OF completing_ok(1) [OF c] d] cur by (metis V(1,4) settled_sel(6))
  then have "complete_io d ?t = GetNextIOs (settled d oper sts rep lat cv' s)"
    using off m by (simp add: complete_io_split settled_canvas)
  then show ?thesis using c l by blast
qed

lemma complete_io_ticked:
  assumes ok: "sim_ok s" and d: "d \<in> disk_set" and x: "disk_state s d = Some STATE_XFER"
  shows "\<exists>s'. complete_io d (s\<lparr>transfer_count := (transfer_count s)(d \<mapsto> 0)\<rparr>) = Ok () s' \<and>
    ticked s s' \<and> energy s' < energy s \<and> request_count s' = request_count s + 1"
proof -
  obtain i oper sts rep lat cv where c: "completing s d i oper sts rep"
    "lat = latency_of (timer s) (request_queue s ! target s d) rep"
    "complete_io d (s\<lparr>transfer_count := (transfer_count s)(d \<mapsto> 0)\<rparr>) = GetNextIOs (settled d oper sts rep lat cv s)"
    using complete_io_apply [OF assms] by blast
  let ?u = "settled d oper sts rep lat cv s"
  note O = completing_ok [OF c(1), of lat cv] and V = restatused_views [OF completing_finishes(2) [OF c(1)]]
  have nd: "\<not> is_done s" by (rule completing_not_done(2) [OF c(1)])
  note on = completing_onward [OF c(1,2), of cv]
  have W: "wanted ?u = wanted s" by (rule restatused_wanted [OF completing_finishes(2) [OF c(1)]])
  show ?thesis
  proof (cases "request_count ?u = request_count_needed ?u")
    case True
    then obtain s' where s': "GetNextIOs ?u = Ok () s'" "reported ?u s'" using GetNextIOs_spec(1) [OF O(1)] by blast
    note R = reported_ok [OF O(1) True s'(2)]
    have "onward ?u s'" using s'(2) by (intro onward_frame) (auto simp: reported_def busy_def)
    then have "onward s s'" by (rule onward_trans [OF on])
    then have "ticked s s'" using R O(2) nd V(1) W
      by (simp add: ticked_def alive_def open_run_def closes_run_def same_run_def)
    then show ?thesis using s'(1) c(3) R(2,7) O(2) by auto
  next
    case False
    then obtain s' where s': "GetNextIOs ?u = Ok () s'" "scheduled ?u s'" "\<exists>d \<in> disk_set. busy s' d"
      using GetNextIOs_spec(2) [OF O(1)] by blast
    then have "energy s' < energy s" using O(2) by (auto simp: scheduled_def)
    moreover have "onward s s'" using onward_trans [OF on] s'(2) by (simp add: scheduled_def same_run_def)
    ultimately have "ticked s s'" using s'(2,3) nd V(1) W
      by (auto simp: ticked_def alive_def open_run_def scheduled_def same_run_def)
    moreover note \<open>energy s' < energy s\<close>
    moreover have "request_count s' = request_count s + 1" using s'(2) by (simp add: scheduled_def same_run_def)
    ultimately show ?thesis using s'(1) c(3) by auto
  qed
qed

lemma retabled_ticked:
  assumes "sim_ok s" "d \<in> disk_set" "busy s d" "retabled d s s'" "head_ok s' d" "ticks_left s' d < ticks_left s d"
  shows "ticked s s' \<and> energy s' < energy s"
proof -
  note R = retabled_sel [OF assms(4)]
  have "onward s s'" using assms(3,4) by (intro onward_frame) (auto simp: retabled_def busy_def split: if_splits)
  moreover have "\<not> is_done s"
    using sim_okD(15) [OF assms(1)] accounts_done(1) [OF assms(1)] assms(2,3) by blast
  ultimately show ?thesis
    using retabled_ok [OF assms] R(18) assms(2)
    by (auto simp: ticked_def open_run_def alive_def wanted_def R(1,2,11,13,14,15,16,17))
qed

lemma transfer_ticked:
  assumes ok: "sim_ok s" and d: "d \<in> disk_set" and x: "disk_state s d = Some STATE_XFER"
  shows "\<exists>s'. transfer_step d s = Ok () s' \<and> ticked s s' \<and> energy s' < energy s \<and> request_count s' \<le> request_count s + 1"
proof -
  have b: "busy s d" using x by (simp add: busy_def)
  obtain c where c: "transfer_count s d = Some c" "1 \<le> c" "c \<le> 10" "head_y s d = goal_y s d"
    using sim_okD(8) [OF ok d] x by (auto simp: head_ok_def)
  obtain p where p: "head_position s d = Some p" using sim_ok_entry [OF ok d] by metis
  let ?s = "s\<lparr>transfer_count := (transfer_count s)(d \<mapsto> c - 1)\<rparr>"
  have step: "transfer_step d s = (if c = 1 then complete_io d ?s else Ok () ?s)"
    using x c by (simp add: transfer_step_def DoneWithTransfer_def)
  show ?thesis
  proof (cases "c = 1")
    case True
    then show ?thesis using complete_io_ticked [OF ok d x] step by fastforce
  next
    case False
    have "?s = s\<lparr>canvas := canvas s, head_position := (head_position s)(d \<mapsto> p),
        disk_state := (disk_state s)(d \<mapsto> STATE_XFER), transfer_count := (transfer_count s)(d \<mapsto> c - 1)\<rparr>"
      using p x by (simp add: fun_upd_idem)
    then have r: "retabled d s ?s" unfolding retabled_def by blast
    have "goal_y ?s d = goal_y s d" "head_y ?s d = head_y s d"
      by (simp_all add: goal_y_def target_def row_of_def head_y_def)
    then have "head_ok ?s d" "ticks_left ?s d < ticks_left s d"
      using False c x by (simp_all add: head_ok_def ticks_left_def)
    then show ?thesis using retabled_ticked [OF ok d b r] step False by simp
  qed
qed

lemma seek_ticked:
  assumes ok: "sim_ok s" and d: "d \<in> disk_set" and x: "disk_state s d = Some STATE_SEEK"
  shows "\<exists>s'. seek_step d s = Ok () s' \<and> ticked s s' \<and> energy s' < energy s \<and> request_count s' = request_count s \<and>
    (disk_state s' d = Some STATE_SEEK \<or> disk_state s' d = Some STATE_XFER)"
proof -
  have b: "busy s d" using x by (simp add: busy_def)
  have "\<exists>s'. seek_step d s = Ok () s' \<and> retabled d s s' \<and> head_ok s' d \<and> ticks_left s' d < ticks_left s d"
  proof (cases "head_y s d = goal_y s d")
    case True
    then show ?thesis using arrive_tick [OF ok d x] by blast
  next
    case False
    then have "seek_step d s = MoveHead d s"
      using x DoneWithSeek_apply [OF ok d b] by (simp add: seek_step_def)
    then show ?thesis using MoveHead_tick [OF ok d x False] by auto
  qed
  then show ?thesis using retabled_ticked [OF ok d b] retabled_sel(10,25) by metis
qed

lemma seek_step_skip: "sim_ok s \<Longrightarrow> d \<in> disk_set \<Longrightarrow> disk_state s d \<noteq> Some STATE_SEEK \<Longrightarrow> seek_step d s = Ok () s"
  by (rule sim_ok_entry [of s d]) (auto simp: seek_step_def)

lemma transfer_step_skip: "sim_ok s \<Longrightarrow> d \<in> disk_set \<Longrightarrow> disk_state s d \<noteq> Some STATE_XFER \<Longrightarrow> transfer_step d s = Ok () s"
  by (rule sim_ok_entry [of s d]) (auto simp: transfer_step_def)

lemma tick_disk_ticked:
  assumes ok: "sim_ok s" and d: "d \<in> disk_set"
  shows "\<exists>s'. tick_disk d s = Ok () s' \<and> ticked s s' \<and> (busy s d \<longrightarrow> energy s' < energy s) \<and>
    request_count s' \<le> request_count s + 1"
proof (cases "disk_state s d = Some STATE_SEEK")
  case True
  obtain s1 where s1: "seek_step d s = Ok () s1" "ticked s s1" "energy s1 < energy s" "request_count s1 = request_count s"
    using seek_ticked [OF ok d True] by blast
  have ok1: "sim_ok s1" using s1(2) by (simp add: ticked_def)
  show ?thesis
  proof (cases "disk_state s1 d = Some STATE_XFER")
    case True
    then obtain s2 where "transfer_step d s1 = Ok () s2" "ticked s1 s2" "energy s2 < energy s1"
      "request_count s2 \<le> request_count s1 + 1"
      using transfer_ticked [OF ok1 d] by blast
    then show ?thesis using s1 ticked_trans [OF s1(2)] by (auto simp: tick_disk_def)
  next
    case False
    then show ?thesis using s1 transfer_step_skip [OF ok1 d] by (auto simp: tick_disk_def)
  qed
next
  case False
  then have skip: "tick_disk d s = transfer_step d s" using seek_step_skip [OF ok d] by (simp add: tick_disk_def)
  show ?thesis
  proof (cases "busy s d")
    case True
    then show ?thesis using skip False busy_states [OF ok d] transfer_ticked [OF ok d] by auto
  next
    case idle: False
    then show ?thesis using tick_idle [OF ok d idle] ok by simp
  qed
qed

lemma tick_disks_ticked:
  assumes "sim_ok s" "set ds \<subseteq> disk_set"
  shows "\<exists>s'. for_each ds tick_disk s = Ok () s' \<and> ticked s s' \<and>
    ((\<exists>d \<in> set ds. busy s d) \<longrightarrow> energy s' < energy s) \<and> request_count s' \<le> request_count s + int (length ds)"
  using assms
proof (induction ds arbitrary: s)
  case Nil
  then show ?case by simp
next
  case (Cons d ds)
  obtain s1 where s1: "tick_disk d s = Ok () s1" "ticked s s1" "busy s d \<longrightarrow> energy s1 < energy s"
    "request_count s1 \<le> request_count s + 1"
    using tick_disk_ticked [of s d] Cons.prems by auto
  have ok1: "sim_ok s1" and same: "s1 = s \<or> energy s1 < energy s" using s1(2) by (auto simp: ticked_def)
  obtain s2 where s2: "for_each ds tick_disk s1 = Ok () s2" "ticked s1 s2"
    "(\<exists>d \<in> set ds. busy s1 d) \<longrightarrow> energy s2 < energy s1" "request_count s2 \<le> request_count s1 + int (length ds)"
    using Cons.IH [OF ok1] Cons.prems(2) by auto
  have le: "s2 = s1 \<or> energy s2 < energy s1" using s2(2) by (auto simp: ticked_def)
  have "(\<exists>x \<in> set (d # ds). busy s x) \<longrightarrow> energy s2 < energy s"
    using s1(3) s2(3) same le by (metis less_trans set_ConsD)
  then show ?case using s1(1,4) s2(1,4) ticked_trans [OF s1(2) s2(2)] by auto
qed

subsection \<open>Animate\<close>

lemma Animate_paused: "\<not> do_animate s \<Longrightarrow> Animate s = Ok () (s\<lparr>pending := pending s + 1\<rparr>)"
  by (simp add: Animate_def root_after_def)

text \<open>The clock advances before the disks do.\<close>

definition clocked :: "item list \<Rightarrow> sim \<Rightarrow> sim" where
  "clocked cv s = s\<lparr>timer := timer s + 1, canvas := cv\<rparr>"

lemma Animate_running:
  assumes ok: "sim_ok s" and go: "do_animate s"
  shows "\<exists>cv s'. Animate s = Ok () (s'\<lparr>pending := pending s' + 1\<rparr>) \<and> ticked (clocked cv s) s' \<and>
    ((\<exists>d \<in> disk_set. busy s d) \<longrightarrow> energy s' < energy s) \<and> request_count s' \<le> request_count s + 4"
proof -
  define cv where "cv = config_item (timeID s) (\<lambda>it. it\<lparr>label := Some (''Time: '' @ show_int (timer s + 1))\<rparr>) (canvas s)"
  have c: "sim_ok (clocked cv s)" "energy (clocked cv s) = energy s" "\<And>d. busy (clocked cv s) d = busy s d"
    "disk_count (clocked cv s) = 4"
    using ok sim_okD(1) [OF ok] by (simp_all add: clocked_def tables_ok_def)
  have ds: "set (py_range 0 4) = disk_set" by (auto simp: disk_set_def)
  obtain s' where s': "for_each (py_range 0 4) tick_disk (clocked cv s) = Ok () s'" "ticked (clocked cv s) s'"
    "(\<exists>d \<in> set (py_range 0 4). busy (clocked cv s) d) \<longrightarrow> energy s' < energy (clocked cv s)"
    "request_count s' \<le> request_count (clocked cv s) + int (length (py_range 0 4))"
    using tick_disks_ticked [OF c(1), of "py_range 0 4"] ds by auto
  have t: "(\<lambda>d. pseq (seek_step d) (transfer_step d)) = tick_disk" by (rule ext) (simp add: tick_disk_def)
  have d4: "disk_count s = 4" using c(4) by (simp add: clocked_def)
  have "Animate s = Ok () (s'\<lparr>pending := pending s' + 1\<rparr>)"
    using s'(1) go d4 by (simp add: Animate_def t root_after_def UpdateTime_def canvas_ops clocked_def cv_def)
  moreover have "request_count s' \<le> request_count s + 4" using s'(4) by (simp add: clocked_def)
  ultimately show ?thesis using s'(2,3) ds c by auto
qed

end
