(* ===== verification/Graphics_Run.thy ===== *)
theory Graphics_Run
  imports Graphics_Animate
begin

section \<open>Events, and the end of the simulation\<close>

text \<open>
  Every event keeps the invariant; no callback raises anything but the exit of the key \<open>q\<close>. After
  the key \<open>s\<close>, the pending calls of \<open>Animate\<close> alone bring the simulation to its end.
\<close>

subsection \<open>One event\<close>

text \<open>What no event changes, and what changes only once everything is done.\<close>

definition same_task :: "sim \<Rightarrow> sim \<Rightarrow> bool" where
  "same_task s s' \<longleftrightarrow>
     mapping s' = mapping s \<and> queue_size s' = queue_size s \<and> wanted s' = wanted s \<and>
     request_count_needed s' = request_count_needed s \<and>
     (is_done s' \<or> \<not> is_done s \<and> printed s' = printed s) \<and> onward s s'"

lemma same_task_refl [simp]: "same_task s s"
  by (simp add: same_task_def)

lemma same_task_trans: "same_task s t \<Longrightarrow> same_task t u \<Longrightarrow> same_task s u"
  by (auto simp: same_task_def intro: onward_trans)

text \<open>Events that leave the requests and the counters alone.\<close>

lemma same_task_frame:
  assumes "request_queue s' = request_queue s" "timer s \<le> timer s'" "logical_requests s' = logical_requests s"
    "latency_total s' = latency_total s" "mapping s' = mapping s" "request_count_needed s' = request_count_needed s"
    "is_done s' = is_done s" "printed s' = printed s" "count_reads s' = count_reads s"
    "current_target s' = current_target s" "disk_state s' = disk_state s"
  shows "same_task s s'"
  using assms onward_frame [OF assms(1-5,9,10)] by (auto simp: same_task_def wanted_def busy_def)

lemma ticked_task: "ticked s s' \<Longrightarrow> sim_ok s' \<and> same_task s s' \<and> (alive s \<longrightarrow> alive s')"
  by (auto simp: ticked_def same_task_def open_run_def closes_run_def)

lemma Animate_ok:
  assumes ok: "sim_ok s"
  shows "\<exists>s'. Animate s = Ok () s' \<and> sim_ok s' \<and> same_task s s' \<and> (alive s \<longrightarrow> alive s') \<and>
    pending s' = pending s + 1"
proof (cases "do_animate s")
  case True
  obtain cv s' where s': "Animate s = Ok () (s'\<lparr>pending := pending s' + 1\<rparr>)" "ticked (clocked cv s) s'"
    using Animate_running [OF ok True] by blast
  have "pending s' = pending s" "alive (clocked cv s) = alive s"
    using s'(2) by (simp_all add: ticked_def clocked_def alive_def)
  moreover have "same_task s (s'\<lparr>pending := pending s' + 1\<rparr>)"
  proof -
    have "same_task s (clocked cv s)" by (rule same_task_frame) (simp_all add: clocked_def)
    moreover have "same_task (clocked cv s) s'" using ticked_task [OF s'(2)] by blast
    moreover have "same_task s' (s'\<lparr>pending := pending s' + 1\<rparr>)" by (rule same_task_frame) simp_all
    ultimately show ?thesis using same_task_trans by blast
  qed
  ultimately show ?thesis using s'(1) ticked_task [OF s'(2)] by (simp add: alive_def)
next
  case False
  moreover have "same_task s (s\<lparr>pending := pending s + 1\<rparr>)" by (rule same_task_frame) simp_all
  ultimately show ?thesis using ok by (simp add: Animate_paused alive_def)
qed

lemma GetNextIOs_ok:
  assumes ok: "sim_ok s"
  shows "\<exists>s'. GetNextIOs s = Ok () s' \<and> sim_ok s' \<and> same_task s s' \<and> alive s' \<and>
    pending s' = pending s \<and> timer s' = timer s"
proof (cases "request_count s = request_count_needed s")
  case True
  then obtain s' where "GetNextIOs s = Ok () s'" "reported s s'" using GetNextIOs_spec(1) [OF ok] by blast
  moreover have "onward s t" if "reported s t" for t using that by (intro onward_frame) (auto simp: reported_def busy_def)
  ultimately show ?thesis using reported_ok [OF ok True] by (auto simp: same_task_def alive_def)
next
  case False
  then obtain s' where "GetNextIOs s = Ok () s'" "scheduled s s'" "\<exists>d \<in> disk_set. busy s' d"
    using GetNextIOs_spec(2) [OF ok] by blast
  then show ?thesis by (auto simp: scheduled_def same_run_def same_task_def alive_def)
qed

lemma event_ok:
  assumes ok: "sim_ok s" and e: "e \<noteq> Key_q"
  shows "\<exists>s'. handle e s = Ok () s' \<and> sim_ok s' \<and> same_task s s' \<and> (alive s \<or> e = Key_s \<longrightarrow> alive s') \<and>
    pending s \<le> pending s' \<and> (e = Key_s \<longrightarrow> pending s' = pending s + 1)"
proof (cases e)
  case Key_s
  obtain s1 where s1: "GetNextIOs s = Ok () s1" "sim_ok s1" "same_task s s1" "alive s1" "pending s1 = pending s"
    using GetNextIOs_ok [OF ok] by blast
  obtain s2 where "Animate s1 = Ok () s2" "sim_ok s2" "same_task s1 s2" "alive s1 \<longrightarrow> alive s2" "pending s2 = pending s1 + 1"
    using Animate_ok [OF s1(2)] by blast
  then show ?thesis using s1 same_task_trans [OF s1(3)] Key_s by (auto simp: handle_def Start_def)
next
  case Key_p
  have "same_task s (s\<lparr>do_animate := g\<rparr>)" for g by (rule same_task_frame) simp_all
  then show ?thesis using ok Key_p by (auto simp: handle_def Pause_def alive_def)
next
  case After
  let ?s = "s\<lparr>pending := pending s - 1\<rparr>"
  have "sim_ok ?s" using ok by simp
  then obtain s' where "Animate ?s = Ok () s'" "sim_ok s'" "same_task ?s s'" "alive ?s \<longrightarrow> alive s'" "pending s' = pending ?s + 1"
    using Animate_ok by blast
  moreover have "same_task s ?s" by (rule same_task_frame) simp_all
  ultimately show ?thesis using After same_task_trans by (auto simp: handle_def alive_def)
qed (use e in simp)

lemma Key_q_exits: "handle Key_q s = Raise (SystemExit 0) s"
  by (simp add: handle_def Exit_def)

inductive_cases gui_stepE: "gui_step s e s'"

lemma gui_step_ok:
  assumes "gui_step s e s'" "sim_ok s"
  shows "handle e s = Ok () s'" "sim_ok s'" "same_task s s'" "alive s \<longrightarrow> alive s'" "pending s \<le> pending s'"
proof -
  have e: "e \<noteq> Key_q" using assms(1) by (auto simp: Key_q_exits elim!: gui_stepE)
  obtain t where t: "handle e s = Ok () t" "sim_ok t" "same_task s t" "alive s \<longrightarrow> alive t" "pending s \<le> pending t"
    using event_ok [OF assms(2) e] by blast
  then have "t = s'" using assms(1) by (auto elim!: gui_stepE)
  then show "handle e s = Ok () s'" "sim_ok s'" "same_task s s'" "alive s \<longrightarrow> alive s'" "pending s \<le> pending s'"
    using t by auto
qed

lemma gui_reachable_ok:
  assumes "gui_reachable s0 s" "sim_ok s0"
  shows "sim_ok s \<and> same_task s0 s \<and> (alive s0 \<longrightarrow> alive s) \<and> pending s0 \<le> pending s"
  using assms
proof induction
  case gui_start
  then show ?case by simp
next
  case (gui_next s e s')
  then have "sim_ok s" "same_task s0 s" "alive s0 \<longrightarrow> alive s" "pending s0 \<le> pending s" by auto
  then show ?case using gui_step_ok [OF gui_next(2)] same_task_trans [of s0 s s'] by auto
qed

subsection \<open>The end\<close>

definition run_after :: "nat \<Rightarrow> (sim, unit) py" where
  "run_after n = for_each (replicate n After) handle"

lemma run_after_simps [simp]:
  "run_after 0 = return ()" "run_after (Suc n) = pseq (handle After) (run_after n)"
  by (simp_all add: run_after_def)

text \<open>A state in which the animation goes on by itself.\<close>

definition running :: "sim \<Rightarrow> bool" where
  "running s \<longleftrightarrow> sim_ok s \<and> do_animate s \<and> 0 < pending s \<and> \<not> is_done s \<and> (\<exists>d \<in> disk_set. busy s d)"

definition ended :: "sim \<Rightarrow> sim \<Rightarrow> bool" where
  "ended s s' \<longleftrightarrow>
     sim_ok s' \<and> is_done s' \<and> \<not> do_animate s' \<and> queue_size s' = queue_size s \<and>
     request_count s' = request_count_needed s \<and> logical_requests s' = int (queue_size s) \<and>
     printed s' = printed s @ stat_lines s'"

lemma animate_step:
  assumes ok: "sim_ok s" and go: "do_animate s" "\<not> is_done s" "\<exists>d \<in> disk_set. busy s d"
  shows "\<exists>s'. Animate s = Ok () s' \<and> timer s' = timer s + 1 \<and> pending s' = pending s + 1 \<and> energy s' < energy s \<and>
    request_count s' \<le> request_count s + 4 \<and> (ended s s' \<or> running s' \<and> printed s' = printed s \<and> queue_size s' = queue_size s \<and>
       request_count_needed s' = request_count_needed s)"
proof -
  obtain cv s1 where s1: "Animate s = Ok () (s1\<lparr>pending := pending s1 + 1\<rparr>)" "ticked (clocked cv s) s1"
    "energy s1 < energy s" "request_count s1 \<le> request_count s + 4"
    using Animate_running [OF ok go(1)] go(3) by auto
  let ?s = "s1\<lparr>pending := pending s1 + 1\<rparr>"
  have t: "sim_ok s1" "timer s1 = timer s + 1" "pending s1 = pending s" "queue_size s1 = queue_size s"
    "request_count_needed s1 = request_count_needed s" "alive s1"
    using s1(2) go(3) by (auto simp: ticked_def clocked_def alive_def)
  have lines: "stat_lines ?s = stat_lines s1" by (simp add: stat_lines_def)
  have "open_run (clocked cv s) s1 \<or> closes_run (clocked cv s) s1" using s1(2) by (simp add: ticked_def)
  then have "ended s ?s \<or> running ?s \<and> printed ?s = printed s"
  proof
    assume "open_run (clocked cv s) s1"
    then have "running ?s \<and> printed ?s = printed s"
      using t go by (simp add: running_def open_run_def clocked_def alive_def)
    then show ?thesis ..
  next
    assume c: "closes_run (clocked cv s) s1"
    then have n: "request_count s1 = request_count_needed s1" using sim_okD(15) [OF t(1)] by (simp add: closes_run_def)
    then have "ended s ?s"
      using c t accounts_done(2) [OF t(1) n] lines by (simp add: ended_def closes_run_def clocked_def)
    then show ?thesis ..
  qed
  then show ?thesis using s1 t by (intro exI [of _ ?s]) auto
qed

lemma running_ends:
  assumes "running s"
  shows "\<exists>n s'. 0 < n \<and> n \<le> energy s \<and> run_after n s = Ok () s' \<and> ended s s' \<and> timer s' = timer s + int n \<and>
    request_count s' \<le> request_count s + 4 * int n"
  using assms
proof (induction "energy s" arbitrary: s rule: less_induct)
  case less
  let ?s = "s\<lparr>pending := pending s - 1\<rparr>"
  obtain s1 where s1: "Animate ?s = Ok () s1" "timer s1 = timer s + 1" "energy s1 < energy s" "request_count s1 \<le> request_count s + 4"
    "ended ?s s1 \<or> running s1 \<and> printed s1 = printed s \<and> queue_size s1 = queue_size s \<and>
       request_count_needed s1 = request_count_needed s"
    using animate_step [of ?s] less.prems by (auto simp: running_def)
  have h: "handle After s = Ok () s1" using s1(1) by (simp add: handle_def)
  show ?case
  proof (cases "ended ?s s1")
    case True
    then have "ended s s1" by (simp add: ended_def)
    then show ?thesis using h s1(2,3,4) by (intro exI [of _ 1] exI [of _ s1]) simp
  next
    case False
    then have r: "running s1" "printed s1 = printed s" "queue_size s1 = queue_size s"
      "request_count_needed s1 = request_count_needed s" using s1(5) by auto
    obtain n s' where n: "0 < n" "n \<le> energy s1" "run_after n s1 = Ok () s'" "ended s1 s'" "timer s' = timer s1 + int n"
      "request_count s' \<le> request_count s1 + 4 * int n"
      using less.hyps [OF s1(3) r(1)] by blast
    have "ended s s'" using n(4) r by (simp add: ended_def)
    then show ?thesis using h n s1(2,3,4) by (intro exI [of _ "Suc n"] exI [of _ s']) simp
  qed
qed

text \<open>A simulator as the constructor leaves it.\<close>

definition fresh :: "sim \<Rightarrow> bool" where
  "fresh s \<longleftrightarrow> sim_ok s \<and> request_count s = 0 \<and> timer s = 0 \<and> do_animate s \<and> \<not> is_done s \<and> pending s = 0 \<and>
     (\<forall>d \<in> disk_set. \<not> busy s d) \<and> 0 < request_count_needed s \<and> clock_ok s \<and> reads_ok s"

lemma fresh_energy: "fresh s \<Longrightarrow> energy s = 392 * nat (request_count_needed s)"
proof -
  assume f: "fresh s"
  then have "disk_state s d = Some STATE_NULL" if "d \<in> disk_set" for d using that by (simp add: fresh_def busy_def)
  then have "(\<Sum>d \<in> disk_set. ticks_left s d) = 0" by (simp add: ticks_left_def)
  moreover have "busy_disks s = 0" using f by (simp add: fresh_def busy_disks_0)
  ultimately show ?thesis using f sim_okD(13) [of s] by (auto simp: fresh_def energy_def accounts_def)
qed

lemma start_ends:
  assumes f: "fresh s"
  shows "\<exists>n s1 s'. handle Key_s s = Ok () s1 \<and> run_after n s1 = Ok () s' \<and> ended s s' \<and>
    timer s' = int n + 1 \<and> int n < 392 * request_count_needed s \<and> request_count_needed s \<le> 4 * timer s' \<and>
    request_count s1 \<le> 4"
proof -
  have ok: "sim_ok s" and nd: "request_count s \<noteq> request_count_needed s" using f by (auto simp: fresh_def)
  obtain t where t: "GetNextIOs s = Ok () t" "scheduled s t" "\<exists>d \<in> disk_set. busy t d"
    using GetNextIOs_spec(2) [OF ok nd] by blast
  have u: "sim_ok t" "do_animate t" "\<not> is_done t" "timer t = 0" "queue_size t = queue_size s"
    "printed t = printed s" "request_count_needed t = request_count_needed s" "energy t \<le> energy s"
    "request_count t = 0"
    using t(2) f by (auto simp: scheduled_def same_run_def fresh_def)
  obtain s1 where s1: "Animate t = Ok () s1" "timer s1 = 1" "energy s1 < energy t" "request_count s1 \<le> 4"
    "ended t s1 \<or> running s1 \<and> printed s1 = printed t \<and> queue_size s1 = queue_size t \<and>
       request_count_needed s1 = request_count_needed t"
    using animate_step [OF u(1-3) t(3)] u(4,9) by auto
  have k: "handle Key_s s = Ok () s1" using t(1) s1(1) by (simp add: handle_def Start_def)
  have bound: "energy s1 < 392 * nat (request_count_needed s)" using s1(3) u(8) fresh_energy [OF f] by simp
  show ?thesis
  proof (cases "ended t s1")
    case True
    then have e: "ended s s1" using u by (simp add: ended_def)
    moreover from this have "request_count s1 = request_count_needed s" by (simp add: ended_def)
    ultimately show ?thesis using k s1(2,4) f by (intro exI [of _ 0] exI [of _ s1]) (simp add: fresh_def)
  next
    case False
    then have r: "running s1" "printed s1 = printed s" "queue_size s1 = queue_size s"
      "request_count_needed s1 = request_count_needed s" using s1(5) u by auto
    obtain n s' where n: "n \<le> energy s1" "run_after n s1 = Ok () s'" "ended s1 s'" "timer s' = timer s1 + int n"
      "request_count s' \<le> request_count s1 + 4 * int n"
      using running_ends [OF r(1)] by blast
    have "ended s s'" using n(3) r by (simp add: ended_def)
    moreover have "request_count_needed s \<le> 4 * (int n + 1)" using n(3,5) r(4) s1(4) by (simp add: ended_def)
    ultimately show ?thesis using k n s1(2,4) bound by (intro exI [of _ n] exI [of _ s1] exI [of _ s']) simp
  qed
qed

end
