(* ===== verification/Graphics_Init.thy ===== *)
theory Graphics_Init
  imports Graphics_Layout Graphics_Run
begin

section \<open>The constructor leaves a simulator that is ready to start\<close>

text \<open>
  The rest of the constructor, step by step: heads and per-disk tables, the requests with their
  physical addresses and full-stripe marks, the queue on the screen and the counters. On four
  disks, one of the four mappings and addresses that exist, nothing raises and the result is
  \<open>fresh\<close>.
\<close>

subsection \<open>Heads and per-disk tables\<close>

definition disks_fresh :: "sim \<Rightarrow> bool" where
  "disks_fresh s \<longleftrightarrow>
     (\<forall>d \<in> disk_set. head_ids s d \<noteq> None \<and> (\<exists>p. head_position s d = Some p \<and> pos_y1 p = 100) \<and>
        disk_state s d = Some STATE_NULL \<and> last_target s d = Some None \<and> current_target s d = Some None \<and>
        current_optype s d = Some None \<and> seek_delta s d = Some 0 \<and> transfer_count s d = Some (- 1))"

definition disks_only :: "sim \<Rightarrow> sim \<Rightarrow> bool" where
  "disks_only s0 s \<longleftrightarrow>
     (\<exists>cv hi hp ds lt ct co sd tc rc. s = s0\<lparr>canvas := cv, head_ids := hi, head_position := hp, disk_state := ds,
        last_target := lt, current_target := ct, current_optype := co, seek_delta := sd, transfer_count := tc,
        rotate_count := rc, request_queue := [], request_count := 0\<rparr>)"

text \<open>The three loops; the invariants are about the first \<open>k\<close> disks.\<close>

lemma draw_heads_apply:
  assumes "disk_count s = 4"
  shows "\<exists>cv hi hp ds. draw_heads s =
      Ok () (s\<lparr>canvas := cv, head_ids := hi, head_position := hp, disk_state := ds\<rparr>) \<and>
    (\<forall>d \<in> {0..<4}. hi d \<noteq> None \<and> (\<exists>p. hp d = Some p \<and> pos_y1 p = 100) \<and> ds d = Some STATE_NULL)"
proof -
  define I where "I k t \<longleftrightarrow> (\<exists>cv hi hp ds. t = s\<lparr>canvas := cv, head_ids := hi, head_position := hp, disk_state := ds\<rparr> \<and>
    (\<forall>d \<in> {0..<k}. hi d \<noteq> None \<and> (\<exists>p. hp d = Some p \<and> pos_y1 p = 100) \<and> ds d = Some STATE_NULL))" for k :: int and t
  define body where "body dsk = pbind (gets head_width) (\<lambda>w. pbind (gets head_height) (\<lambda>h.
       let rect_x = 40 - w + (20 + disk_width) * dsk; rect_y = 100 in
       pbind (create_rectangle rect_x rect_y (rect_x + w) (rect_y + h) (Some ''black'') ''black'')
         (\<lambda>head_id.
       modify (\<lambda>s. s\<lparr>head_ids := (head_ids s)(dsk \<mapsto> head_id),
         head_position := (head_position s)(dsk \<mapsto>
           \<lparr>pos_x1 = rect_x, pos_y1 = rect_y, pos_x2 = rect_x + w, pos_y2 = rect_y + h\<rparr>),
         disk_state := (disk_state s)(dsk \<mapsto> STATE_NULL)\<rparr>))))" for dsk
  have "\<exists>s'. for_each (py_range 0 4) body s = Ok () s' \<and> I 4 s'"
  proof (rule for_each_range [where I = I])
    have "s = s\<lparr>canvas := canvas s, head_ids := head_ids s, head_position := head_position s, disk_state := disk_state s\<rparr>"
      by simp
    moreover have "\<forall>d \<in> {0..<0 :: int}. head_ids s d \<noteq> None \<and> (\<exists>p. head_position s d = Some p \<and> pos_y1 p = 100) \<and>
        disk_state s d = Some STATE_NULL" by simp
    ultimately show "I 0 s" unfolding I_def by blast
    fix k t assume k: "0 \<le> (k :: int)" "I k t"
    obtain cv hi hp ds where t: "t = s\<lparr>canvas := cv, head_ids := hi, head_position := hp, disk_state := ds\<rparr>"
      "\<forall>d \<in> {0..<k}. hi d \<noteq> None \<and> (\<exists>p. hp d = Some p \<and> pos_y1 p = 100) \<and> ds d = Some STATE_NULL"
      using k(2) unfolding I_def by blast
    define x where "x = 40 - head_width s + 120 * k"
    define hp' where "hp' = \<lparr>pos_x1 = x, pos_y1 = 100, pos_x2 = x + head_width s, pos_y2 = 100 + head_height s\<rparr>"
    define cv' where "cv' = cv @ [\<lparr>item_kind = RECTANGLE, coords = [x, 100, x + head_width s, 100 + head_height s],
      fill = Some ''black'', outline = Some ''black'', label = None, anchor = None, font = None\<rparr>]"
    let ?hi = "int (length cv) + 1"
    have y: "pos_y1 hp' = 100" by (simp add: hp'_def)
    have u: "body k t = Ok () (s\<lparr>canvas := cv', head_ids := hi(k \<mapsto> ?hi),
        head_position := hp(k \<mapsto> hp'), disk_state := ds(k \<mapsto> STATE_NULL)\<rparr>)"
      by (simp add: body_def t(1) create_rectangle_def create_item_def disk_width_def Let_def cv'_def hp'_def x_def)
    have "{0..<k + 1} = insert k {0..<k}" using k(1) by auto
    then have "\<forall>d \<in> {0..<k + 1}. (hi(k \<mapsto> ?hi)) d \<noteq> None \<and> (\<exists>p. (hp(k \<mapsto> hp')) d = Some p \<and> pos_y1 p = 100) \<and>
        (ds(k \<mapsto> STATE_NULL)) d = Some STATE_NULL"
      using t(2) y by simp
    then show "\<exists>t'. body k t = Ok () t' \<and> I (k + 1) t'" using u unfolding I_def by blast
  qed simp
  moreover have "draw_heads s = for_each (py_range 0 4) body s"
    using assms by (simp add: draw_heads_def body_def [abs_def])
  ultimately show ?thesis unfolding I_def by metis
qed

lemma init_targets_apply:
  assumes "disk_count s = 4"
  shows "\<exists>lt ct co sd tc rc. init_targets s = Ok () (s\<lparr>last_target := lt, current_target := ct, current_optype := co,
      seek_delta := sd, transfer_count := tc, rotate_count := rc\<rparr>) \<and>
    (\<forall>d \<in> {0..<4}. lt d = Some None \<and> ct d = Some None \<and> co d = Some None \<and> sd d = Some 0 \<and> tc d = Some (- 1))"
proof -
  have r: "py_range 0 4 = [0, 1, 2, 3]" by (simp add: py_range_def upto.simps)
  have all: "(\<forall>d \<in> {0..<4}. P d) \<longleftrightarrow> P 0 \<and> P 1 \<and> P 2 \<and> P (3 :: int)" for P
  proof -
    have "{0..<4} = {0, 1, 2, 3 :: int}" by auto
    then show ?thesis by simp
  qed
  have "\<exists>lt ct co sd. for_each (py_range 0 4) (\<lambda>dsk.
         modify (\<lambda>s. s\<lparr>last_target := (last_target s)(dsk \<mapsto> None), current_target := (current_target s)(dsk \<mapsto> None),
           current_optype := (current_optype s)(dsk \<mapsto> None), seek_delta := (seek_delta s)(dsk \<mapsto> 0)\<rparr>)) s =
      Ok () (s\<lparr>last_target := lt, current_target := ct, current_optype := co, seek_delta := sd\<rparr>) \<and>
    (\<forall>d \<in> {0..<4}. lt d = Some None \<and> ct d = Some None \<and> co d = Some None \<and> sd d = Some 0)"
    unfolding all r by (simp, intro exI conjI, rule refl) simp_all
  then obtain lt ct co sd where a: "for_each (py_range 0 4) (\<lambda>dsk.
         modify (\<lambda>s. s\<lparr>last_target := (last_target s)(dsk \<mapsto> None), current_target := (current_target s)(dsk \<mapsto> None),
           current_optype := (current_optype s)(dsk \<mapsto> None), seek_delta := (seek_delta s)(dsk \<mapsto> 0)\<rparr>)) s =
      Ok () (s\<lparr>last_target := lt, current_target := ct, current_optype := co, seek_delta := sd\<rparr>)"
    "\<forall>d \<in> {0..<4}. lt d = Some None \<and> ct d = Some None \<and> co d = Some None \<and> sd d = Some 0" by blast
  have "\<exists>tc rc. for_each (py_range 0 4) (\<lambda>dsk. modify (\<lambda>s. s\<lparr>transfer_count := (transfer_count s)(dsk \<mapsto> - 1),
      rotate_count := (rotate_count s)(dsk \<mapsto> - 1)\<rparr>)) t = Ok () (t\<lparr>transfer_count := tc, rotate_count := rc\<rparr>) \<and>
    (\<forall>d \<in> {0..<4}. tc d = Some (- 1))" for t :: sim
    unfolding all r by (simp, intro exI conjI, rule refl) simp_all
  then obtain tc rc where b: "for_each (py_range 0 4) (\<lambda>dsk. modify (\<lambda>s. s\<lparr>transfer_count := (transfer_count s)(dsk \<mapsto> - 1),
      rotate_count := (rotate_count s)(dsk \<mapsto> - 1)\<rparr>)) (s\<lparr>last_target := lt, current_target := ct, current_optype := co,
        seek_delta := sd\<rparr>) = Ok () (s\<lparr>last_target := lt, current_target := ct, current_optype := co,
        seek_delta := sd, transfer_count := tc, rotate_count := rc\<rparr>)" "\<forall>d \<in> {0..<4}. tc d = Some (- 1)" by fastforce
  have "init_targets s = Ok () (s\<lparr>last_target := lt, current_target := ct, current_optype := co,
      seek_delta := sd, transfer_count := tc, rotate_count := rc\<rparr>)"
    using a(1) b(1) assms by (simp add: init_targets_def)
  then show ?thesis using a(2) b(2) by blast
qed

lemma setup_disks_apply:
  assumes "disk_count s = 4"
  shows "\<exists>s'. pseq draw_heads (pseq init_targets start_queue) s = Ok () s' \<and> disks_only s s' \<and> disks_fresh s'"
proof -
  obtain cv hi hp ds where h: "draw_heads s = Ok () (s\<lparr>canvas := cv, head_ids := hi, head_position := hp, disk_state := ds\<rparr>)"
    "\<forall>d \<in> {0..<4}. hi d \<noteq> None \<and> (\<exists>p. hp d = Some p \<and> pos_y1 p = 100) \<and> ds d = Some STATE_NULL"
    using draw_heads_apply [OF assms] by blast
  let ?t = "s\<lparr>canvas := cv, head_ids := hi, head_position := hp, disk_state := ds\<rparr>"
  have "disk_count ?t = 4" using assms by simp
  then obtain lt ct co sd tc rc where i: "init_targets ?t = Ok () (?t\<lparr>last_target := lt, current_target := ct,
      current_optype := co, seek_delta := sd, transfer_count := tc, rotate_count := rc\<rparr>)"
    "\<forall>d \<in> {0..<4}. lt d = Some None \<and> ct d = Some None \<and> co d = Some None \<and> sd d = Some 0 \<and> tc d = Some (- 1)"
    using init_targets_apply by blast
  let ?s = "s\<lparr>canvas := cv, head_ids := hi, head_position := hp, disk_state := ds,
        last_target := lt, current_target := ct, current_optype := co, seek_delta := sd, transfer_count := tc,
        rotate_count := rc, request_queue := [], request_count := 0\<rparr>"
  have "pseq draw_heads (pseq init_targets start_queue) s = Ok () ?s" using h(1) i(1) by (simp add: start_queue_def)
  moreover have "disks_fresh ?s" using h(2) i(2) by (simp add: disks_fresh_def disk_set_def)
  moreover have "disks_only s ?s" unfolding disks_only_def by blast
  ultimately show ?thesis by blast
qed

subsection \<open>Placing the requests\<close>

definition place_map :: "int list \<Rightarrow> (int \<rightharpoonup> int)" where
  "place_map ds = (if length ds = 1 then [ds ! 0 \<mapsto> 0] else [ds ! 0 \<mapsto> 0, ds ! 1 \<mapsto> 1])"

definition placed_request :: "int \<Rightarrow> int \<times> optype \<Rightarrow> request" where
  "placed_request m x =
     (let (a, oper) = x; ds = block_disks m a in
      (new_request a oper)\<lparr>disk_to_index_map := place_map ds, phys_disk_list := Some ds,
        phys_offset := Some (block_row m a), status := Some (map (\<lambda>d. REQ_NOT_STARTED) ds)\<rparr>)"

definition fresh_request :: "int \<times> optype \<Rightarrow> request" where
  "fresh_request x = new_request (fst x) (snd x)"

text \<open>The I/Os of a request that belongs to no full stripe.\<close>

definition ios :: "int \<Rightarrow> optype \<Rightarrow> int" where
  "ios m oper = (if oper = OP_READ \<or> m = 0 then 1 else if m = 1 then 2 else 4)"

lemma SetPhysicalAddress_apply:
  assumes "length ds = 1 \<or> length ds = 2"
  shows "SetPhysicalAddress ds off (new_request a oper) =
    Ok () ((new_request a oper)\<lparr>disk_to_index_map := place_map ds, phys_disk_list := Some ds,
      phys_offset := Some off, status := Some (map (\<lambda>d. REQ_NOT_STARTED) ds)\<rparr>)"
proof -
  consider x where "ds = [x]" | x y where "ds = [x, y]"
    using assms by (auto simp: length_Suc_conv numeral_2_eq_2)
  then show ?thesis by cases (simp_all add: SetPhysicalAddress_def place_map_def new_request_def)
qed

definition place_one :: "int \<Rightarrow> nat \<Rightarrow> (sim, unit) py" where
  "place_one m = (if m = 0 then place_striped else if m = 1 then place_mirrored
     else if m = 4 then place_raid4 else place_raid5)"

lemma block_disks_5: "(if lba div 3 mod 4 = 0 then (lba mod 3, 3)
    else if lba div 3 mod 4 = 1 then (if lba mod 3 \<ge> 2 then lba mod 3 + 1 else lba mod 3, 2)
    else if lba div 3 mod 4 = 2 then (if lba mod 3 \<ge> 1 then lba mod 3 + 1 else lba mod 3, 1)
    else (lba mod 3 + 1, 0)) = (block_disks 5 lba ! 0, block_disks 5 lba ! 1)"
  using mod_4_cases [of "lba div 3"] mod_3_cases [of lba]
  by (auto simp: block_disks_def parity_column_def Let_def)

lemma two_disks: "m = 1 \<or> m = 4 \<or> m = 5 \<Longrightarrow> block_disks m lba = [block_disks m lba ! 0, block_disks m lba ! 1]"
  by (auto simp: block_disks_def Let_def)

lemma place_one_apply:
  assumes m: "good_mapping m" and q: "i < queue_size s" "request_queue s ! i = fresh_request (a, oper)"
    and a: "a < block_count s" and d4: "disk_count s = 4"
  shows "place_one m i s = Ok () (s\<lparr>request_queue := (request_queue s)[i := placed_request m (a, oper)],
    request_count_needed := request_count_needed s + (ios m oper - 1)\<rparr>)"
proof -
  have ty: "on_request i GetType t = Ok oper t" "on_request i GetLogicalAddress t = Ok a t"
    if "request_queue t = request_queue s" for t
    using q that by (simp_all add: fresh_request_def new_request_def)
  have ck: "check_logical i t = Ok a t" if "request_queue t = request_queue s" "block_count t = block_count s" for t
    using ty [OF that(1)] a that(2) by (simp add: check_logical_def)
  have set: "on_request i (SetPhysicalAddress (block_disks m a) (block_row m a)) t =
      Ok () (t\<lparr>request_queue := (request_queue s)[i := placed_request m (a, oper)]\<rparr>)"
    if "request_queue t = request_queue s" for t
    using q that SetPhysicalAddress_apply [of "block_disks m a" "block_row m a" a oper]
    by (simp add: on_request_apply fresh_request_def placed_request_def length_block_disks Let_def)
  show ?thesis
    using m
  proof (rule good_mappingE)
    assume 0: "m = 0"
    have "[a mod 4] = block_disks m a" "a div 4 = block_row m a" using 0 by (simp_all add: block_disks_def block_row_def)
    then show ?thesis using set [of s] ck d4 0 by (simp add: place_one_def place_striped_def ios_def)
  next
    assume 1: "m = 1"
    have e: "[2 * (a mod 2), 2 * (a mod 2) + 1] = block_disks m a" "a div 2 = block_row m a"
      using 1 by (simp_all add: block_disks_def block_row_def)
    show ?thesis using set ck ty d4 1 e
      by (cases oper) (simp_all add: place_one_def place_mirrored_def need_more_def ios_def Let_def)
  next
    assume 4: "m = 4"
    have e: "[a mod 3, 3] = block_disks m a" "a div 3 = block_row m a"
      using 4 by (simp_all add: block_disks_def block_row_def)
    show ?thesis using set ck ty d4 4 e
      by (cases oper) (simp_all add: place_one_def place_raid4_def need_more_def ios_def Let_def)
  next
    assume 5: "m = 5"
    have row: "block_row 5 a = a div 3" by (simp add: block_row_def)
    have set5: "on_request i (SetPhysicalAddress [block_disks 5 a ! 0, block_disks 5 a ! 1] (a div 3)) t =
        Ok () (t\<lparr>request_queue := (request_queue s)[i := placed_request 5 (a, oper)]\<rparr>)"
      if "request_queue t = request_queue s" for t
      using set [OF that] two_disks [of 5 a] unfolding 5 row by metis
    show ?thesis using set5 ck ty d4 5
      by (cases oper) (simp_all add: place_one_def place_raid5_def need_more_def ios_def block_disks_5 Let_def)
  qed
qed

end
