(* ===== verification/Graphics_Ready.thy ===== *)
theory Graphics_Ready
  imports Graphics_Init
begin

section \<open>A queue of placed requests\<close>

text \<open>
  The loops over the queue: physical addresses, and the marks of full stripes on mapping 4. The
  number of I/Os needed is the number of I/Os that the requests will start, provided that the
  triples which get marked are writes; the marking itself looks at addresses only.
\<close>

subsection \<open>The placement loop\<close>

lemma map_take_drop_update:
  assumes "k < length xs"
  shows "(map f (take k xs) @ map g (drop k xs))[k := f (xs ! k)] = map f (take (Suc k) xs) @ map g (drop (Suc k) xs)"
    and "(map f (take k xs) @ map g (drop k xs)) ! k = g (xs ! k)"
  using assms by (simp_all add: list_update_append take_Suc_conv_app_nth nth_append flip: Cons_nth_drop_Suc)

definition partly_placed :: "sim \<Rightarrow> (int \<times> optype) list \<Rightarrow> nat \<Rightarrow> sim" where
  "partly_placed s items k =
     s\<lparr>request_queue := map (placed_request (mapping s)) (take k items) @ map fresh_request (drop k items),
       request_count_needed := int (length items) + (\<Sum>x \<leftarrow> take k items. ios (mapping s) (snd x) - 1)\<rparr>"

definition good_items :: "int \<Rightarrow> (int \<times> optype) list \<Rightarrow> bool" where
  "good_items m items \<longleftrightarrow> (\<forall>x \<in> set items. 0 \<le> fst x \<and> fst x < block_limit m)"

lemma place_step:
  assumes m: "good_mapping (mapping s)" "disk_count s = 4" "block_count s = block_limit (mapping s)"
    and i: "fst (items ! k) < block_limit (mapping s)" "k < length items"
  shows "place_one (mapping s) k (partly_placed s items k) = Ok () (partly_placed s items (Suc k))"
proof -
  let ?t = "partly_placed s items k"
  obtain a oper where x: "items ! k = (a, oper)" by (cases "items ! k") auto
  have a: "a < block_count ?t" using i(1) m(3) x by (simp add: partly_placed_def)
  have q: "k < queue_size ?t" "request_queue ?t ! k = fresh_request (a, oper)"
    using i(2) map_take_drop_update(2) [OF i(2), of "placed_request (mapping s)" fresh_request] x
    by (simp_all add: partly_placed_def)
  have d4: "disk_count ?t = 4" using m(2) by (simp add: partly_placed_def)
  have "(request_queue ?t)[k := placed_request (mapping s) (a, oper)] = request_queue (partly_placed s items (Suc k))"
    using map_take_drop_update(1) [OF i(2), of "placed_request (mapping s)" fresh_request] x
    by (simp add: partly_placed_def)
  moreover have "request_count_needed ?t + (ios (mapping s) oper - 1) = request_count_needed (partly_placed s items (Suc k))"
    using i(2) x by (simp add: partly_placed_def take_Suc_conv_app_nth)
  ultimately show ?thesis
    using place_one_apply [OF m(1) q a d4] by (simp add: partly_placed_def)
qed

lemma place_loop:
  assumes m: "good_mapping (mapping s)" "disk_count s = 4" "block_count s = block_limit (mapping s)"
    and i: "good_items (mapping s) items" and q: "request_queue s = map fresh_request items"
  shows "for_each [0..<length items] (place_one (mapping s)) (s\<lparr>request_count_needed := int (length items)\<rparr>) =
    Ok () (partly_placed s items (length items))"
proof -
  have s0: "s\<lparr>request_count_needed := int (length items)\<rparr> = partly_placed s items 0"
    using q by (simp add: partly_placed_def)
  have "\<exists>s'. for_each [0..<length items] (place_one (mapping s)) (s\<lparr>request_count_needed := int (length items)\<rparr>) = Ok () s' \<and>
    s' = partly_placed s items (length items)"
    by (rule for_each_upt [where I = "\<lambda>k t. t = partly_placed s items k"]) (use s0 place_step [OF m] i in \<open>auto simp: good_items_def\<close>)
  then show ?thesis by blast
qed

subsection \<open>Triples marked as full stripes\<close>

text \<open>
  What the code takes for a full stripe: three consecutive addresses at positions \<open>3k\<close>, \<open>3k + 1\<close>,
  \<open>3k + 2\<close> of the queue. They are the blocks of one stripe only if the first is a multiple of
  three, they may be reads, and a stripe at other positions is not found.
\<close>

definition triple_at :: "(int \<times> optype) list \<Rightarrow> nat \<Rightarrow> bool" where
  "triple_at items k \<longleftrightarrow>
     3 * k + 2 < length items \<and>
     fst (items ! (3 * k + 1)) = fst (items ! (3 * k)) + 1 \<and> fst (items ! (3 * k + 2)) = fst (items ! (3 * k)) + 2"

definition triples_write :: "(int \<times> optype) list \<Rightarrow> bool" where
  "triples_write items \<longleftrightarrow>
     (\<forall>k < length items. triple_at items k \<longrightarrow>
        snd (items ! (3 * k)) = OP_WRITE \<and> snd (items ! (3 * k + 1)) = OP_WRITE \<and> snd (items ! (3 * k + 2)) = OP_WRITE)"

definition mark :: "bool \<Rightarrow> request \<Rightarrow> request" where
  "mark parity r = r\<lparr>full_stripe_write := True, full_stripe_write_parity := parity\<rparr>"

text \<open>A triple is a row of the array exactly if it is aligned.\<close>

lemma triple_row:
  assumes "triple_at items k"
  shows "(block_row 4 (fst (items ! (3 * k))) = block_row 4 (fst (items ! (3 * k + 1))) \<and>
      block_row 4 (fst (items ! (3 * k))) = block_row 4 (fst (items ! (3 * k + 2)))) \<longleftrightarrow> fst (items ! (3 * k)) mod 3 = 0"
proof -
  have "a div 3 = (a + 1) div 3 \<and> a div 3 = (a + 2) div 3 \<longleftrightarrow> a mod 3 = 0" for a :: int by presburger
  then show ?thesis using assms by (simp add: triple_at_def block_row_def)
qed

text \<open>The queue after the first \<open>k\<close> positions have been looked at.\<close>

definition marked_request :: "int \<Rightarrow> (int \<times> optype) list \<Rightarrow> nat \<Rightarrow> nat \<Rightarrow> request" where
  "marked_request m items k j =
     (let r = placed_request m (items ! j) in
      if j div 3 < k \<and> triple_at items (j div 3) then mark (j mod 3 = 2) r else r)"

definition marked_queue :: "int \<Rightarrow> (int \<times> optype) list \<Rightarrow> nat \<Rightarrow> request list" where
  "marked_queue m items k = map (marked_request m items k) [0..<length items]"

definition triple_count :: "(int \<times> optype) list \<Rightarrow> nat \<Rightarrow> nat" where
  "triple_count items k = card {j. j < k \<and> triple_at items j}"

lemma triple_count_Suc: "triple_count items (Suc k) = triple_count items k + of_bool (triple_at items k)"
proof -
  have "{j. j < Suc k \<and> triple_at items j} =
      (if triple_at items k then insert k {j. j < k \<and> triple_at items j} else {j. j < k \<and> triple_at items j})"
    by (auto simp: less_Suc_eq)
  then show ?thesis by (simp add: triple_count_def)
qed

definition partly_marked :: "sim \<Rightarrow> (int \<times> optype) list \<Rightarrow> nat \<Rightarrow> sim" where
  "partly_marked s items k =
     s\<lparr>request_queue := marked_queue (mapping s) items k,
       request_count_needed := int (length items) + (\<Sum>x \<leftarrow> items. ios (mapping s) (snd x) - 1)
         - 8 * int (triple_count items k)\<rparr>"

lemma partly_marked_0: "partly_marked s items 0 = partly_placed s items (length items)"
proof -
  have "map (marked_request (mapping s) items 0) [0..<length items] = map (placed_request (mapping s)) items"
    by (rule nth_equalityI) (auto simp: marked_request_def)
  then show ?thesis by (simp add: partly_marked_def partly_placed_def marked_queue_def triple_count_def)
qed

lemma mark_apply: "MarkFullStripeWrite p r = Ok () (mark p r)"
  by (simp add: MarkFullStripeWrite_def mark_def)

lemma marked_queue_sel [simp]:
  "length (marked_queue m items k) = length items"
  "j < length items \<Longrightarrow> marked_queue m items k ! j = marked_request m items k j"
  by (simp_all add: marked_queue_def)

lemma logical_marked [simp]: "logical_address (marked_request m items k j) = fst (items ! j)"
  by (simp add: marked_request_def placed_request_def mark_def new_request_def Let_def split: prod.split)

lemma op_type_marked [simp]: "op_type (marked_request m items k j) = snd (items ! j)"
  by (simp add: marked_request_def placed_request_def mark_def new_request_def Let_def split: prod.split)

lemma marked_fresh [simp]:
  "start_time (marked_request m items k j) = - 1" "st \<in> set (statuses (marked_request m items k j)) \<Longrightarrow> st = REQ_NOT_STARTED"
  by (auto simp: marked_request_def placed_request_def mark_def new_request_def Let_def split: prod.splits if_splits)

lemma marked_queue_Suc:
  "marked_queue m items (Suc k) =
     (if triple_at items k then
        (marked_queue m items k)[3 * k := mark False (marked_request m items k (3 * k)),
          3 * k + 1 := mark False (marked_request m items k (3 * k + 1)),
          3 * k + 2 := mark True (marked_request m items k (3 * k + 2))]
      else marked_queue m items k)"
proof (rule nth_equalityI)
  fix j assume "j < length (marked_queue m items (Suc k))"
  then have j: "j < length items" by simp
  have e: "(3 * k) div 3 = k" "Suc (3 * k) div 3 = k" "Suc (Suc (3 * k)) div 3 = k" "(3 * k) mod 3 = 0"
    "Suc (3 * k) mod 3 = 1" "Suc (Suc (3 * k)) mod 3 = 2" by presburger+
  have c: "j div 3 = k \<longleftrightarrow> j = 3 * k \<or> j = 3 * k + 1 \<or> j = 3 * k + 2" by presburger
  show "marked_queue m items (Suc k) ! j =
     (if triple_at items k then
        (marked_queue m items k)[3 * k := mark False (marked_request m items k (3 * k)),
          3 * k + 1 := mark False (marked_request m items k (3 * k + 1)),
          3 * k + 2 := mark True (marked_request m items k (3 * k + 2))]
      else marked_queue m items k) ! j"
  proof (cases "j div 3 = k")
    case True
    then consider "j = 3 * k" | "j = 3 * k + 1" | "j = 3 * k + 2" using c by blast
    then show ?thesis using j by cases (auto simp: nth_list_update marked_request_def e Let_def)
  next
    case False
    then have "j \<noteq> 3 * k" "j \<noteq> 3 * k + 1" "j \<noteq> 3 * k + 2" using c by auto
    then show ?thesis using j False by (auto simp: nth_list_update marked_request_def less_Suc_eq Let_def)
  qed
qed simp

lemma partly_marked_addresses:
  assumes "j < length items"
  shows "on_request j GetLogicalAddress (partly_marked s items k) = Ok (fst (items ! j)) (partly_marked s items k)"
  using assms by (simp add: partly_marked_def)

lemma partly_marked_length [simp]: "queue_length (partly_marked s items k) = Ok (length items) (partly_marked s items k)"
  by (simp add: queue_length_def partly_marked_def)

text \<open>Three requests that are no stripe are left alone.\<close>

lemma mark_step_skip:
  assumes "\<not> triple_at items k"
  shows "mark_full_stripe (3 * k) (partly_marked s items k) = Ok () (partly_marked s items (Suc k))"
proof -
  let ?s = "partly_marked s items k" and ?i = "3 * k" and ?j = "Suc (3 * k)" and ?l = "Suc (Suc (3 * k))"
  have "mark_full_stripe ?i ?s = Ok () ?s"
  proof (cases "?l < length items")
    case True
    then have "fst (items ! ?j) \<noteq> fst (items ! ?i) + 1 \<or> fst (items ! ?l) \<noteq> fst (items ! ?i) + 2"
      using assms by (simp add: triple_at_def)
    then show ?thesis using True partly_marked_addresses [of _ items s k]
      by (cases "fst (items ! ?j) = fst (items ! ?i) + 1") (simp_all add: mark_full_stripe_def)
  qed (simp add: mark_full_stripe_def)
  moreover have "partly_marked s items (Suc k) = ?s"
    using assms by (simp add: partly_marked_def marked_queue_Suc triple_count_Suc)
  ultimately show ?thesis by simp
qed

lemma mark_step_stripe:
  assumes st: "triple_at items k"
  shows "mark_full_stripe (3 * k) (partly_marked s items k) = Ok () (partly_marked s items (Suc k))"
proof -
  let ?s = "partly_marked s items k" and ?i = "3 * k" and ?j = "Suc (3 * k)" and ?l = "Suc (Suc (3 * k))"
  let ?Q = "marked_queue (mapping s) items k" and ?r = "marked_request (mapping s) items k"
  have len: "?l < length items" using st by (simp add: triple_at_def)
  then have q: "?i < queue_size ?s" "?j < queue_size ?s" "?l < queue_size ?s" "request_queue ?s = ?Q"
    by (simp_all add: partly_marked_def)
  have r: "[?i..<Suc ?j] = [?i, ?j]" by (simp add: upt_rec)
  have m: "on_request ?i (MarkFullStripeWrite False) ?s = Ok () (?s\<lparr>request_queue := ?Q[?i := mark False (?r ?i)]\<rparr>)"
    "on_request ?j (MarkFullStripeWrite False) (?s\<lparr>request_queue := ?Q[?i := mark False (?r ?i)]\<rparr>) =
      Ok () (?s\<lparr>request_queue := ?Q[?i := mark False (?r ?i), ?j := mark False (?r ?j)]\<rparr>)"
    "on_request ?l (MarkFullStripeWrite True) (?s\<lparr>request_queue := ?Q[?i := mark False (?r ?i), ?j := mark False (?r ?j)]\<rparr>) =
      Ok () (?s\<lparr>request_queue := ?Q[?i := mark False (?r ?i), ?j := mark False (?r ?j), ?l := mark True (?r ?l)]\<rparr>)"
    using len q by (simp_all add: on_request_apply mark_apply)
  have e: "?s\<lparr>request_queue := ?Q[?i := mark False (?r ?i), ?j := mark False (?r ?j), ?l := mark True (?r ?l)],
      request_count_needed := request_count_needed ?s - 8\<rparr> = partly_marked s items (Suc k)"
    using st by (simp add: partly_marked_def marked_queue_Suc triple_count_Suc)
  have g: "on_request ?i GetLogicalAddress ?s = Ok (fst (items ! ?i)) ?s"
    "on_request ?j GetLogicalAddress ?s = Ok (fst (items ! ?i) + 1) ?s"
    "on_request ?l GetLogicalAddress ?s = Ok (fst (items ! ?i) + 2) ?s"
    using partly_marked_addresses [of _ items s k] len st by (simp_all add: triple_at_def)
  have "mark_full_stripe (3 * k) ?s = Ok () (?s\<lparr>request_queue := ?Q[?i := mark False (?r ?i), ?j := mark False (?r ?j),
      ?l := mark True (?r ?l)], request_count_needed := request_count_needed ?s - 8\<rparr>)"
    using len by (simp add: mark_full_stripe_def g r m need_more_def)
  then show ?thesis unfolding e .
qed

lemma mark_step:
  "mark_full_stripe (3 * k) (partly_marked s items k) = Ok () (partly_marked s items (Suc k))"
  using mark_step_skip mark_step_stripe by blast

text \<open>The positions that the marking loop visits; only mapping 4 has the loop.\<close>

definition triples_seen :: "int \<Rightarrow> (int \<times> optype) list \<Rightarrow> nat" where
  "triples_seen m items = (if m = 4 then (length items + 2) div 3 else 0)"

lemma place_requests_apply:
  assumes m: "good_mapping (mapping s)" "disk_count s = 4" "block_count s = block_limit (mapping s)"
    and i: "good_items (mapping s) items" and q: "request_queue s = map fresh_request items"
  shows "place_requests s = Ok () (partly_marked s items (triples_seen (mapping s) items))"
proof -
  note P = place_loop [OF m i q]
  have n: "queue_length s = Ok (length items) s" using q by (simp add: queue_length_def)
  show ?thesis
  proof (cases "mapping s = 4")
    case True
    have "\<exists>s'. for_each [0..<(length items + 2) div 3] (\<lambda>k. mark_full_stripe (3 * k)) (partly_marked s items 0) = Ok () s' \<and>
      s' = partly_marked s items ((length items + 2) div 3)"
      by (rule for_each_upt [where I = "\<lambda>k t. t = partly_marked s items k"]) (use mark_step in auto)
    then have "for_each (multiples3 (length items)) mark_full_stripe (partly_placed s items (length items)) =
        Ok () (partly_marked s items ((length items + 2) div 3))"
      by (simp add: multiples3_def for_each_map partly_marked_0)
    then show ?thesis using P True by (simp add: place_requests_def n place_one_def triples_seen_def)
  next
    case False
    then show ?thesis using P m(1)
      by (auto simp: place_requests_def n place_one_def triples_seen_def good_mapping_def partly_marked_0)
  qed
qed

subsection \<open>The I/Os needed\<close>

text \<open>A request none of whose I/Os has been started.\<close>

definition unstarted :: "int \<Rightarrow> request \<Rightarrow> bool" where
  "unstarted m r \<longleftrightarrow> placed m r \<and>
     statuses r = (if m = 0 then [REQ_NOT_STARTED] else [REQ_NOT_STARTED, REQ_NOT_STARTED])"

lemma place_map_nth:
  assumes "i < length (block_disks m lba)"
  shows "place_map (block_disks m lba) (block_disks m lba ! i) = Some (int i)"
proof -
  have "length (block_disks m lba) = 2 \<Longrightarrow> block_disks m lba ! 0 \<noteq> block_disks m lba ! 1"
    using distinct_block_disks [of m lba] by (simp add: distinct_conv_nth)
  then show ?thesis using assms
    by (cases "m = 0") (auto simp: place_map_def length_block_disks less_Suc_eq numeral_2_eq_2)
qed

lemma placed_request_unstarted:
  assumes "0 \<le> a" "a < block_limit m"
  shows "unstarted m (placed_request m (a, oper))" "unstarted m (mark p (placed_request m (a, oper)))"
  using assms place_map_nth [of _ m a]
  by (auto simp: unstarted_def placed_def placed_request_def mark_def new_request_def Let_def map_replicate_const
      length_block_disks numeral_2_eq_2)

lemma marked_unstarted:
  assumes "good_items m items" "j < length items"
  shows "unstarted m (marked_request m items k j)"
proof -
  obtain a oper where x: "items ! j = (a, oper)" by (cases "items ! j") auto
  moreover have "0 \<le> a" "a < block_limit m" using assms x nth_mem [of j items] by (auto simp: good_items_def)
  ultimately show ?thesis using placed_request_unstarted by (simp add: marked_request_def Let_def)
qed

lemma unstarted_facts:
  assumes "unstarted m r"
  shows "legal (req_kind m r) (statuses r)" "0 < request_todo m r" "j < length (statuses r) \<Longrightarrow> \<not> moving (statuses r ! j)"
  using assms
  by (auto simp: unstarted_def req_kind_def request_todo_def todo_def moving_def less_Suc_eq split: if_splits)

lemma request_todo_placed: "request_todo m (placed_request m x) = nat (ios m (snd x))"
  by (cases x; cases "snd x") (auto simp: request_todo_def todo_def req_kind_def placed_request_def new_request_def ios_def
      map_replicate_const length_block_disks numeral_2_eq_2 Let_def)

lemma request_todo_mark:
  "request_todo 4 (mark p (placed_request 4 (a, OP_WRITE))) = (if p then 2 else 1)"
  by (simp add: request_todo_def todo_def req_kind_def placed_request_def new_request_def mark_def
      map_replicate_const length_block_disks numeral_2_eq_2 Let_def)

lemma ios_pos: "1 \<le> ios m oper"
  by (simp add: ios_def)

lemma queue_todo:
  assumes m: "m = 4" and w: "triples_write items"
  shows "int (sum_list (map (request_todo m) (marked_queue m items k))) + 8 * int (triple_count items k) =
    (\<Sum>x \<leftarrow> items. ios m (snd x))"
proof (induction k)
  case 0
  have "map (request_todo m) (marked_queue m items 0) = map (\<lambda>x. nat (ios m (snd x))) items"
    by (rule nth_equalityI) (auto simp: marked_request_def request_todo_placed Let_def)
  moreover have "int (sum_list (map (\<lambda>x. nat (ios m (snd x))) items)) = (\<Sum>x \<leftarrow> items. ios m (snd x))"
    using ios_pos by (induction items) (auto, smt (verit) ios_pos)
  ultimately show ?case by (simp add: triple_count_def)
next
  case (Suc k)
  show ?case
  proof (cases "triple_at items k")
    case False
    then show ?thesis using Suc by (simp add: marked_queue_Suc triple_count_Suc)
  next
    case True
    let ?i = "3 * k" and ?j = "3 * k + 1" and ?l = "3 * k + 2"
    let ?Q = "marked_queue m items k" and ?f = "request_todo m"
    have n: "?l < length items" using True by (simp add: triple_at_def)
    then have "k < length items" by linarith
    then have ops: "snd (items ! ?i) = OP_WRITE" "snd (items ! ?j) = OP_WRITE" "snd (items ! ?l) = OP_WRITE"
      using w True by (auto simp: triples_write_def)
    have dv: "?i div 3 = k" "?j div 3 = k" "?l div 3 = k" by presburger+
    obtain a b c where x: "items ! ?i = (a, OP_WRITE)" "items ! ?j = (b, OP_WRITE)" "items ! ?l = (c, OP_WRITE)"
      using ops by (metis prod.collapse)
    have r: "marked_request m items k ?i = placed_request m (a, OP_WRITE)"
      "marked_request m items k ?j = placed_request m (b, OP_WRITE)"
      "marked_request m items k ?l = placed_request m (c, OP_WRITE)"
      using x dv by (simp_all only: marked_request_def Let_def) simp_all
    let ?x = "mark False (placed_request m (a, OP_WRITE))" and ?y = "mark False (placed_request m (b, OP_WRITE))"
      and ?z = "mark True (placed_request m (c, OP_WRITE))"
    have s1: "sum_list (map ?f (?Q[?i := ?x])) + 4 = sum_list (map ?f ?Q) + 1"
      using sum_list_one [of ?i ?Q ?f ?x] n r(1) m by (simp add: request_todo_placed request_todo_mark ios_def)
    have "?Q[?i := ?x] ! ?j = placed_request m (b, OP_WRITE)" "?Q[?i := ?x, ?j := ?y] ! ?l = placed_request m (c, OP_WRITE)"
      using n r by simp_all
    then have s2: "sum_list (map ?f (?Q[?i := ?x, ?j := ?y])) + 4 = sum_list (map ?f (?Q[?i := ?x])) + 1"
      and s3: "sum_list (map ?f (?Q[?i := ?x, ?j := ?y, ?l := ?z])) + 4 = sum_list (map ?f (?Q[?i := ?x, ?j := ?y])) + 2"
      using sum_list_one [of ?j "?Q[?i := ?x]" ?f ?y] sum_list_one [of ?l "?Q[?i := ?x, ?j := ?y]" ?f ?z] n m
      by (simp_all add: request_todo_placed request_todo_mark ios_def)
    have "marked_queue m items (Suc k) = ?Q[?i := ?x, ?j := ?y, ?l := ?z]" using True r by (simp add: marked_queue_Suc)
    then show ?thesis using Suc s1 s2 s3 True by (simp add: triple_count_Suc)
  qed
qed

end
