(* ===== verification/Graphics_Fresh.thy ===== *)
theory Graphics_Fresh
  imports Graphics_Ready
begin

section \<open>The constructor as a whole\<close>

text \<open>The queue on the screen, the counters, and the composition with the earlier parts.\<close>

subsection \<open>The queue and the counters\<close>

definition queue_only :: "nat \<Rightarrow> sim \<Rightarrow> sim \<Rightarrow> bool" where
  "queue_only k s0 s \<longleftrightarrow>
     (\<exists>cv bs ts cs ns. s = s0\<lparr>canvas := cv, request_queue_box_ids := bs, request_queue_text_ids := ts,
        request_queue_count_ids := cs, request_queue_counts := ns\<rparr> \<and>
        length bs = k \<and> length ts = k \<and> length cs = k \<and> length ns = k)"

definition queue_body :: "nat \<Rightarrow> int \<times> int \<Rightarrow> (sim, int \<times> int) py" where
  "queue_body = (\<lambda>index (x0, y0).
       let sz = 10;
           x = (if x0 > 500 then 40 else x0);
           y = (if x0 > 500 then y0 + (2 * sz + 2) else y0)
       in
       pbind (on_request index GetLogicalAddress) (\<lambda>logical.
       pbind (create_rectangle (x - sz) (y - sz) (x + sz) (y + sz) None '''') (\<lambda>box.
       pbind (create_text x y (show_int logical) ''c'' (Some (''Helvetica'', sz + 4)) None) (\<lambda>txt.
       pbind (create_text (x + 8) (y + 8) (show_int 0) ''c'' (Some (''Helvetica'', 8)) None) (\<lambda>cnt.
       pseq (modify (\<lambda>s. s\<lparr>request_queue_box_ids := request_queue_box_ids s @ [box],
               request_queue_text_ids := request_queue_text_ids s @ [txt],
               request_queue_count_ids := request_queue_count_ids s @ [cnt],
               request_queue_counts := request_queue_counts s @ [0]\<rparr>))
         (return (x + 2 * sz, y)))))))"

lemma draw_queue_body: "draw_queue = pbind queue_length (\<lambda>len. for_acc [0..<len] (40, 32) queue_body)"
  by (simp add: draw_queue_def queue_body_def)

lemma queue_body_step:
  assumes "i < queue_size t"
  shows "\<exists>y cv b tx c. queue_body i x t = Ok y (t\<lparr>canvas := cv,
    request_queue_box_ids := request_queue_box_ids t @ [b], request_queue_text_ids := request_queue_text_ids t @ [tx],
    request_queue_count_ids := request_queue_count_ids t @ [c], request_queue_counts := request_queue_counts t @ [0]\<rparr>)"
proof -
  let ?n = "int (length (canvas t))"
  have "queue_body i x t = Ok (val (queue_body i x t)) (t\<lparr>canvas := canvas (final (queue_body i x t)),
    request_queue_box_ids := request_queue_box_ids t @ [?n + 1], request_queue_text_ids := request_queue_text_ids t @ [2 + ?n],
    request_queue_count_ids := request_queue_count_ids t @ [3 + ?n], request_queue_counts := request_queue_counts t @ [0]\<rparr>)"
    using assms by (cases x) (simp add: queue_body_def create_rectangle_def create_text_def create_item_def Let_def)
  then show ?thesis by blast
qed

lemma draw_queue_apply:
  assumes "request_queue_box_ids s = []" "request_queue_text_ids s = []" "request_queue_count_ids s = []"
    "request_queue_counts s = []"
  shows "\<exists>y s'. draw_queue s = Ok y s' \<and> queue_only (queue_size s) s s'"
proof -
  have "s = s\<lparr>canvas := canvas s, request_queue_box_ids := [], request_queue_text_ids := [],
      request_queue_count_ids := [], request_queue_counts := []\<rparr>"
    using assms by simp
  then have "queue_only 0 s s" unfolding queue_only_def by (intro exI conjI, assumption) simp_all
  then have "\<exists>y s'. for_acc [0..<queue_size s] (40, 32) queue_body s = Ok y s' \<and> queue_only (length [0..<queue_size s]) s s'"
  proof (rule for_acc_nth [where I = "\<lambda>k t. queue_only k s t"])
    fix k x t assume k: "k < length [0..<queue_size s]" "queue_only k s t"
    obtain cv bs ts cs ns where t: "t = s\<lparr>canvas := cv, request_queue_box_ids := bs, request_queue_text_ids := ts,
        request_queue_count_ids := cs, request_queue_counts := ns\<rparr>"
      "length bs = k" "length ts = k" "length cs = k" "length ns = k"
      using k(2) unfolding queue_only_def by blast
    have "k < queue_size t" using k(1) t(1) by simp
    then obtain y cv' b tx c where "queue_body k x t = Ok y (t\<lparr>canvas := cv',
        request_queue_box_ids := request_queue_box_ids t @ [b], request_queue_text_ids := request_queue_text_ids t @ [tx],
        request_queue_count_ids := request_queue_count_ids t @ [c], request_queue_counts := request_queue_counts t @ [0]\<rparr>)"
      using queue_body_step by blast
    then have "queue_body k x t = Ok y (s\<lparr>canvas := cv', request_queue_box_ids := bs @ [b], request_queue_text_ids := ts @ [tx],
        request_queue_count_ids := cs @ [c], request_queue_counts := ns @ [0]\<rparr>)" by (simp add: t(1))
    moreover have "queue_only (Suc k) s (s\<lparr>canvas := cv', request_queue_box_ids := bs @ [b], request_queue_text_ids := ts @ [tx],
        request_queue_count_ids := cs @ [c], request_queue_counts := ns @ [0]\<rparr>)"
      unfolding queue_only_def using t(2-5) by - (intro exI conjI, rule refl, simp_all)
    ultimately show "\<exists>y t'. queue_body ([0..<queue_size s] ! k) x t = Ok y t' \<and> queue_only (Suc k) s t'"
      using k(1) by auto
  qed
  then show ?thesis by (simp add: draw_queue_body queue_length_def)
qed

definition counters_only :: "int \<Rightarrow> sim \<Rightarrow> sim \<Rightarrow> bool" where
  "counters_only k s0 s \<longleftrightarrow>
     (\<exists>cv cr cw ri wi. s = s0\<lparr>canvas := cv, count_reads := cr, count_writes := cw, count_reads_id := ri, count_writes_id := wi\<rparr> \<and>
        (\<forall>d \<in> {0..<k}. cr d = Some 0 \<and> cw d = Some 0 \<and> ri d \<noteq> None \<and> wi d \<noteq> None))"

definition counter_body :: "int \<Rightarrow> int \<Rightarrow> (sim, int) py" where
  "counter_body = (\<lambda>i x.
             pseq (modify (\<lambda>s. s\<lparr>count_reads := (count_reads s)(i \<mapsto> 0),
                     count_writes := (count_writes s)(i \<mapsto> 0)\<rparr>)) (
             pbind (create_rectangle (x - 50) 510 x 530 (Some ''orange'') '''') (\<lambda>_.
             pbind (create_rectangle (x + 50) 510 x 530 (Some ''green'') '''') (\<lambda>_.
             pbind (create_text (x - 20) 520 ''R:0'' ''c'' (Some (''Helvetica'', 14)) (Some ''black'')) (\<lambda>rid.
             pbind (create_text (x + 20) 520 ''W:0'' ''c'' (Some (''Helvetica'', 14)) (Some ''black'')) (\<lambda>wid.
             pseq (modify (\<lambda>s. s\<lparr>count_reads_id := (count_reads_id s)(i \<mapsto> rid),
                     count_writes_id := (count_writes_id s)(i \<mapsto> wid)\<rparr>))
               (return (x + (disk_width + 20)))))))))"

lemma counter_body_step:
  "\<exists>y cv rid wid. counter_body i x t = Ok y (t\<lparr>canvas := cv, count_reads := (count_reads t)(i \<mapsto> 0),
     count_writes := (count_writes t)(i \<mapsto> 0), count_reads_id := (count_reads_id t)(i \<mapsto> rid),
     count_writes_id := (count_writes_id t)(i \<mapsto> wid)\<rparr>)"
  by (rule exI [of _ "x + 120"], rule exI [of _ "canvas (final (counter_body i x t))"],
      rule exI [of _ "3 + int (length (canvas t))"], rule exI [of _ "4 + int (length (canvas t))"])
    (simp add: counter_body_def create_rectangle_def create_text_def create_item_def disk_width_def)

lemma counter_loop:
  "\<exists>y s'. for_acc (py_range 0 4) x counter_body s = Ok y s' \<and> counters_only 4 s s'"
proof -
  have "\<exists>y s'. for_acc (py_range 0 4) x counter_body s = Ok y s' \<and> counters_only (int (length (py_range 0 4))) s s'"
  proof (rule for_acc_nth [where I = "\<lambda>k t. counters_only (int k) s t"])
    have "s = s\<lparr>canvas := canvas s, count_reads := count_reads s, count_writes := count_writes s,
        count_reads_id := count_reads_id s, count_writes_id := count_writes_id s\<rparr>" by simp
    then show "counters_only (int 0) s s" unfolding counters_only_def by (intro exI conjI, assumption) simp
    fix k x t assume k: "k < length (py_range 0 4)" "counters_only (int k) s t"
    obtain cv cr cw ri wi where t: "t = s\<lparr>canvas := cv, count_reads := cr, count_writes := cw, count_reads_id := ri, count_writes_id := wi\<rparr>"
      "\<forall>d \<in> {0..<int k}. cr d = Some 0 \<and> cw d = Some 0 \<and> ri d \<noteq> None \<and> wi d \<noteq> None"
      using k(2) unfolding counters_only_def by blast
    obtain y cv' rid wid where "counter_body (int k) x t = Ok y (t\<lparr>canvas := cv', count_reads := (count_reads t)(int k \<mapsto> 0),
        count_writes := (count_writes t)(int k \<mapsto> 0), count_reads_id := (count_reads_id t)(int k \<mapsto> rid),
        count_writes_id := (count_writes_id t)(int k \<mapsto> wid)\<rparr>)" using counter_body_step by blast
    then have u: "counter_body (int k) x t = Ok y (s\<lparr>canvas := cv', count_reads := cr(int k \<mapsto> 0), count_writes := cw(int k \<mapsto> 0),
        count_reads_id := ri(int k \<mapsto> rid), count_writes_id := wi(int k \<mapsto> wid)\<rparr>)" by (simp add: t(1))
    have "{0..<int (Suc k)} = insert (int k) {0..<int k}" by auto
    then have "counters_only (int (Suc k)) s (s\<lparr>canvas := cv', count_reads := cr(int k \<mapsto> 0), count_writes := cw(int k \<mapsto> 0),
        count_reads_id := ri(int k \<mapsto> rid), count_writes_id := wi(int k \<mapsto> wid)\<rparr>)"
      unfolding counters_only_def using t(2) by - (intro exI conjI, rule refl, simp)
    then show "\<exists>y t'. counter_body (py_range 0 4 ! k) x t = Ok y t' \<and> counters_only (int (Suc k)) s t'"
      using u k(1) by auto
  qed
  then show ?thesis by simp
qed

definition finished_setup :: "sim \<Rightarrow> sim \<Rightarrow> bool" where
  "finished_setup s0 s \<longleftrightarrow>
     (\<exists>cv wid tid cr cw ri wi. s = s0\<lparr>canvas := cv, windowID := wid, timeID := tid, timer := 0, logical_requests := 0,
        latency_total := 0, count_reads := cr, count_writes := cw, count_reads_id := ri, count_writes_id := wi,
        do_animate := True, is_done := False\<rparr> \<and>
        (\<forall>d \<in> disk_set. cr d = Some 0 \<and> cw d = Some 0 \<and> ri d \<noteq> None \<and> wi d \<noteq> None))"

lemma init_counters_body: "init_counters =
     pseq (modify (\<lambda>s. s\<lparr>windowID := - 1\<rparr>)) (
     pbind (create_text 10 10 ''Time: 0.00'' ''w'' None None) (\<lambda>tid.
     pseq (modify (\<lambda>s. s\<lparr>timeID := tid, timer := 0, logical_requests := 0, latency_total := 0,
             count_reads := Map.empty, count_writes := Map.empty,
             count_reads_id := Map.empty, count_writes_id := Map.empty\<rparr>)) (
     pbind (gets disk_count) (\<lambda>n.
     pseq (for_acc (py_range 0 n) 90 counter_body)
       (modify (\<lambda>s. s\<lparr>do_animate := True, is_done := False\<rparr>))))))"
  by (simp add: init_counters_def counter_body_def DrawWindow_def disk_width_def pseq_return)

lemma init_counters_apply:
  assumes "disk_count s = 4"
  shows "\<exists>s'. init_counters s = Ok () s' \<and> finished_setup s s'"
proof -
  obtain cv tid where c: "create_text 10 10 ''Time: 0.00'' ''w'' None None (s\<lparr>windowID := - 1\<rparr>) =
      Ok tid (s\<lparr>windowID := - 1, canvas := cv\<rparr>)"
    by (simp add: create_text_def create_item_def)
  let ?t = "s\<lparr>windowID := - 1, canvas := cv, timeID := tid, timer := 0, logical_requests := 0, latency_total := 0,
             count_reads := Map.empty, count_writes := Map.empty, count_reads_id := Map.empty, count_writes_id := Map.empty\<rparr>"
  obtain y t' where l: "for_acc (py_range 0 4) 90 counter_body ?t = Ok y t'" "counters_only 4 ?t t'"
    using counter_loop by blast
  have "init_counters s = Ok () (t'\<lparr>do_animate := True, is_done := False\<rparr>)"
    using c l(1) assms by (simp add: init_counters_body)
  moreover obtain cv' cr cw ri wi where t': "t' = ?t\<lparr>canvas := cv', count_reads := cr, count_writes := cw,
      count_reads_id := ri, count_writes_id := wi\<rparr>"
    "\<forall>d \<in> {0..<4}. cr d = Some 0 \<and> cw d = Some 0 \<and> ri d \<noteq> None \<and> wi d \<noteq> None"
    using l(2) unfolding counters_only_def by blast
  have "t'\<lparr>do_animate := True, is_done := False\<rparr> = s\<lparr>canvas := cv', windowID := - 1, timeID := tid, timer := 0,
      logical_requests := 0, latency_total := 0, count_reads := cr, count_writes := cw, count_reads_id := ri,
      count_writes_id := wi, do_animate := True, is_done := False\<rparr>" by (simp add: t'(1))
  then have "finished_setup s (t'\<lparr>do_animate := True, is_done := False\<rparr>)"
    using t'(2) unfolding finished_setup_def disk_set_def by blast
  ultimately show ?thesis by blast
qed

end
