(* ===== verification/Graphics_Launch.thy ===== *)
theory Graphics_Launch
  imports Graphics_Fresh
begin

section \<open>From the arguments to a fresh simulator\<close>

text \<open>
  The constructor on arguments that make sense, and the two ways in which the script gets its
  requests: from the list of the option \<open>-a\<close>, or drawn at random.
\<close>

definition good_setting :: "setting \<Rightarrow> bool" where
  "good_setting cf \<longleftrightarrow> good_mapping (mapping cf) \<and> disk_count cf = 4"

text \<open>What the animation needs besides: heads that meet the rows, and a window that opens.\<close>

definition good_motion :: "setting \<Rightarrow> int \<Rightarrow> bool" where
  "good_motion cf wnd \<longleftrightarrow> 0 < seek_speed cf \<and> seek_speed cf dvd 20 \<and> (wnd = - 1 \<or> 1 \<le> wnd)"

definition good_queue :: "int \<Rightarrow> (int \<times> optype) list \<Rightarrow> bool" where
  "good_queue m items \<longleftrightarrow> good_items m items \<and> (m = 4 \<longrightarrow> triples_write items)"

text \<open>The I/Os of a queue: those of each request, eight fewer for every stripe written whole.\<close>

definition total_ios :: "int \<Rightarrow> (int \<times> optype) list \<Rightarrow> int" where
  "total_ios m items = (\<Sum>x \<leftarrow> items. ios m (snd x)) - 8 * int (triple_count items (triples_seen m items))"

subsection \<open>Before the requests\<close>

text \<open>What the first half of the constructor leaves: everything but the queue.\<close>

definition laid_out :: "setting \<Rightarrow> int \<Rightarrow> gline list \<Rightarrow> sim \<Rightarrow> bool" where
  "laid_out cf wnd out t \<longleftrightarrow>
     setting.truncate t = setting.truncate cf \<and> window t = wnd \<and> printed t = out \<and>
     block_count t = block_limit (mapping cf) \<and> request_queue t = [] \<and> request_count t = 0 \<and> pending t = 0 \<and>
     request_queue_box_ids t = [] \<and> request_queue_text_ids t = [] \<and> request_queue_count_ids t = [] \<and>
     request_queue_counts t = [] \<and> disks_fresh t \<and>
     (\<forall>lba. 0 \<le> lba \<and> lba < block_limit (mapping cf) \<longrightarrow>
        block_offset t (IntKey lba) = Some (20 * block_row (mapping cf) lba + 100)) \<and>
     (\<forall>row. 0 \<le> row \<and> row < 20 \<longrightarrow> offset_to_ypos t row = Some (20 * row + 100)) \<and>
     (\<forall>d row. 0 \<le> d \<and> d < 4 \<and> 0 \<le> row \<and> row < 20 \<longrightarrow>
        disk_and_offset_to_rect_id t (d, row) \<noteq> None \<and> color_map t (d, row) \<noteq> None)"

lemma laid_out_setting:
  assumes "laid_out cf wnd out t"
  shows "mapping t = mapping cf" "disk_count t = disk_count cf" "seek_speed t = seek_speed cf" "addr t = addr cf"
    "addr_desc t = addr_desc cf" "balance t = balance cf" "read_fraction t = read_fraction cf"
proof -
  have "setting.truncate t = setting.truncate cf" using assms by (simp add: laid_out_def)
  then show "mapping t = mapping cf" "disk_count t = disk_count cf" "seek_speed t = seek_speed cf" "addr t = addr cf"
    "addr_desc t = addr_desc cf" "balance t = balance cf" "read_fraction t = read_fraction cf"
    by (auto simp: setting.truncate_def)
qed

lemma first_half:
  assumes g: "good_setting cf"
  shows "\<exists>t. pseq draw_layout (pseq draw_heads (pseq init_targets start_queue)) (blank_sim cf wnd out) = Ok () t \<and>
    laid_out cf wnd out t"
proof -
  let ?s = "blank_sim cf wnd out" and ?m = "mapping cf"
  have b: "good_mapping ?m" "disk_count cf = 4" "mapping ?s = ?m" "disk_count ?s = 4"
    using g by (auto simp: good_setting_def blank_sim_def)
  obtain s1 where s1: "draw_layout ?s = Ok () s1" "drawn (sized ?m ?s) ?m (block_limit ?m) (parity_rows ?m) s1"
    using draw_layout_drawn [of ?s] b by auto
  obtain cv bo oy rm cm where l: "s1 = (sized ?m ?s)\<lparr>canvas := cv, block_offset := bo, offset_to_ypos := oy,
      disk_and_offset_to_rect_id := rm, color_map := cm\<rparr>"
    using s1(2) unfolding drawn_def layout_only_def by blast
  have d4: "disk_count s1 = 4" using b by (simp add: l sized_def)
  obtain t where t: "pseq draw_heads (pseq init_targets start_queue) s1 = Ok () t" "disks_only s1 t" "disks_fresh t"
    using setup_disks_apply [OF d4] by blast
  have tab: "block_offset t = block_offset s1" "offset_to_ypos t = offset_to_ypos s1" "color_map t = color_map s1"
    "disk_and_offset_to_rect_id t = disk_and_offset_to_rect_id s1"
    "setting.truncate t = setting.truncate s1" "window t = window s1" "printed t = printed s1"
    "block_count t = block_count s1" "request_queue t = []" "request_count t = 0" "pending t = pending s1"
    "request_queue_box_ids t = request_queue_box_ids s1" "request_queue_text_ids t = request_queue_text_ids s1"
    "request_queue_count_ids t = request_queue_count_ids s1" "request_queue_counts t = request_queue_counts s1"
    using t(2) by (auto simp: disks_only_def setting.truncate_def)
  have base: "setting.truncate s1 = setting.truncate cf" "window s1 = wnd" "printed s1 = out" "pending s1 = 0"
    "block_count s1 = block_limit ?m" "request_queue_box_ids s1 = []" "request_queue_text_ids s1 = []"
    "request_queue_count_ids s1 = []" "request_queue_counts s1 = []"
    using b(1) by (auto simp: l sized_def blank_sim_def setting.truncate_def block_limit_def good_mapping_def)
  have cell: "offset_to_ypos s1 row = Some (20 * row + 100) \<and> disk_and_offset_to_rect_id s1 (d, row) \<noteq> None \<and>
      color_map s1 (d, row) \<noteq> None" if "0 \<le> d" "d < 4" "0 \<le> row" "row < 20" for d row
    using drawn_all_cells [OF b(1) s1(2) that] by (auto simp: drawn_cell_def cell_shown_def)
  have ypos: "offset_to_ypos s1 row = Some (20 * row + 100)" if "0 \<le> row" "row < 20" for row
    using cell [of 0 row] that by simp
  have off: "block_offset s1 (IntKey lba) = Some (20 * block_row ?m lba + 100)" if "0 \<le> lba" "lba < block_limit ?m" for lba
    using s1(2) that by (auto simp: drawn_def)
  have "laid_out cf wnd out t"
    unfolding laid_out_def tab base using t(3) cell ypos off by blast
  then show ?thesis using s1(1) t(1) by auto
qed

subsection \<open>After the requests\<close>

lemma sum_ios: "int (length items) + (\<Sum>x \<leftarrow> items. ios m (snd x) - 1) = (\<Sum>x \<leftarrow> items. ios m (snd x))"
  by (induction items) auto

lemma marked_total:
  assumes m: "good_mapping m" and q: "good_queue m items"
  shows "int (sum_list (map (request_todo m) (marked_queue m items (triples_seen m items)))) = total_ios m items"
proof (cases "m = 4")
  case True
  then show ?thesis using queue_todo [of m items "triples_seen m items"] q by (simp add: total_ios_def good_queue_def)
next
  case False
  then have k: "triples_seen m items = 0" by (simp add: triples_seen_def)
  have "map (request_todo m) (marked_queue m items 0) = map (\<lambda>x. nat (ios m (snd x))) items"
    by (rule nth_equalityI) (auto simp: marked_request_def request_todo_placed Let_def)
  moreover have "int (sum_list (map (\<lambda>x. nat (ios m (snd x))) items)) = (\<Sum>x \<leftarrow> items. ios m (snd x))"
    using ios_pos by (induction items) (auto, smt (verit) ios_pos)
  ultimately show ?thesis by (simp add: total_ios_def k triple_count_def)
qed

text \<open>The simulator that the constructor builds for a queue.\<close>

definition built :: "setting \<Rightarrow> int \<Rightarrow> gline list \<Rightarrow> (int \<times> optype) list \<Rightarrow> sim \<Rightarrow> bool" where
  "built cf wnd out items s \<longleftrightarrow>
     mapping s = mapping cf \<and> window s = wnd \<and> printed s = out \<and> queue_size s = length items \<and>
     request_count s = 0 \<and> logical_requests s = 0 \<and> timer s = 0 \<and> do_animate s \<and> \<not> is_done s \<and> pending s = 0 \<and>
     request_count_needed s = total_ios (mapping cf) items \<and>
     request_queue s = marked_queue (mapping cf) items (triples_seen (mapping cf) items) \<and>
     disk_count s = 4 \<and> seek_speed s = seek_speed cf \<and> disks_fresh s"

text \<open>What is new at the end of the constructor: tables and widgets, and counters at zero.\<close>

definition equipped :: "setting \<Rightarrow> (int \<times> optype) list \<Rightarrow> sim \<Rightarrow> bool" where
  "equipped cf items s \<longleftrightarrow>
     (\<forall>lba. 0 \<le> lba \<and> lba < block_limit (mapping cf) \<longrightarrow>
        block_offset s (IntKey lba) = Some (20 * block_row (mapping cf) lba + 100)) \<and>
     (\<forall>row. 0 \<le> row \<and> row < 20 \<longrightarrow> offset_to_ypos s row = Some (20 * row + 100)) \<and>
     (\<forall>d row. 0 \<le> d \<and> d < 4 \<and> 0 \<le> row \<and> row < 20 \<longrightarrow>
        disk_and_offset_to_rect_id s (d, row) \<noteq> None \<and> color_map s (d, row) \<noteq> None) \<and>
     (\<forall>d \<in> disk_set. count_reads s d = Some 0 \<and> count_writes s d = Some 0 \<and>
        count_reads_id s d \<noteq> None \<and> count_writes_id s d \<noteq> None) \<and>
     length (request_queue_box_ids s) = length items \<and> length (request_queue_count_ids s) = length items \<and>
     length (request_queue_counts s) = length items \<and> latency_total s = 0"

lemma second_half_apply:
  assumes g: "good_setting cf" and t: "laid_out cf wnd out t" and i: "good_items (mapping cf) items"
  shows "\<exists>s. pseq place_requests (pbind draw_queue (\<lambda>_. init_counters)) (t\<lparr>request_queue := map fresh_request items\<rparr>) = Ok () s \<and>
    built cf wnd out items s \<and> equipped cf items s"
proof -
  let ?m = "mapping cf" and ?t = "t\<lparr>request_queue := map fresh_request items\<rparr>"
  note S = laid_out_setting [OF t]
  have m: "good_mapping ?m" "disk_count cf = 4" using g by (auto simp: good_setting_def)
  let ?u = "partly_marked ?t items (triples_seen ?m items)"
  have place: "place_requests ?t = Ok () ?u"
    using place_requests_apply [of ?t items] m i S t by (simp add: laid_out_def)
  have u: "request_queue ?u = marked_queue ?m items (triples_seen ?m items)" "request_count_needed ?u = total_ios ?m items"
    using S by (simp_all add: partly_marked_def total_ios_def sum_ios)
  have "request_queue_box_ids ?u = [] \<and> request_queue_text_ids ?u = [] \<and> request_queue_count_ids ?u = [] \<and> request_queue_counts ?u = []"
    using t by (simp add: partly_marked_def laid_out_def)
  then obtain y v where v: "draw_queue ?u = Ok y v" "queue_only (length items) ?u v"
    using draw_queue_apply [of ?u] by (auto simp: u)
  obtain cv bs ts cs ns where v': "v = ?u\<lparr>canvas := cv, request_queue_box_ids := bs, request_queue_text_ids := ts,
      request_queue_count_ids := cs, request_queue_counts := ns\<rparr>" "length bs = length items" "length cs = length items"
      "length ns = length items"
    using v(2) unfolding queue_only_def by blast
  have "disk_count v = 4" using m S by (simp add: v'(1) partly_marked_def)
  then obtain s where s: "init_counters v = Ok () s" "finished_setup v s" using init_counters_apply by blast
  obtain cv' wid tid cr cw ri wi where s': "s = v\<lparr>canvas := cv', windowID := wid, timeID := tid, timer := 0, logical_requests := 0,
        latency_total := 0, count_reads := cr, count_writes := cw, count_reads_id := ri, count_writes_id := wi,
        do_animate := True, is_done := False\<rparr>"
      "\<forall>d \<in> disk_set. cr d = Some 0 \<and> cw d = Some 0 \<and> ri d \<noteq> None \<and> wi d \<noteq> None"
    using s(2) unfolding finished_setup_def by blast
  have "built cf wnd out items s"
    using u S m t by (simp add: built_def s'(1) v'(1)) (simp add: partly_marked_def laid_out_def disks_fresh_def)
  moreover have "equipped cf items s"
    using t s'(2) v'(2-4) by (simp add: equipped_def s'(1) v'(1) partly_marked_def laid_out_def)
  ultimately show ?thesis using place v(1) s(1) by auto
qed

lemma builtD:
  assumes "built cf wnd out items s"
  shows "request_queue s = marked_queue (mapping cf) items (triples_seen (mapping cf) items)"
    "request_count_needed s = total_ios (mapping cf) items" "mapping s = mapping cf" "disk_count s = 4"
    "seek_speed s = seek_speed cf" "window s = wnd" "request_count s = 0" "logical_requests s = 0" "timer s = 0"
    "do_animate s" "\<not> is_done s" "pending s = 0" "disks_fresh s"
  using assms by (simp_all add: built_def)

text \<open>All disks are idle, at the top, and have never worked.\<close>

lemma fresh_disk:
  assumes "disks_fresh s" "d \<in> disk_set"
  shows "\<not> busy s d" "flight_ok s d" "head_ok s d" "last_ok s d"
proof -
  have null: "disk_state s d = Some STATE_NULL" using assms by (auto simp: disks_fresh_def)
  then show "\<not> busy s d" by (simp add: busy_def)
  then show "flight_ok s d" by (simp add: flight_ok_def)
  show "last_ok s d" using assms by (auto simp: last_ok_def disks_fresh_def)
  obtain p where "head_position s d = Some p" "pos_y1 p = 100"
    using assms(1) [unfolded disks_fresh_def, rule_format, OF assms(2)] by blast
  then have "head_y s d = 100" by (simp add: head_y_def)
  then show "head_ok s d"
    unfolding head_ok_def null by (intro conjI impI) (rule exI [of _ 0], simp_all)
qed

text \<open>No I/O of any request has been started.\<close>

lemma built_unstarted:
  assumes b: "built cf wnd out items s" and i: "good_items (mapping cf) items" and j: "j < length items"
  shows "unstarted (mapping cf) (request_queue s ! j)" "status_ok s j" "\<not> served s j"
    "0 < request_todo (mapping s) (request_queue s ! j)"
proof -
  note q = builtD [OF b]
  show u: "unstarted (mapping cf) (request_queue s ! j)" using marked_unstarted [OF i j] j by (simp add: q)
  show "status_ok s j" using unstarted_facts [OF u] by (simp add: status_ok_def kind_of_def status_of_def q)
  show "\<not> served s j" "0 < request_todo (mapping s) (request_queue s ! j)"
    using unstarted_facts(2) [OF u] by (simp_all add: served_def q)
qed

lemma built_tables:
  assumes b: "built cf wnd out items s" and e: "equipped cf items s" and m: "good_mapping (mapping cf)"
  shows "tables_ok s" "entries_ok s" "tally s = 0"
proof -
  note q = builtD [OF b] and E = e [unfolded equipped_def]
  show "tables_ok s" unfolding tables_ok_def q using m E q(13) by (auto simp: disks_fresh_def)
  show "entries_ok s" unfolding entries_ok_def q using E q(13) by (auto simp: disks_fresh_def)
  show "tally s = 0" using E unfolding tally_def by (simp add: disk_set_def)
qed

lemma built_sim_ok:
  assumes b: "built cf wnd out items s" and e: "equipped cf items s"
    and go: "good_motion cf wnd" and ne: "items \<noteq> []" and gq: "good_queue (mapping cf) items"
    and m: "good_mapping (mapping cf)"
  shows "sim_ok s" "0 < request_count_needed s"
proof -
  note q = builtD [OF b]
  have i: "good_items (mapping cf) items" using gq by (simp add: good_queue_def)
  note un = built_unstarted [OF b i] and disk = fresh_disk [OF q(13)]
  have none: "{j. j < queue_size s \<and> served s j} = {}" using un(3) by (auto simp: q)
  have acc: "accounts s = request_count_needed s"
    using marked_total [OF m gq] disk(1) by (simp add: accounts_def busy_disks_def total_todo_def q)
  have "0 < seek_speed cf" "seek_speed cf dvd 20" "wnd = - 1 \<or> 1 \<le> wnd" using go by (auto simp: good_motion_def)
  then show "sim_ok s"
    unfolding sim_ok_def none using built_tables [OF b e m] disk un(1,2) acc ne q
    by (auto simp: requests_ok_def unstarted_def window_ok_def)
  have "total_todo s \<noteq> 0" using un(4) [of 0] ne by (auto simp: total_todo_0 q)
  then show "0 < request_count_needed s" using acc q by (auto simp: accounts_def)
qed

lemma built_fresh:
  assumes b: "built cf wnd out items s" and e: "equipped cf items s"
    and go: "good_motion cf wnd" "items \<noteq> []" "good_queue (mapping cf) items" "good_mapping (mapping cf)"
  shows "fresh s"
proof -
  note q = builtD [OF b]
  have "timed 0 (marked_request (mapping cf) items k j)" for k j by (simp add: timed_def marked_fresh)
  then have "clock_ok s" using q e by (auto simp: clock_ok_def in_set_conv_nth equipped_def)
  moreover have "\<not> read_in s j d" if "j < queue_size s" for j d
  proof -
    have "good_items (mapping cf) items" using go(3) by (simp add: good_queue_def)
    then have "unstarted (mapping cf) (request_queue s ! j)" using built_unstarted(1) [OF b] that q by simp
    then have "set (status_of s j) \<subseteq> {REQ_NOT_STARTED}" "length (status_of s j) = length (disks_of s j)"
      using q by (auto simp: unstarted_def status_of_def disks_of_def length_block_disks)
    then have "status_of s j ! i = REQ_NOT_STARTED" if "position_of d (disks_of s j) = Some i" for i
      using position_of_place(1) [OF that] nth_mem [of i "status_of s j"] by (metis singletonD subsetD)
    then show ?thesis by (auto simp: read_in_def split: option.splits if_splits)
  qed
  then have "{j. j < queue_size s \<and> read_in s j d} = {}" for d by auto
  then have "reads_ok s" using e by (simp add: reads_ok_def equipped_def)
  ultimately show ?thesis using built_sim_ok [OF b e go] fresh_disk(1) [OF q(13)] q by (simp add: fresh_def)
qed

lemma second_half:
  assumes g: "good_setting cf" and t: "laid_out cf wnd out t" and i: "good_items (mapping cf) items"
  shows "\<exists>s. pseq place_requests (pbind draw_queue (\<lambda>_. init_counters)) (t\<lparr>request_queue := map fresh_request items\<rparr>) = Ok () s \<and>
    built cf wnd out items s \<and> (good_motion cf wnd \<longrightarrow> items \<noteq> [] \<longrightarrow> good_queue (mapping cf) items \<longrightarrow> fresh s)"
proof -
  have "good_mapping (mapping cf)" using g by (simp add: good_setting_def)
  then show ?thesis using second_half_apply [OF g t i] built_fresh by blast
qed

lemma init_fresh:
  assumes g: "good_setting cf" and q: "good_items (mapping cf) items"
    and made: "\<And>t. laid_out cf wnd out t \<Longrightarrow> make_queue rand t = Some (Ok () (t\<lparr>request_queue := map fresh_request items\<rparr>))"
  shows "\<exists>s. raid_graphics_init rand cf wnd out = Some (Ok () s) \<and> built cf wnd out items s \<and>
    (good_motion cf wnd \<longrightarrow> items \<noteq> [] \<longrightarrow> good_queue (mapping cf) items \<longrightarrow> fresh s)"
proof -
  obtain t where t: "pseq draw_layout (pseq draw_heads (pseq init_targets start_queue)) (blank_sim cf wnd out) = Ok () t"
    "laid_out cf wnd out t"
    using first_half [OF g] by blast
  then show ?thesis using second_half [OF g t(2) q] made [OF t(2)] by (simp add: raid_graphics_init_def)
qed

subsection \<open>Requests from the command line\<close>

definition item_of :: "string \<Rightarrow> (int \<times> optype) option" where
  "item_of w =
     (if w = [] then None
      else if hd w = CHR ''r'' then map_option (\<lambda>n. (n, OP_READ)) (int_of_string (py_remove (CHR ''r'') w))
      else if hd w = CHR ''w'' then map_option (\<lambda>n. (n, OP_WRITE)) (int_of_string (py_remove (CHR ''w'') w))
      else None)"

definition items_of_addr :: "string \<Rightarrow> (int \<times> optype) list option" where
  "items_of_addr a = those (map item_of (py_split (CHR '','') a))"

lemma parse_item_apply:
  assumes "item_of w = Some x"
  shows "parse_item w s = Ok () (s\<lparr>request_queue := request_queue s @ [fresh_request x]\<rparr>)"
proof -
  obtain c cs where w: "w = c # cs" using assms by (cases w) (auto simp: item_of_def)
  then show ?thesis using assms
    by (auto simp: parse_item_def item_of_def py_int_def add_request_def fresh_request_def split: if_splits)
qed

lemma parse_items_apply:
  assumes "those (map item_of ws) = Some items"
  shows "for_each ws parse_item s = Ok () (s\<lparr>request_queue := request_queue s @ map fresh_request items\<rparr>)"
  using assms
proof (induction ws arbitrary: items s)
  case Nil
  then show ?case by simp
next
  case (Cons w ws)
  then obtain x xs where x: "item_of w = Some x" "those (map item_of ws) = Some xs" "items = x # xs"
    by (auto split: option.splits)
  then show ?case using parse_item_apply [OF x(1)] Cons.IH [OF x(2)] by simp
qed

lemma make_queue_parsed:
  assumes "items_of_addr (addr t) = Some items" "addr t \<noteq> []"
  shows "make_queue rand t = Some (Ok () (t\<lparr>request_queue := request_queue t @ map fresh_request items\<rparr>))"
  using assms parse_items_apply [of "py_split (CHR '','') (addr t)" items t]
  by (simp add: make_queue_def parse_addr_def items_of_addr_def)

text \<open>The text of a list of requests, which the parser reads back.\<close>

definition show_item :: "int \<times> optype \<Rightarrow> string" where
  "show_item x = (case snd x of OP_READ \<Rightarrow> CHR ''r'' | OP_WRITE \<Rightarrow> CHR ''w'') # show_int (fst x)"

fun show_items :: "(int \<times> optype) list \<Rightarrow> string" where
  "show_items [] = []"
| "show_items [x] = show_item x"
| "show_items (x # xs) = show_item x @ CHR '','' # show_items xs"

lemma show_int_chars: "c \<in> set (show_int n) \<Longrightarrow> is_digit c \<or> c = CHR ''-''"
  by (auto simp: show_int_def split: if_splits dest: is_digit_show_nat)

lemma show_int_no_letter: "CHR ''r'' \<notin> set (show_int n)" "CHR ''w'' \<notin> set (show_int n)" "CHR '','' \<notin> set (show_int n)"
  using show_int_chars [of "CHR ''r''" n] show_int_chars [of "CHR ''w''" n] show_int_chars [of "CHR '',''" n]
  by (auto simp: is_digit_def)

lemma py_remove_none: "c \<notin> set xs \<Longrightarrow> py_remove c xs = xs"
  by (auto simp: py_remove_def filter_id_conv)

lemma item_of_show [simp]: "item_of (show_item x) = Some x"
proof -
  have "py_remove (CHR ''r'') (CHR ''r'' # show_int n) = show_int n" "py_remove (CHR ''w'') (CHR ''w'' # show_int n) = show_int n" for n
    using py_remove_none [OF show_int_no_letter(1)] py_remove_none [OF show_int_no_letter(2)] by (simp_all add: py_remove_def)
  then show ?thesis by (cases x; cases "snd x") (auto simp: item_of_def show_item_def)
qed

lemma py_split_none: "c \<notin> set xs \<Longrightarrow> py_split c xs = [xs]"
  by (induction xs) auto

lemma py_split_append: "c \<notin> set xs \<Longrightarrow> py_split c (xs @ c # ys) = xs # py_split c ys"
  by (induction xs) auto

lemma show_item_no_comma: "CHR '','' \<notin> set (show_item x)"
  using show_int_no_letter(3) by (cases "snd x") (auto simp: show_item_def)

lemma items_of_show: "items \<noteq> [] \<Longrightarrow> items_of_addr (show_items items) = Some items"
proof (induction items rule: show_items.induct)
  case (2 x)
  then show ?case by (simp add: items_of_addr_def py_split_none [OF show_item_no_comma])
next
  case (3 x y xs)
  then show ?case by (simp add: items_of_addr_def py_split_append [OF show_item_no_comma])
qed simp

lemma show_items_nonempty: "items \<noteq> [] \<Longrightarrow> show_items items \<noteq> []"
  by (cases items rule: show_items.cases) (auto simp: show_item_def)

end
