(* ===== verification/Graphics_Random.thy ===== *)
theory Graphics_Random
  imports Graphics_Launch
begin

section \<open>Requests drawn at random\<close>

text \<open>
  The generation loops of the constructor. A drawn address lies between the bounds, and the
  loop takes the columns in turn; it need not end, and with a bound below the number of columns
  it does not.
\<close>

subsection \<open>One address\<close>

definition next_column :: "int \<Rightarrow> int \<Rightarrow> int" where
  "next_column eff c = (if c + 1 = eff then 0 else c + 1)"

text \<open>What the loop has established when it stops, with the draws it has looked at.\<close>

definition drawn_well :: "(nat \<Rightarrow> pyfloat) \<Rightarrow> int \<Rightarrow> int \<Rightarrow> int \<Rightarrow> int \<Rightarrow> int \<times> nat \<times> int \<Rightarrow> bool" where
  "drawn_well rand eff mx mn t = (\<lambda>(req, k', t').
     (\<exists>j. req = random_address (rand j) mx) \<and> mn \<le> req \<and> t' = next_column eff (req mod eff) \<and>
     (t = req mod eff \<or> (\<exists>j. random_address (rand j) mx < mn)))"

lemma draw_address_well:
  assumes "draw_address rand eff mx mn k t = Some y"
  shows "drawn_well rand eff mx mn t y"
  using assms
proof (rule draw_address.raw_induct [where P = "\<lambda>rand eff mx mn k t y. drawn_well rand eff mx mn t y", rotated])
  fix loop :: "(nat \<Rightarrow> pyfloat) \<Rightarrow> int \<Rightarrow> int \<Rightarrow> int \<Rightarrow> nat \<Rightarrow> int \<Rightarrow> (int \<times> nat \<times> int) option"
    and rand eff mx mn k t y
  assume ih: "\<And>rand eff mx mn k t y. loop rand eff mx mn k t = Some y \<Longrightarrow> drawn_well rand eff mx mn t y"
    and body: "(let req = random_address (rand k) mx
       in if req mod eff \<noteq> t then loop rand eff mx mn (k + 1) t
          else let target' = (if t + 1 = eff then 0 else t + 1)
               in if mn \<le> req then Some (req, k + 1, target') else loop rand eff mx mn (k + 1) target') = Some y"
  let ?req = "random_address (rand k) mx"
  consider "?req mod eff \<noteq> t" "loop rand eff mx mn (k + 1) t = Some y"
    | "?req mod eff = t" "mn \<le> ?req" "y = (?req, k + 1, next_column eff t)"
    | "?req < mn" "loop rand eff mx mn (k + 1) (next_column eff t) = Some y"
    using body by (auto simp: Let_def next_column_def split: if_splits)
  then show "drawn_well rand eff mx mn t y"
  proof cases
    case 1
    then show ?thesis using ih by blast
  next
    case 2
    then show ?thesis by (auto simp: drawn_well_def)
  next
    case 3
    then have "drawn_well rand eff mx mn (next_column eff t) y" using ih by blast
    then show ?thesis using 3(1) by (auto simp: drawn_well_def)
  qed
qed

subsection \<open>The whole queue\<close>

definition in_turn :: "int \<Rightarrow> int \<Rightarrow> (int \<times> optype) list \<Rightarrow> bool" where
  "in_turn eff t items \<longleftrightarrow> (\<forall>i < length items. fst (items ! i) mod eff = (t + int i) mod eff)"

lemma draw_requests_result:
  assumes r: "\<And>j. is_draw (rand j)" and mx: "0 < mx" "mx \<le> 2 ^ 53" and eff: "0 < eff" and t: "0 \<le> t" "t < eff"
    and d: "draw_requests rand rfrac eff mx mn num k t = Some (rs, k')"
  shows "\<exists>items. rs = map fresh_request items \<and> length items = num \<and>
    (\<forall>x \<in> set items. max 0 mn \<le> fst x \<and> fst x < mx) \<and> (mn \<le> 0 \<longrightarrow> in_turn eff t items)"
  using t d
proof (induction num arbitrary: k t rs)
  case 0
  then show ?case by (auto simp: in_turn_def)
next
  case (Suc num)
  obtain req k1 t1 rs1 where s: "draw_address rand eff mx mn k t = Some (req, k1, t1)"
    "draw_requests rand rfrac eff mx mn num (k1 + 1) t1 = Some (rs1, k')"
    "rs = new_request req (if fl_less (rand k1) rfrac then OP_READ else OP_WRITE) # rs1"
    using Suc.prems(3) by (auto simp: Let_def split: option.splits)
  note W = draw_address_well [OF s(1), unfolded drawn_well_def, simplified]
  obtain j where j: "req = random_address (rand j) mx" using W by blast
  have b: "0 \<le> random_address (rand i) mx" "random_address (rand i) mx < mx" for i
    unfolding random_address_def by (fact draw_below [OF r mx])+
  have t1: "t1 = next_column eff (req mod eff)" using W by blast
  have m: "0 \<le> req mod eff" "req mod eff < eff" using eff by simp_all
  have "0 \<le> t1" "t1 < eff" using m unfolding t1 next_column_def by auto
  then obtain items where i: "rs1 = map fresh_request items" "length items = num"
    "\<forall>x \<in> set items. max 0 mn \<le> fst x \<and> fst x < mx" "mn \<le> 0 \<longrightarrow> in_turn eff t1 items"
    using Suc.IH [OF _ _ s(2)] by blast
  let ?x = "(req, if fl_less (rand k1) rfrac then OP_READ else OP_WRITE)"
  have "in_turn eff t (?x # items)" if "mn \<le> 0"
  proof -
    have "\<not> random_address (rand i) mx < mn" for i using b(1) [of i] that by linarith
    then have tt: "t = req mod eff" using W by blast
    have "t1 mod eff = (t + 1) mod eff" unfolding t1 tt next_column_def by auto
    then have "(t1 + int i) mod eff = (t + int (Suc i)) mod eff" for i
      by (metis add.assoc add.commute mod_add_left_eq of_nat_Suc)
    then show ?thesis using i(4) that tt Suc.prems(1,2) unfolding in_turn_def
      by (auto simp: nth_Cons split: nat.split)
  qed
  then show ?case using i s(3) b j W
    by (intro exI [of _ "?x # items"]) (auto simp: fresh_request_def)
qed

text \<open>
  The loops end if full rounds keep coming up among the draws: one address in each of the columns,
  in order, none of them below the minimum. A generator that draws at random gives such
  rounds for ever, with probability one; the loops need them only to find the next column.
\<close>

definition rounds :: "(nat \<Rightarrow> pyfloat) \<Rightarrow> int \<Rightarrow> int \<Rightarrow> int \<Rightarrow> bool" where
  "rounds rand eff mx mn \<longleftrightarrow>
     (\<forall>k. \<exists>j \<ge> k. \<forall>i. int i < eff \<longrightarrow>
        random_address (rand (j + i)) mx mod eff = int i \<and> mn \<le> random_address (rand (j + i)) mx)"

lemma draw_address_in_round:
  assumes r: "\<And>i. int i < eff \<Longrightarrow>
      random_address (rand (j + i)) mx mod eff = int i \<and> mn \<le> random_address (rand (j + i)) mx"
    and m: "m \<le> t" "int t < eff"
  shows "\<exists>y. draw_address rand eff mx mn (j + m) (int t) = Some y"
  using m
proof (induction "t - m" arbitrary: m)
  case 0
  then show ?case using r [of t] by (subst draw_address.simps) (simp add: Let_def)
next
  case (Suc n)
  then have "m < t" by simp
  then have "draw_address rand eff mx mn (j + m) (int t) = draw_address rand eff mx mn (j + Suc m) (int t)"
    using r [of m] Suc.prems(2) by (subst draw_address.simps) (simp add: Let_def)
  moreover have "\<exists>y. draw_address rand eff mx mn (j + Suc m) (int t) = Some y"
    using Suc.hyps(1) [of "Suc m"] Suc.hyps(2) Suc.prems \<open>m < t\<close> by simp
  ultimately show ?case by metis
qed

lemma draw_address_ends:
  assumes r: "rounds rand eff mx mn" and t: "0 \<le> t" "t < eff"
  shows "\<exists>req k' t'. draw_address rand eff mx mn k t = Some (req, k', t') \<and> 0 \<le> t' \<and> t' < eff"
proof -
  obtain j where j: "k \<le> j" "\<And>i. int i < eff \<Longrightarrow>
      random_address (rand (j + i)) mx mod eff = int i \<and> mn \<le> random_address (rand (j + i)) mx"
    using r unfolding rounds_def by blast
  have "\<exists>y. draw_address rand eff mx mn k t = Some y" using j(1) t
  proof (induction "j - k" arbitrary: k t)
    case 0
    then show ?case using draw_address_in_round [OF j(2), of 0 "nat t"] by simp
  next
    case (Suc n)
    have "0 \<le> (if t + 1 = eff then 0 else t + 1)" "(if t + 1 = eff then 0 else t + 1) < eff" using Suc.prems by auto
    then have "\<exists>y. draw_address rand eff mx mn (k + 1) t = Some y"
      "\<exists>y. draw_address rand eff mx mn (k + 1) (if t + 1 = eff then 0 else t + 1) = Some y"
      using Suc.hyps Suc.prems by auto
    then show ?case by (subst draw_address.simps) (simp add: Let_def)
  qed
  then obtain req k' t' where y: "draw_address rand eff mx mn k t = Some (req, k', t')" by (metis prod_cases3)
  have "t' = next_column eff (req mod eff)"
    using draw_address_well [OF y] by (auto simp: drawn_well_def)
  moreover have "0 \<le> req mod eff" "req mod eff < eff" using t by simp_all
  ultimately have "0 \<le> t'" "t' < eff" by (auto simp: next_column_def)
  then show ?thesis using y by blast
qed

lemma draw_requests_ends:
  assumes r: "rounds rand eff mx mn" and t: "0 \<le> t" "t < eff"
  shows "\<exists>y. draw_requests rand rfrac eff mx mn num k t = Some y"
  using t
proof (induction num arbitrary: k t)
  case (Suc num)
  obtain req k1 t1 where s: "draw_address rand eff mx mn k t = Some (req, k1, t1)" "0 \<le> t1" "t1 < eff"
    using draw_address_ends [OF r Suc.prems] by blast
  then obtain y where "draw_requests rand rfrac eff mx mn num (k1 + 1) t1 = Some y" using Suc.IH by blast
  then show ?case using s(1) by (simp add: Let_def)
qed simp

text \<open>The queue takes the columns in turn, so a bound below their number starves the loop.\<close>

lemma draw_requests_starve:
  assumes r: "\<And>j. is_draw (rand j)" and mx: "0 < mx" "mx < eff" "mx < int num" and eff: "eff \<le> 2 ^ 53" and mn: "mn \<le> 0"
  shows "draw_requests rand rfrac eff mx mn num k 0 = None"
proof (rule ccontr)
  assume "draw_requests rand rfrac eff mx mn num k 0 \<noteq> None"
  then obtain rs k' where d: "draw_requests rand rfrac eff mx mn num k 0 = Some (rs, k')" by auto
  obtain items where i: "length items = num" "\<forall>x \<in> set items. 0 \<le> fst x \<and> fst x < mx" "in_turn eff 0 items"
    using draw_requests_result [OF r mx(1) _ _ _ _ d] mx eff mn by auto
  let ?i = "nat mx"
  have l: "?i < length items" using i(1) mx by simp
  then have "fst (items ! ?i) mod eff = mx mod eff" using i(3) mx by (simp add: in_turn_def)
  moreover have "0 \<le> fst (items ! ?i)" "fst (items ! ?i) < mx" using i(2) l by auto
  ultimately show False using mx by simp
qed

subsection \<open>Where the requests come from\<close>

text \<open>The first three numbers of the option \<open>-A\<close>.\<close>

definition desc_numbers :: "string \<Rightarrow> int option list" where
  "desc_numbers desc = map int_of_string (take 3 (py_split (CHR '','') desc))"

definition upper_bound :: "int \<Rightarrow> int \<Rightarrow> int" where
  "upper_bound m req_max = (if req_max = - 1 then block_limit m else req_max)"

definition columns :: "int \<Rightarrow> int" where
  "columns m = (if m = 4 then 3 else 4)"

lemma parse_desc_apply:
  assumes d: "desc_numbers (addr_desc t) = [Some num, Some m, Some mn]" and eff: "eff \<noteq> 0"
    and mx: "mx = (if m = - 1 then block_count t else m)"
  shows "parse_desc eff t = (if mn \<ge> mx then Raise (SystemExit 1) (t\<lparr>printed := printed t @ [BadAddrDesc mn mx]\<rparr>)
    else Ok (num, mx, mn) t)"
proof -
  obtain a b c rest where w: "py_split (CHR '','') (addr_desc t) = a # b # c # rest"
    "int_of_string a = Some num" "int_of_string b = Some m" "int_of_string c = Some mn"
    using d by (cases "py_split (CHR '','') (addr_desc t)" rule: remdups_adj.cases; cases "tl (tl (py_split (CHR '','') (addr_desc t)))")
      (auto simp: desc_numbers_def)
  have parts: "pbind (py_getitem (a # b # c # rest) 0) py_int t = Ok num t"
    "pbind (py_getitem (a # b # c # rest) 1) py_int t = Ok m t"
    "pbind (py_getitem (a # b # c # rest) 2) py_int t = Ok mn t"
    using w(2-4) by (simp_all add: py_int_def)
  have bound: "pbind (if m = - 1 then gets block_count else return m) k t = k mx t" for k :: "int \<Rightarrow> (sim, int \<times> int \<times> int) py"
    using mx by simp
  have bal: "pseq (if balance t then pbind (py_div num eff) (\<lambda>disk_min. return ()) else return ()) k t = k t"
    for k :: "(sim, int \<times> int \<times> int) py"
    using eff by (simp add: pseq_def)
  show ?thesis using parts by (simp add: parse_desc_def w(1) Let_def bound bal gprint_def)
qed

text \<open>The queue that the arguments ask for.\<close>

definition asks_for :: "setting \<Rightarrow> (nat \<Rightarrow> pyfloat) \<Rightarrow> (int \<times> optype) list \<Rightarrow> bool" where
  "asks_for cf rand items \<longleftrightarrow>
     (if addr cf \<noteq> [] then items_of_addr (addr cf) = Some items
      else (\<exists>num m mn k. desc_numbers (addr_desc cf) = [Some num, Some m, Some mn] \<and>
        mn < upper_bound (mapping cf) m \<and>
        draw_requests rand (read_fraction cf) (columns (mapping cf)) (upper_bound (mapping cf) m) mn (nat num) 0 0 =
          Some (map fresh_request items, k)))"

lemma make_queue_asked:
  assumes t: "laid_out cf wnd out t" and a: "asks_for cf rand items"
  shows "make_queue rand t = Some (Ok () (t\<lparr>request_queue := map fresh_request items\<rparr>))"
proof -
  note S = laid_out_setting [OF t]
  have q: "request_queue t = []" "block_count t = block_limit (mapping cf)" using t by (simp_all add: laid_out_def)
  show ?thesis
  proof (cases "addr cf = []")
    case False
    then show ?thesis using make_queue_parsed [of t items rand] a S q by (simp add: asks_for_def)
  next
    case True
    then obtain num m mn k where d: "desc_numbers (addr_desc cf) = [Some num, Some m, Some mn]"
      "mn < upper_bound (mapping cf) m"
      "draw_requests rand (read_fraction cf) (columns (mapping cf)) (upper_bound (mapping cf) m) mn (nat num) 0 0 =
        Some (map fresh_request items, k)"
      using a by (auto simp: asks_for_def)
    have "parse_desc (columns (mapping cf)) t = Ok (num, upper_bound (mapping cf) m, mn) t"
      using parse_desc_apply [of t num m mn "columns (mapping cf)" "upper_bound (mapping cf) m"] d(1,2) S q
      by (simp add: columns_def upper_bound_def)
    then show ?thesis using d(3) S q True
      by (simp add: make_queue_def columns_def [symmetric] Let_def)
  qed
qed

lemma asked_fresh:
  assumes "good_setting cf" "good_items (mapping cf) items" "asks_for cf rand items"
  shows "\<exists>s. raid_graphics_init rand cf wnd out = Some (Ok () s) \<and> built cf wnd out items s \<and>
    (good_motion cf wnd \<longrightarrow> items \<noteq> [] \<longrightarrow> good_queue (mapping cf) items \<longrightarrow> fresh s)"
  using init_fresh [OF assms(1,2)] make_queue_asked [OF _ assms(3)] by blast

lemma starved_setup:
  assumes g: "good_setting cf" and a: "addr cf = []" and d: "desc_numbers (addr_desc cf) = [Some num, Some m, Some mn]"
    and b: "mn < upper_bound (mapping cf) m"
    and n: "draw_requests rand (read_fraction cf) (columns (mapping cf)) (upper_bound (mapping cf) m) mn (nat num) 0 0 = None"
  shows "raid_graphics_init rand cf wnd out = None"
proof -
  obtain t where t: "pseq draw_layout (pseq draw_heads (pseq init_targets start_queue)) (blank_sim cf wnd out) = Ok () t"
    "laid_out cf wnd out t"
    using first_half [OF g] by blast
  note S = laid_out_setting [OF t(2)]
  have "block_count t = block_limit (mapping cf)" using t(2) by (simp add: laid_out_def)
  then have "parse_desc (columns (mapping cf)) t = Ok (num, upper_bound (mapping cf) m, mn) t"
    using parse_desc_apply [of t num m mn "columns (mapping cf)" "upper_bound (mapping cf) m"] d b S
    by (simp add: columns_def upper_bound_def)
  then have "make_queue rand t = None"
    using n S a by (simp add: make_queue_def columns_def [symmetric] Let_def)
  then show ?thesis using t(1) by (simp add: raid_graphics_init_def)
qed

lemma bad_desc_setup:
  assumes g: "good_setting cf" and a: "addr cf = []" and d: "desc_numbers (addr_desc cf) = [Some num, Some m, Some mn]"
    and b: "upper_bound (mapping cf) m \<le> mn"
  shows "\<exists>s. raid_graphics_init rand cf wnd out = Some (Raise (SystemExit 1) s) \<and>
    printed s = out @ [BadAddrDesc mn (upper_bound (mapping cf) m)]"
proof -
  obtain t where t: "pseq draw_layout (pseq draw_heads (pseq init_targets start_queue)) (blank_sim cf wnd out) = Ok () t"
    "laid_out cf wnd out t"
    using first_half [OF g] by blast
  note S = laid_out_setting [OF t(2)]
  have p: "block_count t = block_limit (mapping cf)" "printed t = out" using t(2) by (simp_all add: laid_out_def)
  then have "parse_desc (columns (mapping cf)) t =
      Raise (SystemExit 1) (t\<lparr>printed := out @ [BadAddrDesc mn (upper_bound (mapping cf) m)]\<rparr>)"
    using parse_desc_apply [of t num m mn "columns (mapping cf)" "upper_bound (mapping cf) m"] d b S
    by (simp add: columns_def upper_bound_def)
  then have "make_queue rand t = Some (Raise (SystemExit 1) (t\<lparr>printed := out @ [BadAddrDesc mn (upper_bound (mapping cf) m)]\<rparr>))"
    using S a by (simp add: make_queue_def columns_def [symmetric] Let_def)
  then show ?thesis using t(1) by (simp add: raid_graphics_init_def)
qed

end
