(* ===== verification/Graphics_Results.thy ===== *)
theory Graphics_Results
  imports Graphics_Random
begin

section \<open>What the animated simulator guarantees\<close>

text \<open>
  The results about whole runs: the script from its options to the last report, and every state
  that keys and timers can lead to.
\<close>

subsection \<open>From the options to the simulator\<close>

definition setting_of :: "goptions \<Rightarrow> xfloat \<Rightarrow> setting" where
  "setting_of opt rfrac =
     \<lparr> mapping = go_mapping opt, addr_desc = go_addr_desc opt, addr = go_addr opt,
       disk_count = 4, seek_speed = go_seek_speed opt, balance = go_balance opt,
       read_fraction = rfrac, animate_delay = go_animate_delay opt \<rparr>"

definition good_options :: "goptions \<Rightarrow> bool" where
  "good_options opt \<longleftrightarrow>
     good_mapping (go_mapping opt) \<and> 0 < go_seek_speed opt \<and> go_seek_speed opt dvd 20 \<and>
     (go_window opt = - 1 \<or> 1 \<le> go_window opt)"

lemma graphics_main_setting:
  assumes "float_of_string (go_read_fraction opt) = Some rfrac" "go_window opt \<noteq> 0"
  shows "graphics_main opt rand = launch_raid rand (setting_of opt rfrac) (go_window opt)
    (if go_print_options opt then option_lines opt else [])"
  using assms by (simp add: graphics_main_def setting_of_def Let_def)

lemma setting_of_sel [simp]:
  "mapping (setting_of opt rfrac) = go_mapping opt" "addr (setting_of opt rfrac) = go_addr opt"
  "addr_desc (setting_of opt rfrac) = go_addr_desc opt" "read_fraction (setting_of opt rfrac) = rfrac"
  by (simp_all add: setting_of_def)

lemma good_setting_of: "good_mapping (go_mapping opt) \<Longrightarrow> good_setting (setting_of opt rfrac)"
  by (auto simp: good_setting_def setting_of_def)

lemma good_motion_of: "good_options opt \<Longrightarrow> good_motion (setting_of opt rfrac) (go_window opt)"
  by (auto simp: good_options_def good_motion_def setting_of_def)

lemma graphics_main_built:
  assumes f: "float_of_string (go_read_fraction opt) = Some rfrac" and g: "good_mapping (go_mapping opt)" "go_window opt \<noteq> 0"
    and a: "asks_for (setting_of opt rfrac) rand items" and i: "good_items (go_mapping opt) items"
  shows "\<exists>s. graphics_main opt rand = Ready s \<and>
    built (setting_of opt rfrac) (go_window opt) (if go_print_options opt then option_lines opt else []) items s \<and>
    (good_options opt \<longrightarrow> items \<noteq> [] \<longrightarrow> good_queue (go_mapping opt) items \<longrightarrow> fresh s)"
proof -
  let ?out = "if go_print_options opt then option_lines opt else []"
  have "good_items (mapping (setting_of opt rfrac)) items" using i by simp
  then obtain s where "raid_graphics_init rand (setting_of opt rfrac) (go_window opt) ?out = Some (Ok () s)"
    "built (setting_of opt rfrac) (go_window opt) ?out items s"
    "good_options opt \<longrightarrow> items \<noteq> [] \<longrightarrow> good_queue (go_mapping opt) items \<longrightarrow> fresh s"
    using asked_fresh [OF good_setting_of [OF g(1)] _ a, of "go_window opt" ?out] good_motion_of by auto
  then show ?thesis by (simp add: graphics_main_setting [OF f g(2)] launch_raid_def)
qed

lemma good_optionsD: "good_options opt \<Longrightarrow> good_mapping (go_mapping opt) \<and> go_window opt \<noteq> 0"
  by (auto simp: good_options_def)

text \<open>What the timer leads to is reachable.\<close>

lemma run_after_reachable:
  assumes "run_after n s = Ok () s'" "sim_ok s" "0 < pending s" "gui_reachable s0 s"
  shows "gui_reachable s0 s'"
  using assms
proof (induction n arbitrary: s)
  case (Suc n)
  obtain t where t: "handle After s = Ok () t" "sim_ok t" "pending s \<le> pending t"
    using event_ok [OF Suc.prems(2), of After] by auto
  have "gui_step s After t" using Suc.prems(3) t(1) by (intro gui_ok) auto
  then have "gui_reachable s0 t" using gui_next [OF Suc.prems(4)] by blast
  then show ?case using Suc.IH [of t] Suc.prems(1,3) t by simp
qed simp

lemma fresh_reachable_ok:
  assumes "fresh s0" "gui_reachable s0 s"
  shows "sim_ok s" "same_task s0 s" "clock_ok s" "reads_ok s"
  using gui_reachable_ok [OF assms(2)] assms(1) by (auto simp: fresh_def same_task_def onward_def)

lemma Key_s_reachable:
  assumes "fresh s0" "handle Key_s s0 = Ok () s1"
  shows "gui_reachable s0 s1" "sim_ok s1" "pending s1 = 1"
proof -
  have "gui_step s0 Key_s s1" using assms(2) by (intro gui_ok) auto
  then show "gui_reachable s0 s1" by (rule gui_next [OF gui_start])
  have "sim_ok s0" "pending s0 = 0" using assms(1) by (auto simp: fresh_def)
  then show "sim_ok s1" "pending s1 = 1" using event_ok [of s0 Key_s] assms(2) by auto
qed

text \<open>
  C1. Given a supported mapping, a seek speed that divides the height of a block, a window that is
  not empty and a queue of existing addresses (in which what gets marked as a full stripe is writes), the script
  starts, and after the key \<open>s\<close> the timer alone brings the simulation to its end, in at least a
  quarter of a tick and at most 392 ticks for every I/O: every request has been reported, every I/O counted, and the statistics are
  the last lines printed; the average latency is that of a total between 0 and the time passed for each request.
\<close>

theorem graphics_completes:
  assumes "float_of_string (go_read_fraction opt) = Some rfrac" "good_options opt"
    and "asks_for (setting_of opt rfrac) rand items" "items \<noteq> []" "good_queue (go_mapping opt) items"
  shows "\<exists>s0 s1 s n. graphics_main opt rand = Ready s0 \<and> handle Key_s s0 = Ok () s1 \<and>
    for_each (replicate n After) handle s1 = Ok () s \<and>
    is_done s \<and> \<not> do_animate s \<and> timer s = int n + 1 \<and> timer s \<le> 392 * total_ios (go_mapping opt) items \<and>
    total_ios (go_mapping opt) items \<le> 4 * timer s \<and>
    logical_requests s = int (length items) \<and> request_count s = total_ios (go_mapping opt) items \<and>
    0 \<le> latency_total s \<and> latency_total s \<le> timer s * int (length items) \<and>
    printed s = printed s0 @ [StatTotalTime (timer s), StatRequests (int (length items)),
      StatAvgLatency (fl_div (fl_of_int (latency_total s)) (fl_of_int (int (length items))))]"
proof -
  have "good_items (go_mapping opt) items" using assms(5) by (simp add: good_queue_def)
  then obtain s0 where s0: "graphics_main opt rand = Ready s0" "fresh s0" "queue_size s0 = length items"
    "request_count_needed s0 = total_ios (go_mapping opt) items"
    using graphics_main_built [OF assms(1) _ _ assms(3)] good_optionsD [OF assms(2)] assms(2,4,5) by (auto simp: built_def)
  obtain n s1 s where "handle Key_s s0 = Ok () s1" "run_after n s1 = Ok () s" "ended s0 s"
    "timer s = int n + 1" "int n < 392 * request_count_needed s0"
    "request_count_needed s0 \<le> 4 * timer s"
    using start_ends [OF s0(2)] by blast
  moreover from this have "gui_reachable s0 s"
    using run_after_reachable [of n s1 s s0] Key_s_reachable [OF s0(2)] by simp
  then have "clock_ok s" by (rule fresh_reachable_ok(3) [OF s0(2)])
  ultimately show ?thesis using s0
    by (intro exI [of _ s0] exI [of _ s1] exI [of _ s] exI [of _ n]) (auto simp: ended_def run_after_def stat_lines_def clock_ok_def)
qed

text \<open>A run that the witnesses below share: two writes and a read on RAID-5.\<close>

definition demo_options :: goptions where
  "demo_options = default_goptions\<lparr>go_mapping := 5, go_addr := ''w0,r7,w1''\<rparr>"

definition demo_items :: "(int \<times> optype) list" where
  "demo_items = [(0, OP_WRITE), (7, OP_READ), (1, OP_WRITE)]"

lemma demo_good:
  "float_of_string (go_read_fraction demo_options) = Some (Finite (1 / 2))" "good_options demo_options"
  "asks_for (setting_of demo_options (Finite (1 / 2))) rand demo_items" "demo_items \<noteq> []"
  "good_queue (go_mapping demo_options) demo_items"
proof -
  show "float_of_string (go_read_fraction demo_options) = Some (Finite (1 / 2))" by code_simp
  show "good_options demo_options" by (simp add: good_options_def demo_options_def default_goptions_def good_mapping_def)
  have "items_of_addr ''w0,r7,w1'' = Some demo_items" by code_simp
  then show "asks_for (setting_of demo_options (Finite (1 / 2))) rand demo_items"
    by (simp add: asks_for_def demo_options_def)
  show "demo_items \<noteq> []" by (simp add: demo_items_def)
  show "good_queue (go_mapping demo_options) demo_items"
    by (auto simp: good_queue_def good_items_def demo_items_def demo_options_def block_limit_def)
qed

theorem graphics_completes_witness:
  "\<exists>s0 s1 s n. graphics_main demo_options (\<lambda>_. 0) = Ready s0 \<and> handle Key_s s0 = Ok () s1 \<and>
    for_each (replicate n After) handle s1 = Ok () s \<and> is_done s \<and> logical_requests s = 3 \<and> request_count s = 9"
proof -
  have "total_ios (go_mapping demo_options) demo_items = 9" "length demo_items = 3"
    by (simp_all add: total_ios_def demo_options_def demo_items_def ios_def triples_seen_def triple_count_def)
  then show ?thesis using graphics_completes [OF demo_good, of "\<lambda>_. 0"] by auto
qed

subsection \<open>Every reachable state\<close>

definition demo_sim :: sim where
  "demo_sim = (case graphics_main demo_options (\<lambda>_. 0) of
     Ready s \<Rightarrow> s | _ \<Rightarrow> blank_sim (setting_of demo_options (Finite 0)) (- 1) [])"

lemma demo_sim_fresh:
  "fresh demo_sim" "request_count_needed demo_sim = 9" "mapping demo_sim = 5" "queue_size demo_sim = 3"
  "op_type (request_queue demo_sim ! 0) = OP_WRITE" "request_queue demo_sim = marked_queue 5 demo_items 0"
  "window demo_sim = - 1" "disks_fresh demo_sim" "logical_requests demo_sim = 0" "do_animate demo_sim" "\<not> is_done demo_sim" "seek_speed demo_sim = 4"
proof -
  have "good_items (go_mapping demo_options) demo_items" using demo_good(5) by (simp add: good_queue_def)
  then obtain s where s: "graphics_main demo_options (\<lambda>_. 0) = Ready s"
    "built (setting_of demo_options (Finite (1 / 2))) (go_window demo_options)
      (if go_print_options demo_options then option_lines demo_options else []) demo_items s" "fresh s"
    using graphics_main_built [OF demo_good(1) _ _ demo_good(3)] good_optionsD [OF demo_good(2)] demo_good(2,4,5) by blast
  have "total_ios 5 demo_items = 9" "length demo_items = 3" "go_mapping demo_options = 5" "snd (demo_items ! 0) = OP_WRITE"
    "triples_seen 5 demo_items = 0" "go_window demo_options = - 1" "seek_speed (setting_of demo_options (Finite (1 / 2))) = 4"
    by (simp_all add: setting_of_def total_ios_def demo_options_def default_goptions_def demo_items_def ios_def triples_seen_def triple_count_def)
  then show "fresh demo_sim" "request_count_needed demo_sim = 9" "mapping demo_sim = 5" "queue_size demo_sim = 3"
    "op_type (request_queue demo_sim ! 0) = OP_WRITE" "request_queue demo_sim = marked_queue 5 demo_items 0"
    "window demo_sim = - 1" "disks_fresh demo_sim" "logical_requests demo_sim = 0" "do_animate demo_sim" "\<not> is_done demo_sim" "seek_speed demo_sim = 4"
    using s by (auto simp: demo_sim_def built_def)
qed

text \<open>
  C6. Whatever the user and the clock do to a fresh simulator, the invariant holds, and no
  callback raises anything: an event leads to a state in which the invariant holds again, and the
  key \<open>q\<close> exits with status 0.
\<close>

theorem gui_never_raises:
  assumes "fresh s0" "gui_reachable s0 s"
  shows "sim_ok s \<and> handle Key_q s = Raise (SystemExit 0) s \<and>
    (\<forall>e. e \<noteq> Key_q \<longrightarrow> (\<exists>s'. handle e s = Ok () s' \<and> sim_ok s'))"
  using fresh_reachable_ok(1) [OF assms] event_ok Key_q_exits by blast

theorem gui_never_raises_witness:
  "fresh demo_sim \<and> gui_reachable demo_sim demo_sim \<and> (\<exists>s. handle Key_s demo_sim = Ok () s \<and> sim_ok s)"
  using gui_never_raises [OF demo_sim_fresh(1) gui_start] demo_sim_fresh(1) gui_start by (metis event.distinct(3))

text \<open>
  C7. No I/O is lost or done twice: in every reachable state the I/Os counted, those in flight and
  those not yet started add up to the number computed by the constructor; the read and write
  counters of the four disks add up to the I/Os counted; and the simulation is only ever marked
  done when everything has been done and every request reported. The latencies add up to at most the
  time passed for each request reported.
\<close>

theorem io_conservation:
  assumes "fresh s0" "gui_reachable s0 s"
  shows "request_count s + int (card {d \<in> disk_set. busy s d}) + int (\<Sum>r \<leftarrow> request_queue s. request_todo (mapping s) r) =
      request_count_needed s0 \<and>
    (\<Sum>d \<in> {0..<4}. the (count_reads s d) + the (count_writes s d)) = request_count s \<and>
    (is_done s \<longrightarrow> request_count s = request_count_needed s0 \<and> logical_requests s = int (queue_size s0)) \<and>
    0 \<le> latency_total s \<and> latency_total s \<le> timer s * logical_requests s"
proof -
  have time: "clock_ok s" using fresh_reachable_ok(3) [OF assms] .
  note ok = fresh_reachable_ok(1) [OF assms]
  have n: "request_count_needed s = request_count_needed s0" "queue_size s = queue_size s0"
    using fresh_reachable_ok(2) [OF assms] by (simp_all add: same_task_def)
  have "busy_disks s = card {d \<in> disk_set. busy s d}" by (simp add: busy_disks_def Int_def)
  then show ?thesis
    using sim_okD(13,15,16) [OF ok] accounts_done(2) [OF ok] n time
    by (auto simp: accounts_def total_todo_def tally_def disk_set_def clock_ok_def)
qed

theorem io_conservation_witness:
  "fresh demo_sim \<and> gui_reachable demo_sim demo_sim \<and>
   request_count demo_sim + int (card {d \<in> disk_set. busy demo_sim d}) +
     int (\<Sum>r \<leftarrow> request_queue demo_sim. request_todo (mapping demo_sim) r) = 9"
  using io_conservation [OF demo_sim_fresh(1) gui_start] demo_sim_fresh(1,2) gui_start by auto

text \<open>
  C12. The data stay well typed: in every reachable state each request has the disks, the row and
  one status per disk that belong to its address, its status list is one that its kind of request
  can have, and a busy disk works for a request that lists it, for the operation that the status at
  that place names.
\<close>

theorem gui_well_typed:
  assumes "fresh s0" "gui_reachable s0 s"
  shows "(\<forall>q < queue_size s. let r = request_queue s ! q; lba = logical_address r in
      0 \<le> lba \<and> lba < block_limit (mapping s) \<and> phys_disk_list r = Some (block_disks (mapping s) lba) \<and>
      phys_offset r = Some (block_row (mapping s) lba) \<and>
      (\<exists>sts. status r = Some sts \<and> length sts = length (block_disks (mapping s) lba) \<and> legal (req_kind (mapping s) r) sts)) \<and>
    (\<forall>d \<in> {0..<4}. busy s d \<longrightarrow>
      (\<exists>q i oper. current_target s d = Some (Some q) \<and> q < queue_size s \<and> current_optype s d = Some (Some oper) \<and>
         i < length (disks_of s q) \<and> disks_of s q ! i = d \<and> status_of s q ! i = do_op oper))"
proof (intro conjI allI ballI impI)
  note ok = fresh_reachable_ok(1) [OF assms]
  fix q assume q: "q < queue_size s"
  note P = sim_ok_placed [OF ok q]
  have "legal (req_kind (mapping s) (request_queue s ! q)) (statuses (request_queue s ! q))"
    using sim_okD(10) [OF ok q] by (simp add: status_ok_def kind_of_def status_of_def)
  then show "let r = request_queue s ! q; lba = logical_address r in
      0 \<le> lba \<and> lba < block_limit (mapping s) \<and> phys_disk_list r = Some (block_disks (mapping s) lba) \<and>
      phys_offset r = Some (block_row (mapping s) lba) \<and>
      (\<exists>sts. status r = Some sts \<and> length sts = length (block_disks (mapping s) lba) \<and> legal (req_kind (mapping s) r) sts)"
    using P unfolding placed_def Let_def by fastforce
next
  note ok = fresh_reachable_ok(1) [OF assms]
  fix d :: int assume "d \<in> {0..<4}" "busy s d"
  then have d: "d \<in> disk_set" "busy s d" by (auto simp: disk_set_def)
  obtain i oper where "position_of d (disks_of s (target s d)) = Some i" "status_of s (target s d) ! i = do_op oper"
    "current_optype s d = Some (Some oper)" "target s d < queue_size s" "current_target s d = Some (Some (target s d))"
    using busy_target [OF ok d] by metis
  then show "\<exists>q i oper. current_target s d = Some (Some q) \<and> q < queue_size s \<and> current_optype s d = Some (Some oper) \<and>
         i < length (disks_of s q) \<and> disks_of s q ! i = d \<and> status_of s q ! i = do_op oper"
    using position_of_place by blast
qed

theorem gui_well_typed_witness:
  "fresh demo_sim \<and> gui_reachable demo_sim demo_sim \<and> 0 < queue_size demo_sim \<and>
   phys_disk_list (request_queue demo_sim ! 0) =
     Some (block_disks (mapping demo_sim) (logical_address (request_queue demo_sim ! 0)))"
proof -
  have "0 < queue_size demo_sim" using demo_sim_fresh(4) by simp
  then show ?thesis
    using gui_well_typed [OF demo_sim_fresh(1) gui_start] demo_sim_fresh(1) gui_start unfolding Let_def by blast
qed

text \<open>
  C5. Nothing that happens after the start can keep the simulation from ending: from every state
  reachable after the key \<open>s\<close>, some disk is at work or all is done, a timer call is pending, and the
  timer alone (after the key \<open>p\<close> if the animation is paused) brings everything to its end.
\<close>

theorem gui_always_ends:
  assumes "fresh s0" "handle Key_s s0 = Ok () s1" "gui_reachable s1 s"
  shows "(is_done s \<or> (\<exists>d \<in> {0..<4}. busy s d)) \<and> 0 < pending s \<and>
    (\<exists>n s'. for_each ((if do_animate s \<or> is_done s then [] else [Key_p]) @ replicate n After) handle s = Ok () s' \<and>
       is_done s' \<and> logical_requests s' = int (queue_size s0) \<and> request_count s' = request_count_needed s0)"
proof -
  have f: "sim_ok s0" "pending s0 = 0" using assms(1) by (auto simp: fresh_def)
  have s1: "sim_ok s1" "same_task s0 s1" "alive s1" "pending s1 = 1"
    using event_ok [OF f(1), of Key_s] assms(2) f(2) by auto
  have r: "sim_ok s" "same_task s1 s" "alive s" "0 < pending s"
    using gui_reachable_ok [OF assms(3) s1(1)] s1(3,4) by auto
  have n: "queue_size s = queue_size s0" "request_count_needed s = request_count_needed s0"
    using same_task_trans [OF s1(2) r(2)] by (simp_all add: same_task_def)
  have live: "is_done s \<or> (\<exists>d \<in> {0..<4}. busy s d)" using r(3) by (auto simp: alive_def disk_set_def)
  have "\<exists>n s'. for_each ((if do_animate s \<or> is_done s then [] else [Key_p]) @ replicate n After) handle s = Ok () s' \<and>
       is_done s' \<and> logical_requests s' = int (queue_size s0) \<and> request_count s' = request_count_needed s0"
  proof (cases "is_done s")
    case True
    have c: "request_count s = request_count_needed s" using sim_okD(15) [OF r(1) True] .
    show ?thesis using True c accounts_done(2) [OF r(1) c] n
      by (intro exI [of _ 0] exI [of _ s]) simp
  next
    case False
    let ?t = "s\<lparr>do_animate := True\<rparr>"
    have "running ?t" using r False live by (simp add: running_def disk_set_def)
    then obtain m s' where s': "run_after m ?t = Ok () s'" "ended ?t s'" using running_ends by blast
    have "(if do_animate s then [] else [Key_p]) = (if do_animate s \<or> is_done s then [] else [Key_p])" using False by simp
    moreover have "for_each ((if do_animate s then [] else [Key_p]) @ replicate m After) handle s = run_after m ?t"
    proof (cases "do_animate s")
      case True
      then have t: "?t = s" by simp
      show ?thesis unfolding t using True by (simp add: run_after_def)
    next
      case False
      then show ?thesis by (simp add: run_after_def handle_def Pause_def)
    qed
    ultimately show ?thesis using s' n by (intro exI [of _ m] exI [of _ s']) (simp add: ended_def)
  qed
  then show ?thesis using live r(4) by blast
qed

lemma demo_started: "\<exists>s. handle Key_s demo_sim = Ok () s"
  using event_ok [of demo_sim Key_s] demo_sim_fresh(1) by (auto simp: fresh_def)

theorem gui_always_ends_witness:
  "fresh demo_sim \<and> (\<exists>s1. handle Key_s demo_sim = Ok () s1 \<and> gui_reachable s1 s1 \<and>
    (\<exists>n s'. for_each ((if do_animate s1 \<or> is_done s1 then [] else [Key_p]) @ replicate n After) handle s1 = Ok () s' \<and>
       is_done s' \<and> logical_requests s' = 3 \<and> request_count s' = 9))"
proof -
  obtain s1 where s1: "handle Key_s demo_sim = Ok () s1" using demo_started by blast
  show ?thesis using gui_always_ends [OF demo_sim_fresh(1) s1 gui_start] s1 gui_start demo_sim_fresh by auto
qed

lemma demo_running:
  "\<exists>s1 d. handle Key_s demo_sim = Ok () s1 \<and> gui_reachable demo_sim s1 \<and> \<not> is_done s1 \<and> 0 \<le> d \<and> d < 4 \<and> busy s1 d"
proof -
  obtain n s1 s' where s1: "handle Key_s demo_sim = Ok () s1" "request_count s1 \<le> 4"
    using start_ends [OF demo_sim_fresh(1)] by blast
  have r: "gui_reachable demo_sim s1" by (rule Key_s_reachable(1) [OF demo_sim_fresh(1) s1(1)])
  have ok: "sim_ok demo_sim" using demo_sim_fresh(1) by (simp add: fresh_def)
  have k: "sim_ok s1" "same_task demo_sim s1" "alive s1" using event_ok [OF ok, of Key_s] s1(1) by auto
  have "\<not> is_done s1" using sim_okD(15) [OF k(1)] k(2) s1(2) demo_sim_fresh(2) by (auto simp: same_task_def)
  then show ?thesis using s1(1) r k(3) by (auto simp: alive_def)
qed

lemma demo_finished:
  "\<exists>s. gui_reachable demo_sim s \<and> is_done s"
proof -
  obtain n s1 s where s: "handle Key_s demo_sim = Ok () s1" "run_after n s1 = Ok () s" "ended demo_sim s"
    using start_ends [OF demo_sim_fresh(1)] by blast
  note k = Key_s_reachable [OF demo_sim_fresh(1) s(1)]
  show ?thesis using run_after_reachable [OF s(2) k(2) _ k(1)] k(3) s(3) by (auto simp: ended_def)
qed

text \<open>When all is done, both statuses of a subtractive write are \<open>REQ_DONE\<close>.\<close>

lemma done_two_phase:
  assumes "sim_ok s" "is_done s" "q < queue_size s" "kind_of s q = TwoPhase"
  shows "status_of s q = [REQ_DONE, REQ_DONE]"
proof -
  have c: "request_count s = request_count_needed s" using sim_okD(15) [OF assms(1,2)] .
  have st: "status_ok s q" using sim_okD(10) [OF assms(1,3)] .
  then obtain a b where ab: "status_of s q = [a, b]"
    using assms(4) by (auto simp: status_ok_def elim: two_statuses)
  have "todo TwoPhase [a, b] = 0"
    using accounts_done(1) [OF assms(1)] c assms(3,4) ab by (auto simp: request_todo_def kind_of_def status_of_def)
  moreover have still: "\<not> moving ([a, b] ! j)" if j: "j < 2" for j
  proof
    assume "moving ([a, b] ! j)"
    then have "busy s (disks_of s q ! j)" using status_okD(1) [OF st, of j] assms(4) ab j by simp
    moreover have "disks_of s q ! j \<in> disk_set"
      using disks_of_range [of j s q] placed_lengths [OF sim_okD(3) [OF assms(1)] assms(3)] ab j by simp
    ultimately show False using accounts_done(1) [OF assms(1)] c by blast
  qed
  have "\<not> moving a" "\<not> moving b" using still [of 0] still [of 1] by simp_all
  ultimately show ?thesis using st ab assms(4)
    by (auto simp: status_ok_def todo_def moving_def split: req_status.splits)
qed

subsection \<open>Order and safety\<close>

lemma position_of_member: "d \<in> set (disks_of s q) \<Longrightarrow> \<exists>i. position_of d (disks_of s q) = Some i"
  by (auto simp: position_of_def disks_of_def block_disks_def Let_def split: if_splits)

lemma legal_two_phase:
  assumes "legal TwoPhase sts"
  obtains "set sts \<subseteq> {REQ_NOT_STARTED, REQ_DO_READ, REQ_PARITY_READ_PHASE_DONE}"
  | "set sts \<subseteq> {REQ_PARITY_WRITE_PHASE_BEGIN, REQ_DO_WRITE, REQ_DONE}"
  using assms by auto

text \<open>
  C10. On RAID-4 and RAID-5, a write that is not marked as part of a full stripe writes nothing before
  both of its reads are in. The read at a disk of such a write is in once the status of that disk
  has left the read phase, and this is not the word of the statuses alone: in every reachable
  state each disk has counted exactly the reads that are in. Once one of the two statuses of the
  write has reached the write phase, or a disk is at work on writing for it, the reads at both of
  its disks are in, and no disk is at work on reading for it.
\<close>

theorem parity_write_order:
  assumes "fresh s0" "gui_reachable s0 s" "mapping s = 4 \<or> mapping s = 5"
  shows "(\<forall>d \<in> {0..<4}. count_reads s d = Some (int (card {q. q < queue_size s \<and> read_in s q d}))) \<and>
    (\<forall>q < queue_size s. op_type (request_queue s ! q) = OP_WRITE \<and>
        \<not> (mapping s = 4 \<and> full_stripe_write (request_queue s ! q)) \<and>
        ((\<exists>i < 2. status_of s q ! i \<in> {REQ_PARITY_WRITE_PHASE_BEGIN, REQ_DO_WRITE, REQ_DONE}) \<or>
         (\<exists>d \<in> {0..<4}. busy s d \<and> target s d = q \<and> current_optype s d = Some (Some OP_WRITE))) \<longrightarrow>
      (\<forall>d \<in> set (disks_of s q). read_in s q d) \<and>
      (\<forall>d \<in> {0..<4}. busy s d \<and> target s d = q \<longrightarrow> current_optype s d \<noteq> Some (Some OP_READ)))"
proof (intro conjI allI impI)
  note ok = fresh_reachable_ok [OF assms(1,2)]
  show "\<forall>d \<in> {0..<4}. count_reads s d = Some (int (card {q. q < queue_size s \<and> read_in s q d}))"
    using ok(4) assms(3) by (auto simp: reads_ok_def disk_set_def)
  fix q assume q: "q < queue_size s" and w: "op_type (request_queue s ! q) = OP_WRITE \<and>
        \<not> (mapping s = 4 \<and> full_stripe_write (request_queue s ! q)) \<and>
        ((\<exists>i < 2. status_of s q ! i \<in> {REQ_PARITY_WRITE_PHASE_BEGIN, REQ_DO_WRITE, REQ_DONE}) \<or>
         (\<exists>d \<in> {0..<4}. busy s d \<and> target s d = q \<and> current_optype s d = Some (Some OP_WRITE)))"
  then have k: "kind_of s q = TwoPhase" using assms(3) by (auto simp: kind_of_def req_kind_def)
  then have l: "legal TwoPhase (status_of s q)" using sim_okD(10) [OF ok(1) q] by (simp add: status_ok_def)
  then have n: "length (status_of s q) = 2" "length (disks_of s q) = 2"
    using placed_lengths [OF sim_okD(3) [OF ok(1)] q] by auto
  have flight: "\<exists>i < 2. position_of d (disks_of s q) = Some i \<and> status_of s q ! i = do_op oper"
    if "d \<in> {0..<4}" "busy s d" "target s d = q" "current_optype s d = Some (Some oper)" for d oper
    using sim_okD(7) [OF ok(1), of d] that position_of_place(1) [of d s q] n(2) by (auto simp: flight_ok_def)
  have "\<exists>i < 2. status_of s q ! i \<in> {REQ_PARITY_WRITE_PHASE_BEGIN, REQ_DO_WRITE, REQ_DONE}"
  proof (cases "\<exists>d \<in> {0..<4}. busy s d \<and> target s d = q \<and> current_optype s d = Some (Some OP_WRITE)")
    case True
    then obtain d i where "i < 2" "status_of s q ! i = do_op OP_WRITE" using flight [where oper = OP_WRITE] by blast
    then show ?thesis by (intro exI [of _ i]) (simp add: do_op_def)
  next
    case False
    then show ?thesis using w by blast
  qed
  then obtain i where i: "i < 2" "status_of s q ! i \<in> {REQ_PARITY_WRITE_PHASE_BEGIN, REQ_DO_WRITE, REQ_DONE}" by blast
  then have "status_of s q ! i \<in> set (status_of s q)" using n(1) by simp
  then have sts: "set (status_of s q) \<subseteq> {REQ_PARITY_WRITE_PHASE_BEGIN, REQ_DO_WRITE, REQ_DONE}"
    using l i(2) by (elim legal_two_phase) auto
  have past: "status_of s q ! j \<notin> {REQ_NOT_STARTED, REQ_DO_READ}" if "j < 2" for j
  proof -
    have "status_of s q ! j \<in> set (status_of s q)" using n(1) that by simp
    then show ?thesis using sts by auto
  qed
  show "\<forall>d \<in> set (disks_of s q). read_in s q d"
  proof
    fix d assume "d \<in> set (disks_of s q)"
    then obtain j where j: "position_of d (disks_of s q) = Some j" using position_of_member by blast
    then have "j < 2" using position_of_place(1) [OF j] n(2) by simp
    then show "read_in s q d" using past [of j] j k by (simp add: read_in_def)
  qed
  show "\<forall>d \<in> {0..<4}. busy s d \<and> target s d = q \<longrightarrow> current_optype s d \<noteq> Some (Some OP_READ)"
  proof (intro ballI impI notI)
    fix d assume "d \<in> {0..<4}" "busy s d \<and> target s d = q" "current_optype s d = Some (Some OP_READ)"
    then obtain j where "j < 2" "status_of s q ! j = do_op OP_READ" using flight [of d OP_READ] by blast
    then show False using past [of j] by (simp add: do_op_def)
  qed
qed

theorem parity_write_order_witness:
  "fresh demo_sim \<and> (\<exists>s. gui_reachable demo_sim s \<and> status_of s 0 ! 0 = REQ_DONE \<and>
    (\<forall>d \<in> set (disks_of s 0). read_in s 0 d) \<and>
    count_reads s 3 = Some (int (card {q. q < 3 \<and> read_in s q 3})))"
proof -
  obtain s where s: "gui_reachable demo_sim s" "is_done s" using demo_finished by blast
  note ok = fresh_reachable_ok [OF demo_sim_fresh(1) s(1)]
  have m: "mapping s = 5" "queue_size s = 3"
    using ok(2) demo_sim_fresh(3,4) by (auto simp: same_task_def)
  have "wanted s ! 0 = wanted demo_sim ! 0" using ok(2) by (simp add: same_task_def)
  then have w: "op_type (request_queue s ! 0) = OP_WRITE"
    using m(2) demo_sim_fresh(4,5) by (simp add: wanted_def)
  then have "kind_of s 0 = TwoPhase" using m by (simp add: kind_of_def req_kind_def)
  then have d: "status_of s 0 = [REQ_DONE, REQ_DONE]" using done_two_phase [OF ok(1) s(2)] m(2) by simp
  have i: "\<exists>i < 2. status_of s 0 ! i \<in> {REQ_PARITY_WRITE_PHASE_BEGIN, REQ_DO_WRITE, REQ_DONE}"
    by (rule exI [of _ 0]) (simp add: d)
  have "mapping s = 4 \<or> mapping s = 5" using m by simp
  note order = parity_write_order [OF demo_sim_fresh(1) s(1) this]
  have "count_reads s 3 = Some (int (card {q. q < 3 \<and> read_in s q 3}))"
    using order [THEN conjunct1] m(2) by simp
  moreover have "\<forall>d \<in> set (disks_of s 0). read_in s 0 d"
    using order [THEN conjunct2, THEN spec, of 0] m w i by simp
  moreover have "status_of s 0 ! 0 = REQ_DONE" using d by simp
  ultimately show ?thesis using s(1) demo_sim_fresh(1) by blast
qed

text \<open>
  C13. No status ever goes back: whatever happens between two reachable states, each status of each
  request has moved up in the order not started, reading, read, ready to write, writing, done, or is
  where it was.
\<close>

theorem statuses_advance:
  assumes "fresh s0" "gui_reachable s0 s" "gui_reachable s s'" "q < queue_size s" "i < length (status_of s q)"
  shows "length (status_of s' q) = length (status_of s q) \<and> status_of s q ! i \<le> status_of s' q ! i"
proof -
  have "sim_ok s" by (rule fresh_reachable_ok(1) [OF assms(1,2)])
  then have "same_task s s'" using gui_reachable_ok [OF assms(3)] by blast
  then have "list_all2 (\<le>) (status_of s q) (status_of s' q)" using assms(4) by (simp add: same_task_def onward_def)
  then show ?thesis using assms(5) by (auto simp: list_all2_conv_all_nth)
qed

theorem statuses_advance_witness:
  "fresh demo_sim \<and> (\<exists>s. gui_reachable demo_sim s \<and> is_done s \<and> length (status_of s 0) = 2 \<and>
    status_of demo_sim 0 ! 1 \<le> status_of s 0 ! 1)"
proof -
  obtain s where s: "gui_reachable demo_sim s" "is_done s" using demo_finished by blast
  have "requests_ok demo_sim" "0 < queue_size demo_sim"
    using demo_sim_fresh(1,4) sim_okD(3) by (auto simp: fresh_def)
  then have l: "length (status_of demo_sim 0) = 2"
    using placed_lengths [of demo_sim 0] demo_sim_fresh(3) by (simp add: disks_of_def length_block_disks)
  show ?thesis
    using statuses_advance [OF demo_sim_fresh(1) gui_start s(1), of 0 1] demo_sim_fresh(1,4) l s by auto
qed

text \<open>
  C22. The window: in every reachable state a disk only works for a request among the first
  \<open>window\<close> of the queue, unless the window is -1; and the window leaves room for one more request
  than have been completed.
\<close>

theorem window_respected:
  assumes "fresh s0" "gui_reachable s0 s" "0 \<le> d" "d < 4" "busy s d"
  shows "window s = - 1 \<or>
    (\<exists>q. current_target s d = Some (Some q) \<and> int q < window s \<and> logical_requests s < window s)"
proof -
  note ok = fresh_reachable_ok(1) [OF assms(1,2)]
  have "d \<in> disk_set" using assms(3,4) by simp
  then have "current_target s d = Some (Some (target s d))" "in_window s (target s d)"
    using sim_okD(7) [OF ok] assms(5) by (auto simp: flight_ok_def)
  then show ?thesis using sim_okD(12) [OF ok] by (auto simp: in_window_def window_ok_def)
qed

theorem window_respected_witness:
  "fresh demo_sim \<and> (\<exists>s d. gui_reachable demo_sim s \<and> 0 \<le> d \<and> d < 4 \<and> busy s d \<and>
    (window s = - 1 \<or> (\<exists>q. current_target s d = Some (Some q) \<and> int q < window s \<and> logical_requests s < window s)))"
proof -
  obtain s d where s: "gui_reachable demo_sim s" "0 \<le> d" "d < 4" "busy s d" using demo_running by blast
  show ?thesis using window_respected [OF demo_sim_fresh(1) s] s demo_sim_fresh(1) by blast
qed

end
