(* ===== verification/Graphics_Steps.thy ===== *)
theory Graphics_Steps
  imports Graphics_Results
begin

section \<open>What single steps do\<close>

text \<open>
  The scheduler takes the first request in its window that has an I/O for the disk; a completed
  I/O reports its request exactly when nothing of the request is left; a seek takes as many ticks
  as the distance divided by the speed; and a pause changes nothing but the time.
\<close>

subsection \<open>First fit\<close>

text \<open>The request that a disk without work gets.\<close>

definition startable :: "sim \<Rightarrow> int \<Rightarrow> nat \<Rightarrow> bool" where
  "startable s d q \<longleftrightarrow> in_window s q \<and> decide (mapping s) d (request_queue s ! q) \<noteq> None"

definition next_request :: "sim \<Rightarrow> int \<Rightarrow> nat option" where
  "next_request s d = find (startable s d) [0..<queue_size s]"

text \<open>Once a disk has work, the rest of the loop leaves it alone.\<close>

lemma busy_loop:
  assumes "sim_ok s" "d \<in> disk_set" "busy s d" "\<forall>q \<in> set qs. q < queue_size s"
  shows "\<exists>c. for_acc qs count (window_step d) s = Ok c s"
  using assms(4)
proof (induction qs arbitrary: count)
  case (Cons q qs)
  then have "schedule d q s = Ok () s"
    using schedule_busy [OF sim_ok_ready [OF assms(1) _ assms(2)]] assms(3) by (simp add: busy_def)
  then have "\<exists>c. window_step d q count s = Ok c s" by (simp add: window_step_def)
  then show ?case using Cons by auto
qed simp

text \<open>The start of the I/O that \<open>decide\<close> chooses.\<close>

definition takes :: "sim \<Rightarrow> int \<Rightarrow> nat option \<Rightarrow> sim \<Rightarrow> bool" where
  "takes s d c s' \<longleftrightarrow>
     (case c of None \<Rightarrow> s' = s
      | Some q \<Rightarrow> \<exists>oper sts cv t. decide (mapping s) d (request_queue s ! q) = Some (oper, sts) \<and>
          s' = launched d q oper sts cv t s)"

lemma first_fit_loop:
  assumes ok: "sim_ok s" and d: "d \<in> disk_set" and idle: "\<not> busy s d"
    and "k \<le> queue_size s" "window s = - 1 \<or> count = min (int k) (window s)"
  shows "\<exists>c s'. for_acc [k..<queue_size s] count (window_step d) s = Ok c s' \<and>
    takes s d (find (startable s d) [k..<queue_size s]) s'"
  using assms(4,5)
proof (induction "queue_size s - k" arbitrary: k count)
  case 0
  then show ?case by (simp add: takes_def)
next
  case (Suc n)
  then have k: "k < queue_size s" and n: "n = queue_size s - Suc k" by simp_all
  have upt: "[k..<queue_size s] = k # [Suc k..<queue_size s]" using k by (rule upt_conv_Cons)
  show ?case
  proof (cases "in_window s k")
    case False
    then have "count = window s" "window s \<noteq> - 1" "window s \<le> int k" using Suc.prems(2) k by (auto simp: in_window_def)
    moreover from this have "window_step d k count s = Ok count s" by (simp add: window_step_def)
    ultimately show ?thesis using Suc.hyps(1) [OF n, of count] k False
      by (auto simp: upt startable_def simp del: upt.simps)
  next
    case w: True
    then have count: "window s = - 1 \<or> count = int k \<and> int k < window s" using Suc.prems(2) by (auto simp: in_window_def)
    have f: "follows schedule d k s"
      using schedule_idle [OF sim_ok_ready [OF ok k d]] idle by (simp add: busy_def)
    have step: "window_step d k count s = pseq (schedule d k) (return (count + 1)) s" using count by (auto simp: window_step_def)
    show ?thesis
    proof (cases "decide (mapping s) d (request_queue s ! k)")
      case None
      then have "window_step d k count s = Ok (count + 1) s" using f by (simp add: follows_def step)
      moreover have "window s = - 1 \<or> count + 1 = min (int (Suc k)) (window s)" using count by auto
      ultimately show ?thesis using Suc.hyps(1) [OF n, of "count + 1"] k None
        by (auto simp: upt startable_def simp del: upt.simps)
    next
      case (Some x)
      then obtain oper sts cv t where x: "decide (mapping s) d (request_queue s ! k) = Some (oper, sts)"
        "schedule d k s = Ok () (launched d k oper sts cv t s)"
        using f by (cases x) (auto simp: follows_def)
      let ?s = "launched d k oper sts cv t s"
      have ok': "sim_ok ?s" by (rule sim_ok_launched(1) [OF ok w d idle x(1)])
      have "busy ?s d" by (simp add: launched_def launch_io_def busy_def Let_def)
      moreover have "queue_size ?s = queue_size s" by (simp add: launched_def launch_io_def Let_def)
      ultimately obtain c where "for_acc [Suc k..<queue_size s] (count + 1) (window_step d) ?s = Ok c ?s"
        using busy_loop [OF ok' d, of "[Suc k..<queue_size s]" "count + 1"] by auto
      moreover have "startable s d k" using w Some by (simp add: startable_def)
      ultimately show ?thesis using x by (auto simp: upt step takes_def simp del: upt.simps)
    qed
  qed
qed

lemma schedule_disk_takes:
  assumes "sim_ok s" "d \<in> disk_set"
  shows "\<exists>s'. schedule_disk d s = Ok () s' \<and> takes s d (if busy s d then None else next_request s d) s'"
proof (cases "busy s d")
  case True
  then obtain c where "for_acc [0..<queue_size s] 0 (window_step d) s = Ok c s"
    using busy_loop [OF assms True, of "[0..<queue_size s]" 0] by auto
  then show ?thesis using True by (simp add: schedule_disk_def queue_length_def takes_def)
next
  case False
  have "window s = - 1 \<or> 0 = min (int 0) (window s)"
    using sim_okD(11,12) [OF assms(1)] by (auto simp: window_ok_def)
  then show ?thesis using first_fit_loop [OF assms False, of 0 0] False
    by (auto simp: schedule_disk_def queue_length_def next_request_def)
qed

lemma next_request_Some:
  assumes "next_request s d = Some q"
  shows "in_window s q" "decide (mapping s) d (request_queue s ! q) \<noteq> None" "q < queue_size s"
    "\<forall>x < q. \<not> startable s d x"
  using assms by (auto simp: next_request_def find_Some_iff startable_def)

text \<open>
  C8. The scheduler is first fit: a disk at work is left alone, and an idle disk gets the first
  request of the queue that lies in the window and has an I/O for that disk, with the operation and
  the new statuses that \<open>decide\<close> names; every other disk and every other request stays as it is.
\<close>

theorem scheduler_first_fit:
  assumes "fresh s0" "gui_reachable s0 s" "0 \<le> d" "d < 4"
  shows "\<exists>s'. schedule_disk d s = Ok () s' \<and>
    (case if disk_state s d = Some STATE_NULL then next_request s d else None of
       None \<Rightarrow> s' = s
     | Some q \<Rightarrow> \<exists>oper sts. decide (mapping s) d (request_queue s ! q) = Some (oper, sts) \<and>
         disk_state s' = (disk_state s)(d \<mapsto> STATE_SEEK) \<and>
         current_target s' = (current_target s)(d \<mapsto> Some q) \<and>
         current_optype s' = (current_optype s)(d \<mapsto> Some oper) \<and>
         statuses (request_queue s' ! q) = sts \<and>
         (\<forall>x. x \<noteq> q \<longrightarrow> request_queue s' ! x = request_queue s ! x) \<and>
         request_count s' = request_count s \<and> window s' = window s)"
proof -
  have ok: "sim_ok s" "d \<in> disk_set" using fresh_reachable_ok(1) [OF assms(1,2)] assms(3,4) by auto
  have b: "busy s d \<longleftrightarrow> disk_state s d \<noteq> Some STATE_NULL" by (simp add: busy_def)
  obtain s' where s': "schedule_disk d s = Ok () s'" "takes s d (if busy s d then None else next_request s d) s'"
    using schedule_disk_takes [OF ok] by blast
  show ?thesis
  proof (cases "if busy s d then None else next_request s d")
    case None
    then show ?thesis using s' by (auto simp: takes_def b split: if_splits)
  next
    case (Some q)
    then have q: "next_request s d = Some q" "\<not> busy s d" by (auto split: if_splits)
    then show ?thesis using s' next_request_Some(3) [OF q(1)]
      by (auto simp: takes_def b launched_def launch_io_def Let_def)
  qed
qed

text \<open>The demonstration run at its start.\<close>

lemma demo_queue: "request_queue demo_sim = map (placed_request 5) demo_items"
proof -
  have "marked_queue 5 demo_items 0 = map (placed_request 5) demo_items"
    by (rule nth_equalityI) (simp_all add: marked_request_def)
  then show ?thesis using demo_sim_fresh(6) by simp
qed

lemma demo_idle: "0 \<le> d \<Longrightarrow> d < 4 \<Longrightarrow> disk_state demo_sim d = Some STATE_NULL"
  using demo_sim_fresh(8) by (auto simp: disks_fresh_def)

lemma demo_next: "next_request demo_sim 0 = Some 0" "decide 5 0 (request_queue demo_sim ! 0) = Some (OP_READ, [REQ_DO_READ, REQ_NOT_STARTED])"
proof -
  show d: "decide 5 0 (request_queue demo_sim ! 0) = Some (OP_READ, [REQ_DO_READ, REQ_NOT_STARTED])"
    by (simp add: demo_queue demo_items_def placed_request_def new_request_def decide_def position_of_def block_disks_def
        parity_column_def Let_def)
  have "[0..<queue_size demo_sim] = [0, 1, 2]" using demo_sim_fresh(4) by (simp add: upt_rec)
  moreover have "startable demo_sim 0 0"
    using d demo_sim_fresh(3,4,7) by (simp add: startable_def in_window_def)
  ultimately show "next_request demo_sim 0 = Some 0" by (simp add: next_request_def)
qed

theorem scheduler_first_fit_witness:
  "fresh demo_sim \<and> gui_reachable demo_sim demo_sim \<and>
   (\<exists>s'. schedule_disk 0 demo_sim = Ok () s' \<and> current_target s' 0 = Some (Some 0) \<and>
     statuses (request_queue s' ! 0) = [REQ_DO_READ, REQ_NOT_STARTED])"
  using scheduler_first_fit [OF demo_sim_fresh(1) gui_start, of 0] demo_sim_fresh(1,3) demo_next demo_idle [of 0] gui_start
  by auto

subsection \<open>Reporting a request\<close>

lemma MarkDone_completes:
  assumes ok: "sim_ok s" "d \<in> disk_set" and x: "disk_state s d = Some STATE_XFER"
  shows "\<exists>i oper sts rep cv u. completing s d i oper sts rep \<and> current_optype s d = Some (Some oper) \<and>
    MarkDone d (s\<lparr>transfer_count := (transfer_count s)(d \<mapsto> 0)\<rparr>) = Ok () u \<and>
    u\<lparr>request_count := request_count u + 1, disk_state := (disk_state u)(d \<mapsto> STATE_NULL)\<rparr> =
      settled d oper sts rep (latency_of (timer s) (request_queue s ! target s d) rep) cv s"
proof -
  let ?t = "s\<lparr>transfer_count := (transfer_count s)(d \<mapsto> 0)\<rparr>" and ?r = "request_queue s ! target s d"
  have b: "busy s d" using x by (simp add: busy_def)
  obtain i oper cv where m: "position_of d (disks_of s (target s d)) = Some i"
    "status_of s (target s d) ! i = do_op oper" "current_optype s d = Some (Some oper)"
    "pseq (MarkDone d) (pseq (modify (\<lambda>s. s\<lparr>request_count := request_count s + 1\<rparr>)) (set_disk_state d STATE_NULL)) ?t =
      Ok () (settled d oper (fst (complete (mapping s) i ?r)) (snd (complete (mapping s) i ?r))
        (latency_of (timer s) ?r (snd (complete (mapping s) i ?r))) cv s)"
    using MarkDone_apply [OF ok b] by blast
  obtain u where "MarkDone d ?t = Ok () u" using m(4) by (cases "MarkDone d ?t") (auto simp: pseq_def pbind_def)
  then show ?thesis using m ok x
    by (intro exI [of _ i] exI [of _ oper] exI [of _ "fst (complete (mapping s) i ?r)"]
        exI [of _ "snd (complete (mapping s) i ?r)"] exI [of _ cv] exI [of _ u])
      (simp add: completing_def set_disk_state_def)
qed

text \<open>
  C9. In every state that satisfies the invariant of the simulator, as all reachable states do, when the
  transfer of a disk is over \<open>MarkDone\<close> adds one to the counter of the operation that the
  disk was doing, and reports the request, with the time since its first I/O started as latency,
  exactly if with this I/O nothing of the request is left: nothing to start, and no other disk
  at work for it. A request reported makes room in the window for one more.
\<close>

theorem MarkDone_reports:
  assumes "sim_ok s" "0 \<le> d" "d < 4" "disk_state s d = Some STATE_XFER"
  shows "\<exists>u oper. MarkDone d (s\<lparr>transfer_count := (transfer_count s)(d \<mapsto> 0)\<rparr>) = Ok () u \<and>
    current_optype s d = Some (Some oper) \<and>
    count_reads u = (if oper = OP_READ then (count_reads s)(d \<mapsto> the (count_reads s d) + 1) else count_reads s) \<and>
    count_writes u = (if oper = OP_WRITE then (count_writes s)(d \<mapsto> the (count_writes s d) + 1) else count_writes s) \<and>
    \<not> served s (target s d) \<and>
    (let last = served (u\<lparr>disk_state := (disk_state u)(d \<mapsto> STATE_NULL)\<rparr>) (target s d) in
      logical_requests u = logical_requests s + (if last then 1 else 0) \<and>
      latency_total u = latency_total s + (if last then timer s - start_time (request_queue s ! target s d) else 0) \<and>
      window u = (if last \<and> window s > 0 then window s + 1 else window s))"
proof -
  have ok: "sim_ok s" "d \<in> disk_set" using assms(1-3) by auto
  let ?lat = "\<lambda>rep. latency_of (timer s) (request_queue s ! target s d) rep"
  obtain i oper sts rep cv u where c: "completing s d i oper sts rep" "current_optype s d = Some (Some oper)"
    "MarkDone d (s\<lparr>transfer_count := (transfer_count s)(d \<mapsto> 0)\<rparr>) = Ok () u"
    "u\<lparr>request_count := request_count u + 1, disk_state := (disk_state u)(d \<mapsto> STATE_NULL)\<rparr> =
      settled d oper sts rep (?lat rep) cv s"
    using MarkDone_completes [OF ok assms(4)] by blast
  let ?u = "u\<lparr>request_count := request_count u + 1, disk_state := (disk_state u)(d \<mapsto> STATE_NULL)\<rparr>"
  have "served ?u (target s d) = rep" unfolding c(4) using completing_served [OF c(1)] by simp
  moreover have "served ?u (target s d) = served (u\<lparr>disk_state := (disk_state u)(d \<mapsto> STATE_NULL)\<rparr>) (target s d)"
    by (simp add: served_def busy_def target_def)
  ultimately have l: "served (u\<lparr>disk_state := (disk_state u)(d \<mapsto> STATE_NULL)\<rparr>) (target s d) = rep" by simp
  have v: "count_reads ?u = count_up OP_READ oper d (count_reads s)" "count_writes ?u = count_up OP_WRITE oper d (count_writes s)"
    "logical_requests ?u = logical_requests s + (if rep then 1 else 0)"
    "latency_total ?u = latency_total s + (if rep then ?lat rep else 0)"
    "window ?u = (if rep \<and> window s > 0 then window s + 1 else window s)"
    unfolding c(4) by (simp_all add: settled_def Let_def)
  have "busy s d" using assms(4) by (simp add: busy_def)
  then have "\<not> served s (target s d)" using ok(2) unfolding served_def by blast
  then show ?thesis using c(2,3) v l
    by (intro exI [of _ u] exI [of _ oper]) (simp add: Let_def latency_of_def count_up_def)
qed

text \<open>A disk of the demonstration that starts to seek, and one that has arrived.\<close>

lemma demo_seeking:
  assumes d: "0 \<le> d" "d < 4" and q: "next_request demo_sim d = Some q"
    and dec: "decide 5 d (request_queue demo_sim ! q) = Some (oper, sts)"
  shows "\<exists>s. sim_ok s \<and> disk_state s d = Some STATE_SEEK \<and> target s d = q \<and> seek_speed s = 4 \<and>
    current_optype s d = Some (Some oper) \<and> head_y s d = 100 \<and> goal_y s d = 20 * block_row 5 (fst (demo_items ! q)) + 100"
proof -
  have ok: "sim_ok demo_sim" "d \<in> disk_set" using demo_sim_fresh(1) d by (auto simp: fresh_def)
  obtain s1 where "takes demo_sim d (Some q) s1"
    using schedule_disk_takes [OF ok] q demo_idle [OF d] by (auto simp: busy_def)
  then obtain cv t where l: "s1 = launched d q oper sts cv t demo_sim"
    using dec demo_sim_fresh(3) by (auto simp: takes_def)
  have l3: "length demo_items = 3" by (simp add: demo_items_def)
  have q3: "q < 3" using next_request_Some(3) [OF q] demo_sim_fresh(4) by simp
  have "sim_ok s1"
    unfolding l using sim_ok_launched(1) [OF ok(1) next_request_Some(1) [OF q] ok(2)] demo_idle [OF d] dec demo_sim_fresh(3)
    by (simp add: busy_def)
  moreover obtain p where "head_position demo_sim d = Some p" "pos_y1 p = 100"
    using demo_sim_fresh(8) ok(2) unfolding disks_fresh_def by blast
  then have "head_y s1 d = 100" by (simp add: l launched_def launch_io_def Let_def head_y_def)
  moreover have "fst (demo_items ! q) = logical_address (request_queue s1 ! q)"
    using q3 l3 by (simp add: l launched_def launch_io_def Let_def demo_queue placed_request_def new_request_def restatus_def
        split: prod.split)
  ultimately show ?thesis
    using demo_sim_fresh(3,12)
    by (intro exI [of _ s1]) (simp add: l launched_def launch_io_def Let_def target_def goal_y_def row_of_def)
qed

lemma demo_transfer:
  "\<exists>s. sim_ok s \<and> disk_state s 0 = Some STATE_XFER \<and> current_optype s 0 = Some (Some OP_READ)"
proof -
  obtain s1 where s1: "sim_ok s1" "disk_state s1 0 = Some STATE_SEEK" "current_optype s1 0 = Some (Some OP_READ)"
    "head_y s1 0 = goal_y s1 0"
    using demo_seeking [OF _ _ demo_next] by (auto simp: block_row_def demo_items_def)
  then obtain s2 where s2: "retabled 0 s1 s2" "disk_state s2 0 = Some STATE_XFER" "head_ok s2 0" "ticks_left s2 0 < ticks_left s1 0"
    using arrive_tick [OF s1(1) _ s1(2)] by auto
  have "sim_ok s2" using retabled_ok(1) [OF s1(1) _ _ s2(1,3,4)] s1(2) by (simp add: busy_def)
  then show ?thesis using s2(2) retabled_sel [OF s2(1)] s1(3) by auto
qed

theorem MarkDone_reports_witness:
  "\<exists>s u. sim_ok s \<and> disk_state s 0 = Some STATE_XFER \<and> current_optype s 0 = Some (Some OP_READ) \<and>
    MarkDone 0 (s\<lparr>transfer_count := (transfer_count s)(0 \<mapsto> 0)\<rparr>) = Ok () u \<and>
    count_reads u 0 = Some (the (count_reads s 0) + 1)"
proof -
  obtain s where s: "sim_ok s" "disk_state s 0 = Some STATE_XFER" "current_optype s 0 = Some (Some OP_READ)"
    using demo_transfer by blast
  show ?thesis using MarkDone_reports [OF s(1) _ _ s(2)] s by auto
qed

subsection \<open>Seeking\<close>

text \<open>One tick of a disk that is not there yet: the head moves by the distance that was chosen at the start.\<close>

lemma seek_tick:
  assumes ok: "sim_ok s" and d: "d \<in> disk_set" and seek: "disk_state s d = Some STATE_SEEK"
    and far: "head_y s d \<noteq> goal_y s d"
  shows "\<exists>s'. tick_disk d s = Ok () s' \<and> sim_ok s' \<and> disk_state s' d = Some STATE_SEEK \<and>
    seek_delta s' d = seek_delta s d \<and> head_y s' d = head_y s d + the (seek_delta s d) \<and> goal_y s' d = goal_y s d"
proof -
  have b: "busy s d" using seek by (simp add: busy_def)
  obtain s' where s': "MoveHead d s = Ok () s'" "retabled d s s'" "disk_state s' d = Some STATE_SEEK"
    "head_ok s' d" "ticks_left s' d < ticks_left s d"
    using MoveHead_tick [OF ok d seek far] by blast
  obtain p v where p: "head_position s d = Some p" "seek_delta s d = Some v" using sim_ok_entry [OF ok d] by metis
  obtain ident where "head_ids s d = Some ident" using sim_okD(1) [OF ok] d by (fastforce simp: tables_ok_def)
  then have "head_position s' d = Some (p\<lparr>pos_y1 := pos_y1 p + v, pos_y2 := pos_y2 p + v\<rparr>)"
    using s'(1) p by (auto simp: MoveHead_def canvas_ops Let_def)
  then have "head_y s' d = head_y s d + the (seek_delta s d)" using p by (simp add: head_y_def)
  moreover have "goal_y s' d = goal_y s d" using retabled_sel [OF s'(2)] by (simp add: goal_y_def target_def row_of_def)
  moreover have "tick_disk d s = Ok () s'"
    using s'(1,3) seek DoneWithSeek_apply [OF ok d b] far by (simp add: tick_disk_def seek_step_def transfer_step_def)
  ultimately show ?thesis
    using s'(3) retabled_ok(1) [OF ok d b s'(2,4,5)] retabled_sel [OF s'(2)] by (intro exI [of _ s']) simp
qed

lemma seek_ticks:
  assumes "sim_ok s" "d \<in> disk_set" "disk_state s d = Some STATE_SEEK" "seek_delta s d = Some v" "v \<noteq> 0"
    and "goal_y s d = head_y s d + int k * v" "j \<le> k"
  shows "\<exists>s'. for_each (replicate j d) tick_disk s = Ok () s' \<and> sim_ok s' \<and> disk_state s' d = Some STATE_SEEK \<and>
    head_y s' d = head_y s d + int j * v \<and> goal_y s' d = goal_y s d"
  using assms
proof (induction j arbitrary: s k)
  case (Suc j)
  obtain k' where k: "k = Suc k'" "j \<le> k'" using Suc.prems(7) by (cases k) auto
  have "head_y s d \<noteq> goal_y s d" using Suc.prems(5,6) k(1) by simp
  then obtain s1 where s1: "tick_disk d s = Ok () s1" "sim_ok s1" "disk_state s1 d = Some STATE_SEEK"
    "seek_delta s1 d = Some v" "head_y s1 d = head_y s d + v" "goal_y s1 d = goal_y s d"
    using seek_tick [OF Suc.prems(1-3)] Suc.prems(4) by auto
  have "goal_y s1 d = head_y s1 d + int k' * v" using Suc.prems(6) by (simp add: s1(5,6) k(1) algebra_simps)
  then obtain s' where "for_each (replicate j d) tick_disk s1 = Ok () s'" "sim_ok s'" "disk_state s' d = Some STATE_SEEK"
    "head_y s' d = head_y s1 d + int j * v" "goal_y s' d = goal_y s1 d"
    using Suc.IH [OF s1(2) Suc.prems(2) s1(3,4) Suc.prems(5) _ k(2)] by blast
  then show ?case using s1 by (intro exI [of _ s']) (simp add: algebra_simps)
qed simp

text \<open>
  C24. A seek takes as many ticks as the distance between the head and the row of its target divided
  by the seek speed, a whole number: after fewer ticks of the disk it is still seeking, that much
  nearer, and after exactly so many the head is at the row, where \<open>DoneWithSeek\<close> returns True for the
  first time.
\<close>

theorem seek_time:
  assumes "sim_ok s" "0 \<le> d" "d < 4" "disk_state s d = Some STATE_SEEK"
    and "j \<le> nat (\<bar>goal_y s d - head_y s d\<bar> div seek_speed s)"
  shows "\<exists>s'. for_each (replicate j d) tick_disk s = Ok () s' \<and> disk_state s' d = Some STATE_SEEK \<and>
    \<bar>goal_y s d - head_y s' d\<bar> = \<bar>goal_y s d - head_y s d\<bar> - int j * seek_speed s \<and>
    DoneWithSeek d s' = Ok (j = nat (\<bar>goal_y s d - head_y s d\<bar> div seek_speed s)) s'"
proof -
  have d: "d \<in> disk_set" using assms(2,3) by simp
  obtain k v where k: "seek_delta s d = Some v" "\<bar>v\<bar> = seek_speed s" "0 \<le> k" "goal_y s d = head_y s d + k * v"
    using sim_okD(8) [OF assms(1) d] assms(4) by (auto simp: head_ok_def)
  have sp: "0 < seek_speed s" using sim_okD(5) [OF assms(1)] .
  have dist: "\<bar>goal_y s d - head_y s d\<bar> = k * seek_speed s" using k(2-4) by (simp add: abs_mult)
  then have n: "nat (\<bar>goal_y s d - head_y s d\<bar> div seek_speed s) = nat k" using sp by simp
  have v0: "v \<noteq> 0" using k(2) sp by auto
  obtain s' where s': "for_each (replicate j d) tick_disk s = Ok () s'" "sim_ok s'" "disk_state s' d = Some STATE_SEEK"
    "head_y s' d = head_y s d + int j * v" "goal_y s' d = goal_y s d"
    using seek_ticks [OF assms(1) d assms(4) k(1) v0, of "nat k" j] k(3,4) assms(5) n by auto
  have jk: "int j \<le> k" using assms(5) n k(3) by linarith
  have rest: "goal_y s d - head_y s' d = (k - int j) * v" using k(4) s'(4) by (simp add: algebra_simps)
  then have "\<bar>goal_y s d - head_y s' d\<bar> = (k - int j) * seek_speed s" using jk k(2) by (simp add: abs_mult)
  then have left: "\<bar>goal_y s d - head_y s' d\<bar> = \<bar>goal_y s d - head_y s d\<bar> - int j * seek_speed s"
    unfolding dist by (simp add: algebra_simps)
  have "head_y s' d = goal_y s' d \<longleftrightarrow> j = nat k" using rest v0 jk k(3) s'(5) by auto
  moreover have "busy s' d" using s'(3) by (simp add: busy_def)
  ultimately have "DoneWithSeek d s' = Ok (j = nat k) s'" using DoneWithSeek_apply [OF s'(2) d] by simp
  then show ?thesis using s' left n by auto
qed

lemma demo_next_2:
  "next_request demo_sim 2 = Some 1" "decide 5 2 (request_queue demo_sim ! 1) = Some (OP_READ, [REQ_DO_READ, REQ_NOT_STARTED])"
proof -
  show d: "decide 5 2 (request_queue demo_sim ! 1) = Some (OP_READ, [REQ_DO_READ, REQ_NOT_STARTED])"
    by (simp add: demo_queue demo_items_def placed_request_def new_request_def decide_def position_of_def block_disks_def
        parity_column_def Let_def)
  have "decide 5 2 (request_queue demo_sim ! 0) = None"
    by (simp add: demo_queue demo_items_def placed_request_def new_request_def decide_def position_of_def block_disks_def
        parity_column_def Let_def)
  moreover have "[0..<queue_size demo_sim] = [0, 1, 2]" using demo_sim_fresh(4) by (simp add: upt_rec)
  ultimately show "next_request demo_sim 2 = Some 1"
    using d demo_sim_fresh(3,4,7) by (simp add: next_request_def startable_def in_window_def)
qed

text \<open>Two rows of 20 at speed 4: ten ticks.\<close>

theorem seek_time_witness:
  "\<exists>s s'. sim_ok s \<and> disk_state s 2 = Some STATE_SEEK \<and> for_each (replicate 10 2) tick_disk s = Ok () s' \<and>
    DoneWithSeek 2 s' = Ok True s'"
proof -
  obtain s where s: "sim_ok s" "disk_state s 2 = Some STATE_SEEK" "goal_y s 2 - head_y s 2 = 40" "seek_speed s = 4"
    using demo_seeking [OF _ _ demo_next_2] by (auto simp: block_row_def demo_items_def)
  then show ?thesis using seek_time [OF s(1) _ _ s(2), of 10] by auto
qed

subsection \<open>Pausing\<close>

lemma paused_ticks:
  assumes "\<not> do_animate s" "0 < pending s"
  shows "run_after n s = Ok () s"
  using assms by (induction n) (simp_all add: handle_def Animate_paused)

text \<open>
  Pausing changes nothing but the time: while the animation runs, the key \<open>p\<close>, any number of
  timer calls and \<open>p\<close> again lead back to the same state, so what follows is the same.
\<close>

lemma pause_transparent:
  assumes "do_animate s" "0 < pending s"
  shows "for_each ([Key_p] @ replicate n After @ [Key_p] @ es) handle s = for_each es handle s"
proof -
  let ?p = "s\<lparr>do_animate := False\<rparr>"
  have "handle Key_p s = Ok () ?p" "handle Key_p ?p = Ok () s" using assms(1) by (simp_all add: handle_def Pause_def)
  moreover have "for_each (replicate n After) handle ?p = Ok () ?p"
    using paused_ticks [of ?p n] assms(2) by (simp add: run_after_def)
  ultimately show ?thesis by (simp add: for_each_append)
qed

end
