(* ===== verification/Graphics_Startup.thy ===== *)
theory Graphics_Startup
  imports Graphics_Steps
begin

section \<open>How the script starts, or fails to\<close>

text \<open>
  The picture that the constructor draws, the queue it builds, the text it reads the queue from, the
  bounds of the addresses it draws at random, and the ways in which the script stops before its
  event loop.
\<close>

subsection \<open>The picture\<close>

text \<open>
  C25. The constructor draws every cell of the four disks and twenty rows: the table of rectangles
  gives the number of an item on the canvas with the corners of that cell, whose label, the next
  item, reads the number of the block stored there or \<open>P\<close> and the row for a parity block; and the
  tables of heights agree for blocks and for rows.
\<close>

theorem layout_drawn:
  assumes "good_mapping (mapping cf)" "disk_count cf = 4"
  shows "\<exists>s. draw_layout (blank_sim cf wnd out) = Ok () s \<and>
    (\<forall>d \<in> {0..<4}. \<forall>row \<in> {0..<20}. \<exists>r. disk_and_offset_to_rect_id s (d, row) = Some r \<and>
       coords (canvas s ! nat (r - 1)) = [40 + 120 * d, 20 * row + 100, 140 + 120 * d, 20 * row + 120] \<and>
       fill (canvas s ! nat (r - 1)) = color_map s (d, row) \<and>
       label (canvas s ! nat r) = Some (cell_text (mapping cf) (d, row)) \<and>
       offset_to_ypos s row = Some (20 * row + 100)) \<and>
    (\<forall>lba \<in> {0..<block_limit (mapping cf)}. block_offset s (IntKey lba) = Some (20 * block_row (mapping cf) lba + 100) \<and>
       cell_block (mapping cf) (block_disks (mapping cf) lba ! 0, block_row (mapping cf) lba) = Some lba)"
proof -
  let ?m = "mapping cf"
  have b: "mapping (blank_sim cf wnd out) = ?m" "disk_count (blank_sim cf wnd out) = 4"
    using assms(2) by (simp_all add: blank_sim_def)
  obtain s where s: "draw_layout (blank_sim cf wnd out) = Ok () s"
    "drawn (sized ?m (blank_sim cf wnd out)) ?m (block_limit ?m) (parity_rows ?m) s"
    using draw_layout_drawn [of "blank_sim cf wnd out"] b assms(1) by auto
  have cell: "drawn_cell ?m s (d, row)" if "d \<in> {0..<4}" "row \<in> {0..<20}" for d row
    using drawn_all_cells [OF assms(1) s(2)] that by simp
  have "\<exists>r. disk_and_offset_to_rect_id s (d, row) = Some r \<and>
       coords (canvas s ! nat (r - 1)) = [40 + 120 * d, 20 * row + 100, 140 + 120 * d, 20 * row + 120] \<and>
       fill (canvas s ! nat (r - 1)) = color_map s (d, row) \<and>
       label (canvas s ! nat r) = Some (cell_text ?m (d, row)) \<and>
       offset_to_ypos s row = Some (20 * row + 100)" if "d \<in> {0..<4}" "row \<in> {0..<20}" for d row
    using cell [OF that] by (auto simp: drawn_cell_def cell_shown_def block_coords_def)
  moreover have "block_offset s (IntKey lba) = Some (20 * block_row ?m lba + 100)" if "lba \<in> {0..<block_limit ?m}" for lba
    using s(2) that unfolding drawn_def by blast
  moreover have "block_disks ?m lba ! 0 \<in> set (data_disks ?m lba)" for lba
    by (simp add: data_disks_def length_block_disks)
  then have "cell_block ?m (block_disks ?m lba ! 0, block_row ?m lba) = Some lba" for lba
    using cell_block_place [OF assms(1)] by blast
  ultimately show ?thesis using s(1) by blast
qed

theorem layout_drawn_witness:
  "\<exists>s r. draw_layout (blank_sim (setting_of demo_options (Finite 0)) (- 1) []) = Ok () s \<and>
    disk_and_offset_to_rect_id s (3, 1) = Some r \<and> coords (canvas s ! nat (r - 1)) = [400, 120, 500, 140] \<and>
    label (canvas s ! nat r) = Some ''5''"
proof -
  have c: "good_mapping (mapping (setting_of demo_options (Finite 0)))" "disk_count (setting_of demo_options (Finite 0)) = 4"
    by (simp_all add: good_mapping_def setting_of_def demo_options_def)
  have "cell_text 5 (3, 1) = ''5''" by code_simp
  moreover have "mapping (setting_of demo_options (Finite 0)) = 5" by (simp add: demo_options_def)
  moreover obtain s where s: "draw_layout (blank_sim (setting_of demo_options (Finite 0)) (- 1) []) = Ok () s"
    "\<forall>d \<in> {0..<4}. \<forall>row \<in> {0..<20}. \<exists>r. disk_and_offset_to_rect_id s (d, row) = Some r \<and>
       coords (canvas s ! nat (r - 1)) = [40 + 120 * d, 20 * row + 100, 140 + 120 * d, 20 * row + 120] \<and>
       label (canvas s ! nat r) = Some (cell_text (mapping (setting_of demo_options (Finite 0))) (d, row))"
    using layout_drawn [OF c, of "- 1" "[]"] by blast
  ultimately show ?thesis using s(2) [rule_format, of 3 1] by auto
qed

subsection \<open>The queue\<close>

lemma built_requests:
  assumes b: "built cf wnd out items s" and j: "j < length items"
  shows "logical_address (request_queue s ! j) = fst (items ! j)" "op_type (request_queue s ! j) = snd (items ! j)"
    "start_time (request_queue s ! j) = - 1"
    "phys_disk_list (request_queue s ! j) = Some (block_disks (mapping cf) (fst (items ! j)))"
    "phys_offset (request_queue s ! j) = Some (block_row (mapping cf) (fst (items ! j)))"
    "status (request_queue s ! j) = Some (replicate (length (block_disks (mapping cf) (fst (items ! j)))) REQ_NOT_STARTED)"
    "full_stripe_write (request_queue s ! j) \<longleftrightarrow> mapping cf = 4 \<and> triple_at items (j div 3)"
    "full_stripe_write_parity (request_queue s ! j) \<longleftrightarrow> mapping cf = 4 \<and> triple_at items (j div 3) \<and> j mod 3 = 2"
proof -
  have q: "request_queue s ! j = marked_request (mapping cf) items (triples_seen (mapping cf) items) j"
    using builtD(1) [OF b] j by simp
  have "j < n \<Longrightarrow> j div 3 < (n + 2) div 3" for n :: nat by presburger
  then have "j div 3 < triples_seen (mapping cf) items \<longleftrightarrow> mapping cf = 4" using j by (simp add: triples_seen_def)
  then show "logical_address (request_queue s ! j) = fst (items ! j)" "op_type (request_queue s ! j) = snd (items ! j)"
    "start_time (request_queue s ! j) = - 1"
    "phys_disk_list (request_queue s ! j) = Some (block_disks (mapping cf) (fst (items ! j)))"
    "phys_offset (request_queue s ! j) = Some (block_row (mapping cf) (fst (items ! j)))"
    "status (request_queue s ! j) = Some (replicate (length (block_disks (mapping cf) (fst (items ! j)))) REQ_NOT_STARTED)"
    "full_stripe_write (request_queue s ! j) \<longleftrightarrow> mapping cf = 4 \<and> triple_at items (j div 3)"
    "full_stripe_write_parity (request_queue s ! j) \<longleftrightarrow> mapping cf = 4 \<and> triple_at items (j div 3) \<and> j mod 3 = 2"
    by (auto simp: q marked_request_def placed_request_def mark_def new_request_def map_replicate_const Let_def split: prod.split)
qed

text \<open>
  C11. With addresses that exist, the script comes up with the requests it was asked for, each with
  the disks and the row of its address and no I/O started. On mapping 4, what the code marks as a
  full stripe are the requests at positions 3k, 3k + 1 and 3k + 2 of the queue whose addresses are
  consecutive, the third one as the one that writes the parity. Reads are marked as well as
  writes, and the three are the blocks of one row only if the first address is a multiple of
  three. The number of I/Os needed counts one for a read or an unmirrored write, two for a
  mirrored write, four for a write with parity, less eight for every three requests marked.
\<close>

theorem requests_placed:
  assumes "float_of_string (go_read_fraction opt) = Some rfrac" "good_mapping (go_mapping opt)" "go_window opt \<noteq> 0"
    and "asks_for (setting_of opt rfrac) rand items" "good_items (go_mapping opt) items"
  shows "\<exists>s. graphics_main opt rand = Ready s \<and> queue_size s = length items \<and>
    (\<forall>j < length items. let r = request_queue s ! j; lba = fst (items ! j); k = 3 * (j div 3);
         marked = (go_mapping opt = 4 \<and> k + 2 < length items \<and>
           fst (items ! (k + 1)) = fst (items ! k) + 1 \<and> fst (items ! (k + 2)) = fst (items ! k) + 2) in
       logical_address r = lba \<and> op_type r = snd (items ! j) \<and> start_time r = - 1 \<and>
       phys_disk_list r = Some (block_disks (go_mapping opt) lba) \<and> phys_offset r = Some (block_row (go_mapping opt) lba) \<and>
       status r = Some (replicate (length (block_disks (go_mapping opt) lba)) REQ_NOT_STARTED) \<and>
       (full_stripe_write r \<longleftrightarrow> marked) \<and> (full_stripe_write_parity r \<longleftrightarrow> marked \<and> j mod 3 = 2) \<and>
       (marked \<longrightarrow> (phys_offset (request_queue s ! k) = phys_offset (request_queue s ! (k + 1)) \<and>
           phys_offset (request_queue s ! k) = phys_offset (request_queue s ! (k + 2)) \<longleftrightarrow> fst (items ! k) mod 3 = 0))) \<and>
    request_count s = 0 \<and> request_count_needed s = (\<Sum>x \<leftarrow> items. ios (go_mapping opt) (snd x)) -
      8 * int (card {k. go_mapping opt = 4 \<and> triple_at items k})"
proof -
  let ?m = "go_mapping opt"
  obtain s where s: "graphics_main opt rand = Ready s"
    "built (setting_of opt rfrac) (go_window opt) (if go_print_options opt then option_lines opt else []) items s"
    using graphics_main_built [OF assms] by blast
  have r: "logical_address (request_queue s ! j) = fst (items ! j)" "op_type (request_queue s ! j) = snd (items ! j)"
    "start_time (request_queue s ! j) = - 1" "phys_disk_list (request_queue s ! j) = Some (block_disks ?m (fst (items ! j)))"
    "phys_offset (request_queue s ! j) = Some (block_row ?m (fst (items ! j)))"
    "status (request_queue s ! j) = Some (replicate (length (block_disks ?m (fst (items ! j)))) REQ_NOT_STARTED)"
    "full_stripe_write (request_queue s ! j) \<longleftrightarrow> ?m = 4 \<and> triple_at items (j div 3)"
    "full_stripe_write_parity (request_queue s ! j) \<longleftrightarrow> ?m = 4 \<and> triple_at items (j div 3) \<and> j mod 3 = 2"
    if "j < length items" for j using built_requests [OF s(2) that] by simp_all
  have row: "?m = 4 \<longrightarrow> triple_at items k \<longrightarrow>
      (phys_offset (request_queue s ! (3 * k)) = phys_offset (request_queue s ! (3 * k + 1)) \<and>
       phys_offset (request_queue s ! (3 * k)) = phys_offset (request_queue s ! (3 * k + 2)) \<longleftrightarrow> fst (items ! (3 * k)) mod 3 = 0)" for k
    using triple_row [of items k] r(5) by (auto simp: triple_at_def)
  have "{k. k < triples_seen ?m items \<and> triple_at items k} = {k. ?m = 4 \<and> triple_at items k}"
    by (auto simp: triples_seen_def triple_at_def)
  then show ?thesis using s r row by (auto simp: built_def total_ios_def triple_count_def triple_at_def Let_def)
qed

text \<open>Three writes to one stripe of RAID-4: a full stripe, which needs four I/Os instead of twelve.\<close>

definition stripe_options :: goptions where
  "stripe_options = default_goptions\<lparr>go_mapping := 4, go_addr := ''w3,w4,w5''\<rparr>"

definition stripe_items :: "(int \<times> optype) list" where
  "stripe_items = [(3, OP_WRITE), (4, OP_WRITE), (5, OP_WRITE)]"

lemma stripe_good:
  "float_of_string (go_read_fraction stripe_options) = Some (Finite (1 / 2))" "good_mapping (go_mapping stripe_options)"
  "go_window stripe_options \<noteq> 0" "asks_for (setting_of stripe_options (Finite (1 / 2))) rand stripe_items"
  "good_items (go_mapping stripe_options) stripe_items"
proof -
  show "float_of_string (go_read_fraction stripe_options) = Some (Finite (1 / 2))" by code_simp
  show "good_mapping (go_mapping stripe_options)" "go_window stripe_options \<noteq> 0"
    by (simp_all add: stripe_options_def default_goptions_def good_mapping_def)
  have "items_of_addr ''w3,w4,w5'' = Some stripe_items" by code_simp
  then show "asks_for (setting_of stripe_options (Finite (1 / 2))) rand stripe_items"
    by (simp add: asks_for_def stripe_options_def)
  show "good_items (go_mapping stripe_options) stripe_items"
    by (auto simp: good_items_def stripe_items_def stripe_options_def block_limit_def)
qed

theorem requests_placed_witness:
  "\<exists>s. graphics_main stripe_options (\<lambda>_. 0) = Ready s \<and> request_count_needed s = 4 \<and>
    full_stripe_write_parity (request_queue s ! 2) \<and> phys_disk_list (request_queue s ! 2) = Some [2, 3]"
proof -
  have m: "go_mapping stripe_options = 4" by (simp add: stripe_options_def)
  have n: "length stripe_items = 3" "fst (stripe_items ! 2) = 5" "fst (stripe_items ! 0) = 3" "fst (stripe_items ! 1) = 4"
    "(\<Sum>x \<leftarrow> stripe_items. ios 4 (snd x)) = 12"
    by (simp_all add: stripe_items_def ios_def)
  have t: "{k. triple_at stripe_items k} = {0}" by (auto simp: triple_at_def stripe_items_def)
  have d: "block_disks 4 5 = [2, 3]" by (simp add: block_disks_def)
  obtain s where s: "graphics_main stripe_options (\<lambda>_. 0) = Ready s"
    "\<forall>j < length stripe_items. let k = 3 * (j div 3) in
       phys_disk_list (request_queue s ! j) = Some (block_disks (go_mapping stripe_options) (fst (stripe_items ! j))) \<and>
       (full_stripe_write_parity (request_queue s ! j) \<longleftrightarrow>
         (go_mapping stripe_options = 4 \<and> k + 2 < length stripe_items \<and>
           fst (stripe_items ! (k + 1)) = fst (stripe_items ! k) + 1 \<and>
           fst (stripe_items ! (k + 2)) = fst (stripe_items ! k) + 2) \<and> j mod 3 = 2)"
    "request_count_needed s = (\<Sum>x \<leftarrow> stripe_items. ios (go_mapping stripe_options) (snd x)) -
      8 * int (card {k. go_mapping stripe_options = 4 \<and> triple_at stripe_items k})"
    using requests_placed [OF stripe_good, of "\<lambda>_. 0"] unfolding Let_def by blast
  have "triple_at stripe_items 0" using t by blast
  then have "phys_disk_list (request_queue s ! 2) = Some [2, 3] \<and> full_stripe_write_parity (request_queue s ! 2)"
    using s(2) [rule_format, of 2] m n d by (simp add: Let_def triple_at_def)
  moreover have "request_count_needed s = 4" using s(3) m n(5) t by simp
  ultimately show ?thesis using s(1) by blast
qed

subsection \<open>The text of the queue\<close>

text \<open>
  C35. The option \<open>-a\<close> can name every queue that is not empty: written as \<open>r\<close> or \<open>w\<close> and the
  number, with commas between, it is read back as exactly these requests, in order.
\<close>

theorem addr_roundtrip:
  assumes "items \<noteq> []" "addr s = show_items items"
  shows "make_queue rand s = Some (Ok () (s\<lparr>request_queue := request_queue s @ map (\<lambda>(a, oper). new_request a oper) items\<rparr>))"
proof -
  have "map fresh_request items = map (\<lambda>(a, oper). new_request a oper) items"
    by (simp add: fresh_request_def split_def)
  then show ?thesis
    using make_queue_parsed [of s items rand] items_of_show [OF assms(1)] show_items_nonempty [OF assms(1)] assms(2)
    by simp
qed

theorem addr_roundtrip_witness:
  "show_items [(10, OP_READ), (- 6, OP_WRITE)] = ''r10,w-6'' \<and>
   make_queue (\<lambda>_. 0) (demo_sim\<lparr>addr := ''r10,w-6''\<rparr>) = Some (Ok () (demo_sim\<lparr>addr := ''r10,w-6'',
     request_queue := request_queue demo_sim @ [new_request 10 OP_READ, new_request (- 6) OP_WRITE]\<rparr>))"
proof -
  have t: "show_items [(10, OP_READ), (- 6, OP_WRITE)] = ''r10,w-6''" by code_simp
  show ?thesis
    using addr_roundtrip [of "[(10, OP_READ), (- 6, OP_WRITE)]" "demo_sim\<lparr>addr := ''r10,w-6''\<rparr>" "\<lambda>_. 0"] t by simp
qed

subsection \<open>Random addresses\<close>

text \<open>
  C36. If full rounds of the columns keep coming up among the draws, the generation of requests ends.
  Where it ends, it has drawn as many as asked for, every address is at least the minimum and
  below the maximum, and with no minimum the addresses take the columns in turn, so that the
  requests are spread evenly.
\<close>

theorem draw_requests_balanced:
  assumes "\<And>j. is_draw (rand j)" "0 < mx" "mx \<le> 2 ^ 53" "0 < eff"
  shows "(rounds rand eff mx mn \<longrightarrow> (\<exists>rs k. draw_requests rand rfrac eff mx mn num 0 0 = Some (rs, k))) \<and>
    (\<forall>rs k. draw_requests rand rfrac eff mx mn num 0 0 = Some (rs, k) \<longrightarrow>
       length rs = num \<and>
       (\<forall>i < num. max 0 mn \<le> logical_address (rs ! i) \<and> logical_address (rs ! i) < mx \<and>
         (mn \<le> 0 \<longrightarrow> logical_address (rs ! i) mod eff = int i mod eff)))"
proof (rule conjI)
  show "rounds rand eff mx mn \<longrightarrow> (\<exists>rs k. draw_requests rand rfrac eff mx mn num 0 0 = Some (rs, k))"
    using draw_requests_ends [OF _ order.refl assms(4)] by fast
  have "length rs = num \<and>
      (\<forall>i < num. max 0 mn \<le> logical_address (rs ! i) \<and> logical_address (rs ! i) < mx \<and>
        (mn \<le> 0 \<longrightarrow> logical_address (rs ! i) mod eff = int i mod eff))"
    if d: "draw_requests rand rfrac eff mx mn num 0 0 = Some (rs, k)" for rs k
  proof -
    obtain items where "rs = map fresh_request items" "length items = num"
      "\<forall>x \<in> set items. max 0 mn \<le> fst x \<and> fst x < mx" "mn \<le> 0 \<longrightarrow> in_turn eff 0 items"
      using draw_requests_result [OF assms order_refl assms(4) d] by blast
    then show ?thesis by (auto simp: fresh_request_def new_request_def in_turn_def)
  qed
  then show "\<forall>rs k. draw_requests rand rfrac eff mx mn num 0 0 = Some (rs, k) \<longrightarrow>
       length rs = num \<and>
       (\<forall>i < num. max 0 mn \<le> logical_address (rs ! i) \<and> logical_address (rs ! i) < mx \<and>
         (mn \<le> 0 \<longrightarrow> logical_address (rs ! i) mod eff = int i mod eff))" by blast
qed

text \<open>Draws that go through the four blocks of a row, over and over.\<close>

definition demo_draws :: "nat \<Rightarrow> pyfloat" where
  "demo_draws j = of_nat (j mod 4) / 4"

lemma mod_4_nat: "j mod 4 = 0 \<or> j mod 4 = 1 \<or> j mod 4 = 2 \<or> j mod 4 = (3 :: nat)"
  by linarith

lemma demo_draws: "is_draw (demo_draws j)" "random_address (demo_draws j) 4 = int (j mod 4)"
proof -
  have "is_draw 0" "is_draw (1 / 4)" "is_draw (1 / 2)" "is_draw (3 / 4)" by (simp_all add: is_draw_def)
  then show "is_draw (demo_draws j)" using mod_4_nat [of j] by (auto simp: demo_draws_def)
  have "random_address 0 4 = 0" "random_address (1 / 4) 4 = 1" "random_address (1 / 2) 4 = 2" "random_address (3 / 4) 4 = 3"
    by code_simp+
  then show "random_address (demo_draws j) 4 = int (j mod 4)" using mod_4_nat [of j] by (auto simp: demo_draws_def)
qed

lemma demo_rounds: "rounds demo_draws 4 4 0"
  unfolding rounds_def
proof (rule allI)
  fix k
  have "random_address (demo_draws (4 * k + i)) 4 mod 4 = int i \<and> 0 \<le> random_address (demo_draws (4 * k + i)) 4"
    if "int i < 4" for i using that by (simp add: demo_draws(2))
  then show "\<exists>j \<ge> k. \<forall>i. int i < 4 \<longrightarrow>
      random_address (demo_draws (j + i)) 4 mod 4 = int i \<and> 0 \<le> random_address (demo_draws (j + i)) 4"
    by (intro exI [of _ "4 * k"]) simp
qed

theorem draw_requests_balanced_witness:
  "\<exists>rs k. draw_requests demo_draws (Finite (1 / 2)) 4 4 0 6 0 0 = Some (rs, k) \<and> length rs = 6 \<and>
    logical_address (rs ! 5) mod 4 = 1"
proof -
  note d = draw_requests_balanced [where rand = demo_draws and mx = 4 and eff = 4 and mn = 0 and rfrac = "Finite (1 / 2)" and num = 6]
  obtain rs k where r: "draw_requests demo_draws (Finite (1 / 2)) 4 4 0 6 0 0 = Some (rs, k)"
    using d demo_draws(1) demo_rounds by auto
  then have "length rs = 6 \<and> (\<forall>i < 6. 0 \<le> (0 :: int) \<longrightarrow> logical_address (rs ! i) mod 4 = int i mod 4)"
    using d demo_draws(1) by auto
  then have "length rs = 6" "logical_address (rs ! 5) mod 4 = int 5 mod 4" by auto
  then show ?thesis using r by auto
qed

text \<open>
  C37. The generation may never end: with a maximum below the number of columns and more requests
  than that, the loop waits for an address in a column that no draw can give, and the script does
  not come up.
\<close>

theorem generation_starves:
  assumes "\<And>j. is_draw (rand j)" "float_of_string (go_read_fraction opt) = Some rfrac"
    and "good_mapping (go_mapping opt)" "go_window opt \<noteq> 0" "go_addr opt = []"
    and "desc_numbers (go_addr_desc opt) = [Some num, Some mx, Some mn]"
    and "mn \<le> 0" "0 < mx" "mx < columns (go_mapping opt)" "mx < num"
  shows "graphics_main opt rand = Diverges"
proof -
  let ?cf = "setting_of opt rfrac" and ?out = "if go_print_options opt then option_lines opt else []"
  have u: "upper_bound (mapping ?cf) mx = mx" using assms(8) by (simp add: upper_bound_def)
  have "columns (mapping ?cf) \<le> 2 ^ 53" "mx < int (nat num)" using assms(8,10) by (auto simp: columns_def)
  then have n: "draw_requests rand (read_fraction ?cf) (columns (mapping ?cf)) (upper_bound (mapping ?cf) mx) mn (nat num) 0 0 = None"
    unfolding u using draw_requests_starve [OF assms(1,8)] assms(7,9) by simp
  have "raid_graphics_init rand ?cf (go_window opt) ?out = None"
    by (rule starved_setup [OF good_setting_of [OF assms(3)] _ _ _ n]) (use assms(5-8) u in simp_all)
  then show ?thesis by (simp add: graphics_main_setting [OF assms(2,4)] launch_raid_def)
qed

theorem generation_starves_witness:
  "graphics_main (default_goptions\<lparr>go_addr_desc := ''4,3,0''\<rparr>) demo_draws = Diverges"
proof -
  have "desc_numbers ''4,3,0'' = [Some 4, Some 3, Some 0]" "float_of_string ''0.5'' = Some (Finite (1 / 2))" by code_simp+
  then show ?thesis
    by (intro generation_starves [where rfrac = "Finite (1 / 2)" and num = 4 and mx = 3 and mn = 0])
      (simp_all add: demo_draws default_goptions_def good_mapping_def columns_def)
qed

subsection \<open>Bad requests\<close>

text \<open>How the parser fails on a part of the list that names no request, and what it prints.\<close>

definition item_fault :: "string \<Rightarrow> exn \<times> gline list" where
  "item_fault w =
     (if w = [] then (IndexError, [])
      else if hd w = CHR ''r'' \<or> hd w = CHR ''w'' then (ValueError, [])
      else (SystemExit 1, [MustSpecify]))"

lemma parse_item_fault:
  assumes "item_of w = None"
  shows "parse_item w s = Raise (fst (item_fault w)) (s\<lparr>printed := printed s @ snd (item_fault w)\<rparr>)"
proof (cases w)
  case Nil
  then show ?thesis by (simp add: parse_item_def item_fault_def py_getitem_def py_index_def)
next
  case (Cons c cs)
  then show ?thesis using assms
    by (auto simp: parse_item_def item_of_def item_fault_def py_int_def gprint_def split: if_splits)
qed

lemma parse_items_fault:
  assumes "those (map item_of ws) = Some items" "item_of w = None"
  shows "\<exists>s'. for_each (ws @ w # rest) parse_item s = Raise (fst (item_fault w)) s' \<and>
    printed s' = printed s @ snd (item_fault w)"
  using parse_items_apply [OF assms(1), of s] parse_item_fault [OF assms(2)]
  by (simp add: for_each_append)

text \<open>The first address beyond the end stops the placement loop.\<close>

lemma place_one_beyond:
  assumes m: "good_mapping m" and q: "i < queue_size s" "request_queue s ! i = fresh_request (a, oper)"
    and a: "block_count s \<le> a" and d4: "disk_count s = 4"
  shows "\<exists>s'. place_one m i s = Raise AssertionError s' \<and> printed s' = printed s"
proof -
  have ty: "on_request i GetType t = Ok oper t" "on_request i GetLogicalAddress t = Ok a t"
    if "request_queue t = request_queue s" for t
    using q that by (simp_all add: fresh_request_def new_request_def)
  have ck: "check_logical i t = Raise AssertionError t" if "request_queue t = request_queue s" "block_count t = block_count s" for t
    using ty [OF that(1)] a that(2) by (simp add: check_logical_def)
  let ?u = "s\<lparr>request_count_needed := request_count_needed s + (if m = 1 then 1 else 3)\<rparr>"
  have now: "on_request i GetType s = Ok oper s" "check_logical i s = Raise AssertionError s"
    "check_logical i ?u = Raise AssertionError ?u"
    using ty [of s] ck [of s] ck [of ?u] by simp_all
  have "place_one m i s = Raise AssertionError (if oper = OP_WRITE \<and> m \<noteq> 0 then ?u else s)"
    using m
  proof (rule good_mappingE)
    assume 0: "m = 0"
    show ?thesis using now 0 by (simp add: place_one_def place_striped_def)
  next
    assume 1: "m = 1"
    show ?thesis using now d4 unfolding 1 by (cases oper) (simp_all add: place_one_def place_mirrored_def need_more_def)
  next
    assume 4: "m = 4"
    show ?thesis using now unfolding 4 by (cases oper) (simp_all add: place_one_def place_raid4_def need_more_def)
  next
    assume 5: "m = 5"
    show ?thesis using now unfolding 5 by (cases oper) (simp_all add: place_one_def place_raid5_def need_more_def)
  qed
  then show ?thesis by (auto split: if_splits)
qed

lemma place_requests_beyond:
  assumes m: "good_mapping (mapping s)" "disk_count s = 4" "block_count s = block_limit (mapping s)"
    and q: "request_queue s = map fresh_request items" and x: "x \<in> set items" "block_limit (mapping s) \<le> fst x"
  shows "\<exists>s'. place_requests s = Raise AssertionError s' \<and> printed s' = printed s"
proof -
  have "\<exists>k. k < length items \<and> block_limit (mapping s) \<le> fst (items ! k)" using x by (auto simp: in_set_conv_nth)
  then obtain k where k: "k < length items" "block_limit (mapping s) \<le> fst (items ! k)"
    "\<forall>j < k. fst (items ! j) < block_limit (mapping s)"
    using exists_least_iff [of "\<lambda>k. k < length items \<and> block_limit (mapping s) \<le> fst (items ! k)"] by (auto simp: not_le)
  let ?n = "length items" and ?t = "partly_placed s items k"
  have "\<exists>s'. for_each [0..<k] (place_one (mapping s)) (partly_placed s items 0) = Ok () s' \<and> s' = partly_placed s items k"
    by (rule for_each_upt [where I = "\<lambda>k t. t = partly_placed s items k"]) (use place_step [OF m] k in auto)
  moreover have "s\<lparr>request_count_needed := int ?n\<rparr> = partly_placed s items 0" using q by (simp add: partly_placed_def)
  ultimately have pre: "for_each [0..<k] (place_one (mapping s)) (s\<lparr>request_count_needed := int ?n\<rparr>) = Ok () ?t" by simp
  have tq: "k < queue_size ?t" "request_queue ?t ! k = fresh_request (fst (items ! k), snd (items ! k))"
    using k(1) map_take_drop_update(2) [OF k(1), of "placed_request (mapping s)" fresh_request] by (simp_all add: partly_placed_def)
  obtain u where u: "place_one (mapping s) k ?t = Raise AssertionError u" "printed u = printed s"
    using place_one_beyond [OF m(1) tq] k(2) m(2,3) by (auto simp: partly_placed_def)
  have "[0..<?n] = [0..<k] @ k # [Suc k..<?n]" using k(1) upt_add_eq_append [of 0 k "?n - k"] by (simp add: upt_conv_Cons)
  then have loop: "for_each [0..<?n] (place_one (mapping s)) (s\<lparr>request_count_needed := int ?n\<rparr>) = Raise AssertionError u"
    using pre u(1) by (simp add: for_each_append)
  have n: "queue_length s = Ok ?n s" using q by (simp add: queue_length_def)
  have "place_requests s = Raise AssertionError u"
    using loop m(1) by (elim good_mappingE) (simp_all add: place_requests_def n place_one_def)
  then show ?thesis using u(2) by blast
qed

text \<open>
  C39. A bad list of requests stops the script before the event loop. The first part of the list
  that is no request ends it: with IndexError if it is empty, with ValueError if no number follows
  the letter, and otherwise with a message and status 1. If all parts are requests, an address
  beyond the last block of the mapping ends it with AssertionError.
\<close>

theorem bad_requests:
  assumes "float_of_string (go_read_fraction opt) = Some rfrac" "good_mapping (go_mapping opt)" "go_window opt \<noteq> 0"
    and "out = (if go_print_options opt then option_lines opt else [])"
  shows "(go_addr opt \<noteq> [] \<and> py_split (CHR '','') (go_addr opt) = ws @ w # rest \<and>
        those (map item_of ws) = Some items \<and> item_of w = None \<longrightarrow>
      graphics_main opt rand = Died (fst (item_fault w)) (out @ snd (item_fault w))) \<and>
    (asks_for (setting_of opt rfrac) rand items' \<and> (\<exists>x \<in> set items'. block_limit (go_mapping opt) \<le> fst x) \<longrightarrow>
      graphics_main opt rand = Died AssertionError out)"
proof -
  let ?cf = "setting_of opt rfrac"
  have g: "good_setting ?cf" using good_setting_of [OF assms(2)] .
  obtain t where t: "pseq draw_layout (pseq draw_heads (pseq init_targets start_queue)) (blank_sim ?cf (go_window opt) out) = Ok () t"
    "laid_out ?cf (go_window opt) out t"
    using first_half [OF g] by blast
  note S = laid_out_setting [OF t(2)]
  have p: "printed t = out" "block_count t = block_limit (go_mapping opt)" using t(2) by (simp_all add: laid_out_def)
  have main: "graphics_main opt rand = launch_raid rand ?cf (go_window opt) out"
    using graphics_main_setting [OF assms(1,3)] assms(4) by simp
  have parse: "graphics_main opt rand = Died (fst (item_fault w)) (out @ snd (item_fault w))"
    if a: "go_addr opt \<noteq> []" "py_split (CHR '','') (go_addr opt) = ws @ w # rest"
      "those (map item_of ws) = Some items" "item_of w = None"
  proof -
    obtain t' where "for_each (ws @ w # rest) parse_item t = Raise (fst (item_fault w)) t'"
      "printed t' = out @ snd (item_fault w)"
      using parse_items_fault [OF a(3,4), of rest t] p(1) by auto
    then have "make_queue rand t = Some (Raise (fst (item_fault w)) t')" "printed t' = out @ snd (item_fault w)"
      using a(1,2) S by (simp_all add: make_queue_def parse_addr_def)
    then show ?thesis using t(1) by (simp add: main launch_raid_def raid_graphics_init_def)
  qed
  moreover have "graphics_main opt rand = Died AssertionError out"
    if b: "asks_for ?cf rand items'" "x \<in> set items'" "block_limit (go_mapping opt) \<le> fst x" for x
  proof -
    let ?t = "t\<lparr>request_queue := map fresh_request items'\<rparr>"
    obtain u where "place_requests ?t = Raise AssertionError u" "printed u = out"
      using place_requests_beyond [of ?t items' x] b(2,3) assms(2) S p by (auto simp: setting_of_def)
    then show ?thesis
      using t(1) make_queue_asked [OF t(2) b(1)] by (simp add: main launch_raid_def raid_graphics_init_def)
  qed
  ultimately show ?thesis by blast
qed

text \<open>A list whose second part names no direction, and a block that RAID-5 does not have.\<close>

theorem bad_requests_witness:
  "graphics_main (default_goptions\<lparr>go_addr := ''r1,5,w2''\<rparr>) (\<lambda>_. 0) = Died (SystemExit 1) [MustSpecify] \<and>
   graphics_main (default_goptions\<lparr>go_mapping := 5, go_addr := ''r59,w60''\<rparr>) (\<lambda>_. 0) = Died AssertionError []"
proof -
  let ?o = "default_goptions\<lparr>go_addr := ''r1,5,w2''\<rparr>" and ?p = "default_goptions\<lparr>go_mapping := 5, go_addr := ''r59,w60''\<rparr>"
  have f: "float_of_string (go_read_fraction ?o) = Some (Finite (1 / 2))" "float_of_string (go_read_fraction ?p) = Some (Finite (1 / 2))"
    by code_simp+
  have o: "good_mapping (go_mapping ?o)" "go_window ?o \<noteq> 0" "good_mapping (go_mapping ?p)" "go_window ?p \<noteq> 0"
    "[] = (if go_print_options ?o then option_lines ?o else [])" "[] = (if go_print_options ?p then option_lines ?p else [])"
    by (simp_all add: default_goptions_def good_mapping_def)
  have a: "py_split (CHR '','') ''r1,5,w2'' = [''r1''] @ ''5'' # [''w2'']" "those (map item_of [''r1'']) = Some [(1, OP_READ)]"
    "item_of ''5'' = None" "item_fault ''5'' = (SystemExit 1, [MustSpecify])"
    "items_of_addr ''r59,w60'' = Some [(59, OP_READ), (60, OP_WRITE)]"
    by code_simp+
  have b: "asks_for (setting_of ?p (Finite (1 / 2))) (\<lambda>_. 0) [(59, OP_READ), (60, OP_WRITE)]" "block_limit (go_mapping ?p) \<le> 60"
    using a(5) by (simp_all add: asks_for_def block_limit_def)
  show ?thesis
    using bad_requests [OF f(1) o(1,2,5), of "[''r1'']" "''5''" "[''w2'']" "[(1, OP_READ)]" "\<lambda>_. 0" "[]"]
      bad_requests [OF f(2) o(3,4,6), of "[]" "[]" "[]" "[]" "\<lambda>_. 0" "[(59, OP_READ), (60, OP_WRITE)]"] a b
    by auto
qed

subsection \<open>Bad options\<close>

lemma unsupported_init:
  assumes "\<not> good_mapping (mapping cf)"
  shows "\<exists>s. raid_graphics_init rand cf wnd out = Some (Raise (SystemExit 1) s) \<and>
    printed s = out @ [MappingNotSupported (mapping cf)]"
  using assms
  by (auto simp: raid_graphics_init_def draw_layout_def blank_sim_def gprint_def good_mapping_def)

text \<open>
  C38. The script's own checks, in the order in which it makes them: a window of 0, a fraction of
  reads that is no number, a mapping other than 0, 1, 4 and 5, and random requests whose minimum
  is not below their maximum each end it, with the message that names them, before any request
  is scheduled.
\<close>

theorem launch_errors:
  assumes "out = (if go_print_options opt then option_lines opt else [])"
  shows "(go_window opt = 0 \<longrightarrow> graphics_main opt rand = Died (SystemExit 1) (out @ [BadWindow 0])) \<and>
    (go_window opt \<noteq> 0 \<and> float_of_string (go_read_fraction opt) = None \<longrightarrow> graphics_main opt rand = Died ValueError out) \<and>
    (go_window opt \<noteq> 0 \<and> float_of_string (go_read_fraction opt) = Some rfrac \<longrightarrow>
      (\<not> good_mapping (go_mapping opt) \<longrightarrow>
         graphics_main opt rand = Died (SystemExit 1) (out @ [MappingNotSupported (go_mapping opt)])) \<and>
      (good_mapping (go_mapping opt) \<and> go_addr opt = [] \<and>
         desc_numbers (go_addr_desc opt) = [Some num, Some mx, Some mn] \<and> upper_bound (go_mapping opt) mx \<le> mn \<longrightarrow>
         graphics_main opt rand = Died (SystemExit 1) (out @ [BadAddrDesc mn (upper_bound (go_mapping opt) mx)])))"
proof -
  let ?cf = "setting_of opt rfrac"
  have "graphics_main opt rand = Died (SystemExit 1) (out @ [MappingNotSupported (go_mapping opt)])"
    if "go_window opt \<noteq> 0" "float_of_string (go_read_fraction opt) = Some rfrac" "\<not> good_mapping (go_mapping opt)"
    using unsupported_init [of ?cf rand "go_window opt" out] that assms
    by (auto simp: graphics_main_setting [OF that(2,1)] launch_raid_def)
  moreover have "graphics_main opt rand = Died (SystemExit 1) (out @ [BadAddrDesc mn (upper_bound (go_mapping opt) mx)])"
    if "go_window opt \<noteq> 0" "float_of_string (go_read_fraction opt) = Some rfrac" "good_mapping (go_mapping opt)"
      "go_addr opt = []" "desc_numbers (go_addr_desc opt) = [Some num, Some mx, Some mn]" "upper_bound (go_mapping opt) mx \<le> mn"
    using bad_desc_setup [OF good_setting_of [OF that(3)], of rfrac num mx mn rand "go_window opt" out] that assms
    by (auto simp: graphics_main_setting [OF that(2,1)] launch_raid_def)
  moreover have "graphics_main opt rand = Died (SystemExit 1) (out @ [BadWindow 0])" if "go_window opt = 0"
    using that assms by (simp add: graphics_main_def)
  moreover have "graphics_main opt rand = Died ValueError out"
    if "go_window opt \<noteq> 0" "float_of_string (go_read_fraction opt) = None"
    using that assms by (simp add: graphics_main_def)
  ultimately show ?thesis by blast
qed

theorem launch_errors_witness:
  "graphics_main (default_goptions\<lparr>go_window := 0\<rparr>) (\<lambda>_. 0) = Died (SystemExit 1) [BadWindow 0] \<and>
   graphics_main (default_goptions\<lparr>go_read_fraction := ''half''\<rparr>) (\<lambda>_. 0) = Died ValueError [] \<and>
   graphics_main (default_goptions\<lparr>go_mapping := 6, go_read_fraction := ''nan''\<rparr>) (\<lambda>_. 0) = Died (SystemExit 1) [MappingNotSupported 6] \<and>
   graphics_main (default_goptions\<lparr>go_addr_desc := ''5,-1,80''\<rparr>) (\<lambda>_. 0) = Died (SystemExit 1) [BadAddrDesc 80 80]"
proof -
  have f: "float_of_string ''half'' = None" "float_of_string ''nan'' = Some NaN" "float_of_string ''0.5'' = Some (Finite (1 / 2))"
    "desc_numbers ''5,-1,80'' = [Some 5, Some (- 1), Some 80]" by code_simp+
  have o: "[] = (if go_print_options opt then option_lines opt else [])" if "\<not> go_print_options opt" for opt using that by simp
  have "graphics_main (default_goptions\<lparr>go_window := 0\<rparr>) (\<lambda>_. 0) = Died (SystemExit 1) [BadWindow 0]"
    "graphics_main (default_goptions\<lparr>go_read_fraction := ''half''\<rparr>) (\<lambda>_. 0) = Died ValueError []"
    "graphics_main (default_goptions\<lparr>go_mapping := 6, go_read_fraction := ''nan''\<rparr>) (\<lambda>_. 0) = Died (SystemExit 1) [MappingNotSupported 6]"
    "graphics_main (default_goptions\<lparr>go_addr_desc := ''5,-1,80''\<rparr>) (\<lambda>_. 0) = Died (SystemExit 1) [BadAddrDesc 80 80]"
    using launch_errors [OF o, of "default_goptions\<lparr>go_window := 0\<rparr>" "\<lambda>_. 0" NaN 0 0 0]
      launch_errors [OF o, of "default_goptions\<lparr>go_read_fraction := ''half''\<rparr>" "\<lambda>_. 0" NaN 0 0 0]
      launch_errors [OF o, of "default_goptions\<lparr>go_mapping := 6, go_read_fraction := ''nan''\<rparr>" "\<lambda>_. 0" NaN 0 0 0]
      launch_errors [OF o, of "default_goptions\<lparr>go_addr_desc := ''5,-1,80''\<rparr>" "\<lambda>_. 0" "Finite (1 / 2)" 5 "- 1" 80] f
    by (simp_all add: default_goptions_def good_mapping_def upper_bound_def block_limit_def)
  then show ?thesis by simp
qed

end
