(* ===== verification/Graphics_Traps.thy ===== *)
theory Graphics_Traps
  imports Graphics_Startup
begin

section \<open>Runs that never come to their end\<close>

text \<open>
  Three inputs that pass every check of the script and then defeat the simulation: a queue without
  requests, a window below -1, and on mapping 4 a stripe of three reads, which the constructor marks
  as a full-stripe write and discounts by eight I/Os.
\<close>

subsection \<open>No requests\<close>

text \<open>
  C40. With no requests, the script comes up, and the key \<open>s\<close> fails: there is nothing to do, so
  the statistics are printed at once, and the average latency divides by zero after two lines.
\<close>

theorem empty_run:
  assumes "float_of_string (go_read_fraction opt) = Some rfrac" "good_mapping (go_mapping opt)" "go_window opt \<noteq> 0"
    and "asks_for (setting_of opt rfrac) rand []"
  shows "\<exists>s s'. graphics_main opt rand = Ready s \<and> handle Key_s s = Raise ZeroDivisionError s' \<and>
    printed s' = printed s @ [StatTotalTime 0, StatRequests 0] \<and> \<not> is_done s'"
proof -
  have "good_items (go_mapping opt) []" by (simp add: good_items_def)
  then obtain s where s: "graphics_main opt rand = Ready s"
    "built (setting_of opt rfrac) (go_window opt) (if go_print_options opt then option_lines opt else []) [] s"
    using graphics_main_built [OF assms] by blast
  have "total_ios (go_mapping opt) [] = 0" by (simp add: total_ios_def triple_count_def triple_at_def)
  then have "request_count s = 0" "request_count_needed s = 0" "timer s = 0" "logical_requests s = 0" "\<not> is_done s"
    using s(2) by (simp_all add: built_def)
  then show ?thesis using s(1)
    by (simp add: handle_def Start_def GetNextIOs_def UpdateTime_def canvas_ops PrintStats_def gprint_def fl_of_int_def)
qed

theorem empty_run_witness:
  "\<exists>s s'. graphics_main (default_goptions\<lparr>go_addr_desc := ''0,-1,0''\<rparr>) (\<lambda>_. 0) = Ready s \<and>
    handle Key_s s = Raise ZeroDivisionError s'"
proof -
  let ?o = "default_goptions\<lparr>go_addr_desc := ''0,-1,0''\<rparr>"
  have f: "float_of_string (go_read_fraction ?o) = Some (Finite (1 / 2))" "desc_numbers ''0,-1,0'' = [Some 0, Some (- 1), Some 0]"
    by code_simp+
  have g: "good_mapping (go_mapping ?o)" "go_window ?o \<noteq> 0" by (simp_all add: default_goptions_def good_mapping_def)
  have "addr (setting_of ?o (Finite (1 / 2))) = []" "mapping (setting_of ?o (Finite (1 / 2))) = 0" by (simp_all add: default_goptions_def)
  then have "asks_for (setting_of ?o (Finite (1 / 2))) (\<lambda>_. 0) []"
    using f(2) by (auto simp: asks_for_def upper_bound_def block_limit_def)
  from empty_run [OF f(1) g this] show ?thesis by blast
qed

subsection \<open>A window that never opens\<close>

text \<open>Nothing has been started, and the scheduler will not look at any request.\<close>

definition inert :: "sim \<Rightarrow> bool" where
  "inert s \<longleftrightarrow>
     disk_count s = 4 \<and> window s < - 1 \<and> (\<forall>d \<in> {0..<4}. disk_state s d = Some STATE_NULL) \<and>
     request_count s = 0 \<and> request_count_needed s \<noteq> 0 \<and> \<not> is_done s"

lemma inert_schedule:
  assumes "inert s"
  shows "schedule_disk d s = Ok () s"
proof -
  have "for_acc qs 0 (window_step d) s = Ok 0 s" for qs
    using assms by (induction qs) (simp_all add: inert_def window_step_def)
  then show ?thesis by (simp add: schedule_disk_def queue_length_def)
qed

lemma inert_next: "inert s \<Longrightarrow> GetNextIOs s = Ok () s"
proof -
  assume s: "inert s"
  have "for_each ds schedule_disk s = Ok () s" for ds by (induction ds) (simp_all add: inert_schedule [OF s])
  then show ?thesis using s by (simp add: GetNextIOs_def inert_def)
qed

lemma inert_animate:
  assumes "inert s"
  shows "\<exists>s'. Animate s = Ok () s' \<and> inert s'"
proof (cases "do_animate s")
  case True
  have tick: "for_each ds (\<lambda>d. pseq (seek_step d) (transfer_step d)) t = Ok () t"
    if "inert t" "set ds \<subseteq> {0..<4}" for ds t
    using that(2)
  proof (induction ds)
    case (Cons d ds)
    then have "disk_state t d = Some STATE_NULL" using that(1) by (simp add: inert_def)
    then have "pseq (seek_step d) (transfer_step d) t = Ok () t" by (simp add: seek_step_def transfer_step_def)
    then show ?case using Cons by simp
  qed simp
  define u where "u = final (UpdateTime (s\<lparr>timer := timer s + 1\<rparr>))"
  have up: "UpdateTime (s\<lparr>timer := timer s + 1\<rparr>) = Ok () u" by (simp add: u_def UpdateTime_def canvas_ops)
  have u: "inert u" "disk_count u = 4" using assms by (simp_all add: u_def UpdateTime_def canvas_ops inert_def)
  have "for_each (py_range 0 4) (\<lambda>d. pseq (seek_step d) (transfer_step d)) u = Ok () u"
    by (rule tick [OF u(1)]) (auto simp: py_range_def)
  then have "Animate s = Ok () (u\<lparr>pending := pending u + 1\<rparr>)"
    using True up u(2) by (simp add: Animate_def root_after_def)
  moreover have "inert (u\<lparr>pending := pending u + 1\<rparr>)" using u(1) by (simp add: inert_def)
  ultimately show ?thesis by blast
next
  case False
  then show ?thesis using assms by (simp add: Animate_paused inert_def)
qed

lemma inert_event:
  assumes "inert s" "e \<noteq> Key_q"
  shows "\<exists>s'. handle e s = Ok () s' \<and> inert s'"
proof (cases e)
  case Key_s
  then show ?thesis using inert_next [OF assms(1)] inert_animate [OF assms(1)] by (simp add: handle_def Start_def)
next
  case Key_p
  then show ?thesis using assms(1) by (simp add: handle_def Pause_def inert_def)
next
  case After
  have "inert (s\<lparr>pending := pending s - 1\<rparr>)" using assms(1) by (simp add: inert_def)
  then show ?thesis using inert_animate After by (simp add: handle_def)
qed (use assms(2) in simp)

lemma inert_reachable: "gui_reachable s0 s \<Longrightarrow> inert s0 \<Longrightarrow> inert s"
proof (induction rule: gui_reachable.induct)
  case (gui_next s e s')
  then have "e \<noteq> Key_q" "inert s" by (auto simp: Key_q_exits elim!: gui_stepE)
  then obtain t where "handle e s = Ok () t" "inert t" using inert_event by blast
  then show ?case using gui_next(2) by (auto elim!: gui_stepE)
qed

text \<open>
  C34. The script rejects a window of 0 only. With a window below -1 it comes up, but whatever the
  user and the clock do, no disk ever starts an I/O and the simulation never ends.
\<close>

theorem negative_window_stuck:
  assumes "float_of_string (go_read_fraction opt) = Some rfrac" "good_mapping (go_mapping opt)" "go_window opt < - 1"
    and "asks_for (setting_of opt rfrac) rand items" "good_items (go_mapping opt) items" "total_ios (go_mapping opt) items \<noteq> 0"
  shows "\<exists>s0. graphics_main opt rand = Ready s0 \<and>
    (\<forall>s. gui_reachable s0 s \<longrightarrow> request_count s = 0 \<and> \<not> is_done s \<and> (\<forall>d \<in> {0..<4}. disk_state s d = Some STATE_NULL))"
proof -
  have "go_window opt \<noteq> 0" using assms(3) by simp
  then obtain s0 where s: "graphics_main opt rand = Ready s0"
    "built (setting_of opt rfrac) (go_window opt) (if go_print_options opt then option_lines opt else []) items s0"
    using graphics_main_built [OF assms(1,2) _ assms(4,5)] by blast
  have "disk_state s0 d = Some STATE_NULL" if "d \<in> {0..<4}" for d
    using s(2) that unfolding built_def disks_fresh_def disk_set_def by blast
  then have "inert s0" using s(2) assms(3,6) by (simp add: built_def inert_def)
  then show ?thesis using s(1) inert_reachable by (auto simp: inert_def)
qed

theorem negative_window_stuck_witness:
  "\<exists>s. graphics_main (demo_options\<lparr>go_window := - 2\<rparr>) (\<lambda>_. 0) = Ready s \<and> gui_reachable s s \<and>
    request_count s = 0 \<and> \<not> is_done s \<and> disk_state s 3 = Some STATE_NULL"
proof -
  let ?o = "demo_options\<lparr>go_window := - 2\<rparr>"
  have f: "float_of_string (go_read_fraction ?o) = Some (Finite (1 / 2))" "good_mapping (go_mapping ?o)" "go_window ?o < - 1"
    using demo_good(1,2) by (simp_all add: good_options_def)
  have "setting_of ?o (Finite (1 / 2)) = setting_of demo_options (Finite (1 / 2))" by (simp add: setting_of_def)
  then have a: "asks_for (setting_of ?o (Finite (1 / 2))) (\<lambda>_. 0) demo_items" "good_items (go_mapping ?o) demo_items"
    using demo_good(3,5) by (simp_all add: good_queue_def)
  have "total_ios (go_mapping ?o) demo_items \<noteq> 0"
    by (simp add: total_ios_def demo_options_def demo_items_def ios_def triples_seen_def triple_count_def)
  from negative_window_stuck [OF f a this] show ?thesis using gui_start by force
qed

subsection \<open>A stripe of reads\<close>

text \<open>
  On mapping 4 the number of I/Os needed can be negative. The counter starts at 0 and only grows,
  so that the test for the end, an equality, never holds. The methods of the simulator keep that,
  from any state and whether they return or raise.
\<close>

definition endless :: "gline list \<Rightarrow> sim \<Rightarrow> bool" where
  "endless out s \<longleftrightarrow> request_count_needed s < 0 \<and> 0 \<le> request_count s \<and> \<not> is_done s \<and> printed s = out"

definition stays :: "gline list \<Rightarrow> (sim, 'a) py \<Rightarrow> bool" where
  "stays out m \<longleftrightarrow> (\<forall>s. endless out s \<longrightarrow> endless out (final (m s)))"

named_theorems stays_rules \<open>computations that keep a simulation endless\<close>

lemma staysD: "stays out m \<Longrightarrow> endless out s \<Longrightarrow> endless out (final (m s))"
  by (simp add: stays_def)

lemma stays_primitive [stays_rules]:
  "stays out (return a)" "stays out (raise e)" "stays out (gets f)"
  by (simp_all add: stays_def return_def raise_def gets_def)

lemma stays_modify [stays_rules]:
  "(\<And>s. endless out s \<Longrightarrow> endless out (f s)) \<Longrightarrow> stays out (modify f)"
  by (simp add: stays_def modify_def)

lemma stays_pbind [stays_rules]:
  assumes "stays out m" "\<And>a. stays out (k a)"
  shows "stays out (pbind m k)"
  unfolding stays_def pbind_def
proof (intro allI impI)
  fix s assume "endless out s"
  then have "endless out (final (m s))" by (rule staysD [OF assms(1)])
  then show "endless out (final (case m s of Ok a s' \<Rightarrow> k a s' | Raise e s' \<Rightarrow> Raise e s'))"
    using staysD [OF assms(2)] by (cases "m s") simp_all
qed

lemma stays_pseq [stays_rules]: "stays out m \<Longrightarrow> stays out n \<Longrightarrow> stays out (pseq m n)"
  unfolding pseq_def by (rule stays_pbind)

lemma stays_branches [stays_rules]:
  "(b \<Longrightarrow> stays out m) \<Longrightarrow> (\<not> b \<Longrightarrow> stays out n) \<Longrightarrow> stays out (if b then m else n)"
  "(x = None \<Longrightarrow> stays out m) \<Longrightarrow> (\<And>a. x = Some a \<Longrightarrow> stays out (k a)) \<Longrightarrow>
    stays out (case x of None \<Rightarrow> m | Some a \<Rightarrow> k a)"
  "(\<And>a b. stays out (g a b)) \<Longrightarrow> stays out (case p of (a, b) \<Rightarrow> g a b)"
  by (auto split: option.split prod.split)

lemma stays_lookup [stays_rules]:
  "stays out (py_lookup f k)" "stays out (py_getitem xs i)" "stays out (py_setitem xs i x)" "stays out (py_mod a b)"
  by (simp_all add: py_lookup_def py_getitem_def py_setitem_def py_mod_def stays_def return_def raise_def split: option.split)

lemma stays_for_each [stays_rules]: "(\<And>x. stays out (f x)) \<Longrightarrow> stays out (for_each xs f)"
  by (induction xs) (auto intro: stays_rules)

lemma stays_for_acc [stays_rules]: "(\<And>x a. stays out (f x a)) \<Longrightarrow> stays out (for_acc xs a f)"
  by (induction xs arbitrary: a) (auto intro: stays_rules)

lemma endless_frame [simp]:
  "endless out (s\<lparr>request_queue := q\<rparr>) = endless out s" "endless out (s\<lparr>canvas := cv\<rparr>) = endless out s"
  by (simp_all add: endless_def)

lemma stays_on_request [stays_rules]: "stays out (on_request q m)"
  by (auto simp: stays_def on_request_def split: outcome.split)

lemma stays_item_update [stays_rules]: "stays out (item_update i f)"
  by (simp add: stays_def item_update_apply)

text \<open>The methods, one after the other.\<close>

lemmas stays_canvas = itemconfig_fill_def itemconfig_text_def canvas_coords_def

lemma stays_start_request [stays_rules]:
  "stays out (StartRead d off lba r q)" "stays out (StartWrite d off lba r q)"
  unfolding StartRead_def StartWrite_def StartRequest_def QueueSetColor_def BlockSetColor_def SetSeekDirection_def
    GetHeadPosition_def stays_canvas
  by (intro stays_rules; simp add: endless_def)+

lemma stays_marks [stays_rules]:
  "stays out (mark_start q)" "stays out (set_status q i st)" "stays out (start_read d q lba)" "stays out (start_write d q lba)"
  unfolding mark_start_def set_status_def start_read_def start_write_def
  by (intro stays_rules)+

lemma stays_schedulers [stays_rules]:
  "stays out (DoStripeScheduling d q)" "stays out (DoMirrorScheduling d q)" "stays out (DoRaid4Scheduling d q)"
  "stays out (DoRaid5Scheduling d q)"
  unfolding DoStripeScheduling_def DoMirrorScheduling_def DoRaid4Scheduling_def DoRaid5Scheduling_def find_disk_def
    two_phase_write_def full_stripe_step_def Let_def
  by (intro stays_rules)+

lemma stays_schedule_disk [stays_rules]: "stays out (schedule_disk d)"
  unfolding schedule_disk_def queue_length_def window_step_def schedule_def
  by (intro stays_rules)

lemma stays_next [stays_rules]: "stays out GetNextIOs"
proof -
  have "GetNextIOs s = pbind (gets disk_count) (\<lambda>n. for_each (py_range 0 n) schedule_disk) s" if "endless out s" for s
    using that by (auto simp: GetNextIOs_def endless_def)
  moreover have "stays out (pbind (gets disk_count) (\<lambda>n. for_each (py_range 0 n) schedule_disk))"
    by (intro stays_rules)
  ultimately show ?thesis by (simp add: stays_def)
qed

lemma stays_targets [stays_rules]:
  "stays out (target_of d)" "stays out (target_offset d)" "stays out (DoneWithSeek d)" "stays out (MoveHead d)"
  "stays out (StartTransfer d)" "stays out (DoneWithTransfer d)" "stays out (set_disk_state d st)" "stays out root_after"
  "stays out UpdateTime" "stays out (BlockSetColor d off colour)"
  unfolding target_of_def target_offset_def DoneWithSeek_def MoveHead_def StartTransfer_def DoneWithTransfer_def
    set_disk_state_def root_after_def UpdateTime_def BlockSetColor_def GetHeadPosition_def stays_canvas Let_def
  by (intro stays_rules; simp add: endless_def)+

lemma stays_MarkDone [stays_rules]: "stays out (MarkDone d)"
  unfolding MarkDone_def level_done_def UpdateWriteCounter_def UpdateReadCounter_def stays_canvas Let_def
  by (intro stays_rules; simp add: endless_def)

lemma stays_tick [stays_rules]: "stays out (seek_step d)" "stays out (transfer_step d)"
  unfolding seek_step_def transfer_step_def complete_io_def
  by (intro stays_rules; simp add: endless_def)+

lemma stays_handle [stays_rules]: "stays out (handle e)"
  unfolding handle_def Start_def Animate_def Pause_def Exit_def
  by (cases e; simp only: event.case; intro stays_rules; simp add: endless_def)

lemma endless_reachable: "gui_reachable s0 s \<Longrightarrow> endless out s0 \<Longrightarrow> endless out s"
proof (induction rule: gui_reachable.induct)
  case (gui_next s e s')
  then show ?case using staysD [OF stays_handle, of out s e] by (auto elim!: gui_stepE)
qed

text \<open>
  C23. On mapping 4, three reads of the blocks of one stripe are taken for a full-stripe write, since
  the constructor compares addresses only: it asks for -5 I/Os, and whatever happens the simulation
  is never done and prints no statistics.
\<close>

theorem read_stripe_never_ends:
  assumes "float_of_string (go_read_fraction opt) = Some rfrac" "go_mapping opt = 4" "go_window opt \<noteq> 0"
    and "asks_for (setting_of opt rfrac) rand [(b, OP_READ), (b + 1, OP_READ), (b + 2, OP_READ)]" "0 \<le> b" "b + 2 < 60"
  shows "\<exists>s0. graphics_main opt rand = Ready s0 \<and> request_count_needed s0 = - 5 \<and>
    (\<forall>s. gui_reachable s0 s \<longrightarrow> \<not> is_done s \<and> request_count s \<noteq> request_count_needed s \<and> printed s = printed s0)"
proof -
  let ?items = "[(b, OP_READ), (b + 1, OP_READ), (b + 2, OP_READ)]"
  have m: "good_mapping (go_mapping opt)" using assms(2) by (simp add: good_mapping_def)
  have i: "good_items (go_mapping opt) ?items" using assms(2,5,6) by (simp add: good_items_def block_limit_def)
  obtain s0 where s: "graphics_main opt rand = Ready s0"
    "built (setting_of opt rfrac) (go_window opt) (if go_print_options opt then option_lines opt else []) ?items s0"
    using graphics_main_built [OF assms(1) m assms(3,4) i] by blast
  have "{k. k < triples_seen 4 ?items \<and> triple_at ?items k} = {0}"
    by (auto simp: triples_seen_def triple_at_def)
  then have "total_ios 4 ?items = - 5" by (simp add: total_ios_def triple_count_def ios_def)
  then have n: "request_count_needed s0 = - 5" "request_count s0 = 0" "\<not> is_done s0"
    using s(2) assms(2) by (simp_all add: built_def)
  then have "endless (printed s0) s0" by (simp add: endless_def)
  then show ?thesis using s(1) n(1) endless_reachable [of s0 _ "printed s0"] by (force simp: endless_def)
qed

theorem read_stripe_never_ends_witness:
  "\<exists>s. graphics_main (default_goptions\<lparr>go_mapping := 4, go_addr := ''r0,r1,r2''\<rparr>) (\<lambda>_. 0) = Ready s \<and>
    request_count_needed s = - 5 \<and> gui_reachable s s \<and> \<not> is_done s"
proof -
  let ?o = "default_goptions\<lparr>go_mapping := 4, go_addr := ''r0,r1,r2''\<rparr>"
  have f: "float_of_string (go_read_fraction ?o) = Some (Finite (1 / 2))"
    "items_of_addr ''r0,r1,r2'' = Some [(0, OP_READ), (0 + 1, OP_READ), (0 + 2, OP_READ)]"
    by code_simp+
  have g: "go_mapping ?o = 4" "go_window ?o \<noteq> 0" by (simp_all add: default_goptions_def)
  have a: "asks_for (setting_of ?o (Finite (1 / 2))) (\<lambda>_. 0) [(0, OP_READ), (0 + 1, OP_READ), (0 + 2, OP_READ)]"
    using f(2) by (simp add: asks_for_def)
  show ?thesis using read_stripe_never_ends [OF f(1) g a] gui_start by force
qed

subsection \<open>A full stripe whose data are not written\<close>

text \<open>
  The first two requests of a full stripe may be started on either of their disks: if their data
  disk is busy when the parity disk is idle, the I/O goes to the parity disk, and the status of the
  data is set to done although they are never written.
\<close>

lemma full_stripe_on_parity_disk:
  assumes "op_type r = OP_WRITE" "full_stripe_write r" "\<not> full_stripe_write_parity r"
    and "statuses r = [REQ_NOT_STARTED, REQ_NOT_STARTED]"
  shows "decide 4 3 r = Some (OP_WRITE, [REQ_DONE, REQ_DO_WRITE])"
proof -
  have "logical_address r mod 3 \<noteq> 3" using pos_mod_bound [of 3 "logical_address r"] by linarith
  then show ?thesis using assms by (simp add: decide_def position_of_def block_disks_def Let_def)
qed

end
