(* ===== verification/Spec2Isabelle.thy ===== *)
theory Spec2Isabelle
  imports Raid_Main Graphics_Traps
begin

text \<open>
  This library verifies the two RAID simulators of \<open>src/lecture-15\<close>: \<open>raid.py\<close>, which prints the
  physical operations of a workload or its completion time, and \<open>raid-graphics.py\<close>, which
  animates an array of four disks serving a queue of one-block requests. They share no code, and
  each is modelled from its options to its last line of output. The last section of this theory
  compares their layouts.

  \<^bold>\<open>How Python is modelled.\<close> A method that changes \<open>self\<close> or prints is a function of the state
  that returns a value with the new state, or raises an exception with the state at that moment
  (\<open>('s, 'a) py\<close> in \<open>Prelude\<close>). An object is a record with the attributes of its class; an attribute
  that may be unset is an \<open>option\<close> whose reading raises \<open>AttributeError\<close>; a dictionary is a map whose
  lookup raises \<open>KeyError\<close>; indexing raises \<open>IndexError\<close> and accepts negative indices. Integers are
  \<open>int\<close>, with Python's rounding of \<open>//\<close> and \<open>%\<close>. Floats are the rationals they denote, every
  operation being rounded to 53 bits; the sums, products and quotients that the scripts compute stay
  inside the range of the exponents, which is not bounded. The one float that the user types, the
  fraction of reads, can be any double: an \<open>xfloat\<close>, which has infinities and \<open>nan\<close> and is rounded with
  overflow and gradual underflow (\<open>PyFloat\<close>). Assertions, \<open>exit\<close> and division by zero are exceptions of the datatype \<open>exn\<close>.

  \<^bold>\<open>raid.py.\<close>
  \<^item> \<open>Convert\<close>: \<open>convert\<close>, with \<open>int()\<close> of a string and the printing of an integer. Shown: the round
    trip, and every error (for printable ASCII without underscores, where Python 2 and 3 read the
    same numerals).
  \<^item> \<open>Disk\<close>: class \<open>disk\<close>. Shown: what \<open>enqueue\<close> accepts, counts and adds to the busy time.
  \<^item> \<open>Raid_Class\<close>: the state of class \<open>raid\<close> (\<open>raid_cfg\<close>, \<open>raid\<close>, \<open>world\<close>), its constructor and the block and
    parity maps \<open>bmap0\<close>, \<open>bmap1\<close>, \<open>bmap4\<close>, \<open>bmap5\<close>, \<open>pmap4\<close>, \<open>pmap5\<close>.
  \<^item> \<open>Raid_IO\<close>: \<open>doSingleRead\<close>, \<open>doSingleWrite\<close>, the \<open>enqueue\<close> methods, \<open>doPartialWrite\<close>, \<open>go\<close> and \<open>stats\<close>.
  \<^item> \<open>Raid_Layout\<close>: the locales \<open>layout\<close> and \<open>parity_layout\<close>, which say what a level has to provide;
    the geometry (injective, onto the free places, away from the parity) is proved in them, and all
    levels interpret them.
  \<^item> \<open>Raid_Plan\<close>, \<open>Raid_Request\<close>, \<open>Raid_Parity\<close>, \<open>Raid_Effect\<close>, \<open>Raid_Results\<close>: the abstract
    specification. A request stands for a list of block operations, its plan; each method is the run
    of its plan, in every state with a sound configuration. A plan within the capacity raises nothing,
    every disk serves its own operations in order, and the output is a function of the plan. \<open>Raid_Parity\<close> gives blocks contents: the
    parity that a partial write computes from what it has read is that of the new data. The cost of
    a partial write, \<open>go\<close> and \<open>stats\<close> follow.
  \<^item> \<open>Raid_Main\<close>: the script, with its workload and its modes of output.

  \<^bold>\<open>raid-graphics.py, definitions.\<close>
  \<^item> \<open>Graphics_Request\<close>: the constants and class \<open>Request\<close>.
  \<^item> \<open>Graphics_Screen\<close>: the state \<open>sim\<close> of class \<open>Raid\<close> with its canvas, and the drawing loops of
    \<open>__init__\<close>, which fill the tables for scheduling and colouring.
  \<^item> \<open>Graphics_Setup\<close>: the rest of \<open>__init__\<close>: the queue given by the option \<open>-a\<close> or drawn at random,
    physical addresses, the marks of what the code takes for full stripes, the queue on the screen, counters.
  \<^item> \<open>Graphics_Sim\<close>: the schedulers of the mappings, \<open>GetNextIOs\<close>, seeking, rotation and transfer,
    \<open>MarkDone\<close>, \<open>Animate\<close>, the statistics and the handlers of the keys.
  \<^item> \<open>Graphics_Main\<close>: the script's checks, \<open>float\<close> of a string, and \<open>mainloop\<close> as the step relation
    \<open>gui_step\<close>, in which a key or a due timer is the next event.

  \<^bold>\<open>raid-graphics.py, proofs.\<close>
  \<^item> \<open>Graphics_Machine\<close>: a scheduler changes an idle disk, and a completed I/O its request, as functions
    of the request alone (\<open>decide\<close>, \<open>complete\<close>). The locales \<open>scheduler\<close> and \<open>completion\<close> state what
    the dispatching code needs of the method of one mapping; all four mappings interpret both.
  \<^item> \<open>Graphics_Progress\<close>: the seven kinds of request, the legal status lists of each and the I/Os
    left in them; the statuses are linearly ordered, and a request only moves up.
  \<^item> \<open>Graphics_Invariant\<close>: the invariant \<open>sim_ok\<close>; \<open>energy\<close>, which bounds the ticks left; and \<open>reads_ok\<close>,
    which ties the statuses to the reads that a disk has really done: its counter is the number of
    requests whose read at the disk is in.
  \<^item> \<open>Graphics_Schedule\<close>, \<open>Graphics_Tick\<close>, \<open>Graphics_Settle\<close>, \<open>Graphics_Animate\<close>, \<open>Graphics_Run\<close>: every
    operation keeps the invariant and raises nothing, a tick uses up energy while a disk is at work,
    and a disk is at work until everything is done.
  \<^item> \<open>Graphics_Layout\<close>, \<open>Graphics_Init\<close>, \<open>Graphics_Ready\<close>, \<open>Graphics_Fresh\<close>, \<open>Graphics_Launch\<close>,
    \<open>Graphics_Random\<close>: the constructor, loop by loop, leaves a state in which the invariant holds,
    for the requests that were asked for. \<open>triple_at\<close> (\<open>Graphics_Ready\<close>) is what gets marked as a full
    stripe: three consecutive addresses at positions \<open>3k\<close>, \<open>3k + 1\<close> and \<open>3k + 2\<close> of the queue, in one row
    or not. \<open>rounds\<close> (\<open>Graphics_Random\<close>) is what the draws have to do for the generation to end.
  \<^item> \<open>Graphics_Results\<close>, \<open>Graphics_Steps\<close>, \<open>Graphics_Startup\<close>, \<open>Graphics_Traps\<close>: the theorems about whole
    runs, about single steps, about starting the script and its errors, and about inputs that the
    checks let pass and for which the simulation fails or never ends.

  \<^bold>\<open>Bounds and fuel.\<close> No definition takes fuel. The loop that draws an address is a
  \<open>partial_function\<close> into \<open>option\<close>, since it need not end; \<open>None\<close> is a loop that does not return, and it
  is shown for which draws it ends and for which options it never does. All other loops run over lists. The events of \<open>mainloop\<close> are a list
  that the theorems quantify over; that a simulation ends is shown with the bound of 392 ticks for each I/O:
  at most 380 for a seek over 19 rows of 20 units at one unit a tick, and 12 for its start, the
  rotation and the transfer, with one disk at work at a time in the worst case.

  \<^bold>\<open>Choices.\<close> The target of a disk, which Python keeps as an index of the queue or -1, is an index or
  \<open>None\<close>. Status constants are constructors, and their numbers are kept for printing. The horizontal
  place of a label is a float without a fraction in Python and an integer here. A line of the output
  is a value of a datatype with a constructor for each \<open>print\<close> statement, and holds the values printed.

  \<^bold>\<open>Not modelled.\<close> Tk is the list of canvas items and pending timers that the script relies on; how it
  paints is left out. \<open>optparse\<close> is the standard library's, and the options arrive as the record that it fills.
  The generator behind \<open>random.random()\<close> is a parameter, a sequence of values; where a theorem needs
  something of it, that is the documented one: 53-bit fractions in \<open>[0, 1)\<close>. The C programs of the other
  weeks are demonstrations of system calls and threads and are not part of the simulators.
\<close>

section \<open>The two programs compared\<close>

text \<open>
  The animated simulator has its block maps written out for four disks and blocks of one unit;
  they satisfy the laws of the layouts of \<open>raid.py\<close>, from which the geometry follows.
\<close>

definition four_disks :: "raid_cfg \<Rightarrow> bool" where
  "four_disks c \<longleftrightarrow> chunkSize c = 1 \<and> numDisks c = 4"

definition shown_place :: "int \<Rightarrow> raid_cfg \<Rightarrow> int \<Rightarrow> int \<times> int" where
  "shown_place m c b = (block_disks m b ! 0, block_row m b)"

lemma shown_place_5: "shown_place 5 c b = (drawn_disk5 (b div 3) (b mod 3), b div 3)"
  using data_disks_simps(4) [of b] by (simp add: shown_place_def data_disks_def block_row_def)

lemma drawn_disk5_cases:
  "0 \<le> j \<Longrightarrow> j < 3 \<Longrightarrow> 0 \<le> drawn_disk5 k j \<and> drawn_disk5 k j < 4 \<and> drawn_disk5 k j \<noteq> drawn_parity5 k"
  "drawn_disk5 k j = drawn_disk5 k j' \<Longrightarrow> j = j'"
  using mod_4_cases [of k] by (auto simp: drawn_disk5_def drawn_parity5_def split: if_splits)

interpretation shown0: layout four_disks numDisks "\<lambda>c k j. j" "shown_place 0"
  by unfold_locales (auto simp: four_disks_def shown_place_def block_disks_def block_row_def)

interpretation shown1: layout four_disks "\<lambda>c. numDisks c div 2" "\<lambda>c k j. 2 * j" "shown_place 1"
  by unfold_locales (auto simp: four_disks_def shown_place_def block_disks_def block_row_def)

interpretation shown4: parity_layout four_disks "\<lambda>c. numDisks c - 1" "\<lambda>c k j. j" "shown_place 4" "\<lambda>c k. parity_disk 4 k"
  by unfold_locales (auto simp: four_disks_def shown_place_def block_disks_def block_row_def parity_disk_def)

interpretation shown5: parity_layout four_disks "\<lambda>c. numDisks c - 1" "\<lambda>c k j. drawn_disk5 k j" "shown_place 5" "\<lambda>c k. drawn_parity5 k"
  by unfold_locales
    (auto simp: four_disks_def shown_place_5 drawn_disk5_cases(1), auto simp: drawn_parity5_def intro: drawn_disk5_cases(2))

text \<open>
  The configuration of \<open>raid.py\<close> that belongs to a mapping of the simulator, and all the places that
  its maps give to one block: the disk or the two mirrors, then the parity disk of its stripe.
\<close>

definition layout_cfg :: "int \<Rightarrow> raid_cfg \<Rightarrow> bool" where
  "layout_cfg m c \<longleftrightarrow> four_disks c \<and> (m = 4 \<longrightarrow> parity4 c) \<and> (m = 5 \<longrightarrow> parity5 ''LA'' c)"

definition raid_places :: "int \<Rightarrow> int \<Rightarrow> (world, int list \<times> int) py" where
  "raid_places m b =
     (if m = 0 then pbind (bmap0 b) (\<lambda>(d, off). return ([d], off))
      else if m = 1 then pbind (bmap1 b) (\<lambda>(d1, d2, off). return ([d1, d2], off))
      else if m = 4 then pbind (bmap4 b) (\<lambda>(d, off). pbind (pmap4 off) (\<lambda>p. return ([d, p], off)))
      else pbind (bmap5 b) (\<lambda>(d, off). pbind (pmap5 off) (\<lambda>p. return ([d, p], off))))"

lemma raid_places_shown:
  assumes "good_mapping m" "layout_cfg m (cfg s)"
  shows "raid_places m b s = Ok (block_disks m b, block_row m b) s"
  using assms(1)
proof (rule good_mappingE)
  assume "m = 0"
  moreover have "striped (cfg s)" using assms(2) by (simp add: layout_cfg_def four_disks_def striped_def)
  ultimately show ?thesis using assms(2) bmap0_place [of s b]
    by (simp add: raid_places_def layout_cfg_def four_disks_def place0_def block_disks_def block_row_def)
next
  assume "m = 1"
  moreover have "mirrored (cfg s)" using assms(2) by (simp add: layout_cfg_def four_disks_def mirrored_def)
  ultimately show ?thesis using assms(2) bmap1_place [of s b]
    by (simp add: raid_places_def layout_cfg_def four_disks_def place1_def block_disks_def block_row_def)
next
  assume "m = 4"
  moreover from this have "parity4 (cfg s)" using assms(2) by (simp add: layout_cfg_def)
  ultimately show ?thesis using assms(2) bmap4_place [of s b] pmap4_parity [of s]
    by (simp add: raid_places_def layout_cfg_def four_disks_def place4_def parity_disk4_def block_disks_def block_row_def)
next
  assume m: "m = 5"
  then have c: "parity5 ''LA'' (cfg s)" "raid5type (cfg s) = ''LA''" "chunkSize (cfg s) = 1" "numDisks (cfg s) = 4"
    using assms(2) by (simp_all add: layout_cfg_def four_disks_def parity5_def)
  have "block_disks 5 b = [data_disk5 (cfg s) (b div 3) (b mod 3), parity_disk5 (cfg s) (b div 3)]"
    using c(2,4) mod_4_cases [of "b div 3"] mod_3_cases [of b]
    by (auto simp: data_disk5_def parity_disk5_def block_disks_def parity_column_def Let_def)
  then show ?thesis using m c bmap5_place [OF c(1)] pmap5_parity [OF c(1)]
    by (simp add: raid_places_def place5_def block_row_def Let_def)
qed

text \<open>What the picture shows at the places of a block.\<close>

lemma shown_at_place:
  assumes m: "good_mapping m" and s: "drawn s0 m (block_limit m) (parity_rows m) s"
    and b: "0 \<le> b" "b < block_limit m" and k: "k < length (block_disks m b)"
  shows "\<exists>r. disk_and_offset_to_rect_id s (block_disks m b ! k, block_row m b) = Some r \<and>
    label (canvas s ! nat r) =
      Some (if k = 1 \<and> (m = 4 \<or> m = 5) then ''P'' @ show_int (block_row m b) else show_int b)"
proof -
  let ?c = "(block_disks m b ! k, block_row m b)"
  have "0 \<le> block_disks m b ! k \<and> block_disks m b ! k < 4" using block_disks_range nth_mem [OF k] by blast
  moreover have "0 \<le> block_row m b \<and> block_row m b < 20" using m b
    by (elim good_mappingE) (auto simp: block_row_def block_limit_def)
  ultimately have "drawn_cell m s ?c" using drawn_all_cells [OF m s] by blast
  then obtain r where r: "disk_and_offset_to_rect_id s ?c = Some r" "label (canvas s ! nat r) = Some (cell_text m ?c)"
    by (auto simp: drawn_cell_def cell_shown_def)
  have "cell_text m ?c = (if k = 1 \<and> (m = 4 \<or> m = 5) then ''P'' @ show_int (block_row m b) else show_int b)"
  proof (cases "k = 1 \<and> (m = 4 \<or> m = 5)")
    case True
    then have "block_disks m b ! k = parity_disk m (block_row m b)"
      by (auto simp: block_disks_def parity_disk_def block_row_def Let_def)
    then show ?thesis using True by (auto simp: cell_text_def cell_block_def Let_def)
  next
    case False
    then have "block_disks m b ! k \<in> set (data_disks m b)"
      using k m nth_mem [OF k] by (elim good_mappingE) (auto simp: data_disks_def length_block_disks less_2_cases_iff)
    then show ?thesis using False cell_block_place [OF m] by (auto simp: cell_text_def)
  qed
  then show ?thesis using r by auto
qed

text \<open>
  C14. On four disks with chunks of one block, both programs put every block on the same disks and
  row: mapping 0 as level 0, mapping 1 as level 1 with both copies, mapping 4 as level 4 and mapping 5
  as the left-asymmetric layout of level 5, with the same parity disks. At the places that the maps
  of \<open>raid.py\<close> give, the simulator's picture is labelled with the number of the block, and with \<open>P\<close>
  and the row on the parity disk; and each request in its queue goes to these places. In the
  left-symmetric layout, which \<open>raid.py\<close> uses by default, block 3 is on disk 3, and the
  simulator draws it on disk 0.
\<close>

theorem graphics_layouts_match_raid:
  assumes "layout_cfg (go_mapping opt) (cfg s)" "four_disks (cfg t)" "parity5 ''LS'' (cfg t)"
    and "float_of_string (go_read_fraction opt) = Some rfrac" "good_mapping (go_mapping opt)" "go_window opt \<noteq> 0"
    and "asks_for (setting_of opt rfrac) rand items" "good_items (go_mapping opt) items"
  shows "\<exists>p g. draw_layout (blank_sim (setting_of opt rfrac) (go_window opt) out) = Ok () p \<and>
    graphics_main opt rand = Ready g \<and>
    (\<forall>b \<in> {0..<block_count p}. \<exists>ds row. raid_places (go_mapping opt) b s = Ok (ds, row) s \<and>
       (\<forall>k < length ds. \<exists>r. disk_and_offset_to_rect_id p (ds ! k, row) = Some r \<and>
          label (canvas p ! nat r) =
            Some (if k = 1 \<and> (go_mapping opt = 4 \<or> go_mapping opt = 5) then ''P'' @ show_int row else show_int b))) \<and>
    (\<forall>j < length items. \<exists>ds row. raid_places (go_mapping opt) (fst (items ! j)) s = Ok (ds, row) s \<and>
       phys_disk_list (request_queue g ! j) = Some ds \<and> phys_offset (request_queue g ! j) = Some row) \<and>
    (go_mapping opt = 5 \<longrightarrow> bmap5 3 t = Ok (3, 1) t \<and>
       (\<exists>r. disk_and_offset_to_rect_id p (0, 1) = Some r \<and> label (canvas p ! nat r) = Some ''3''))"
proof -
  let ?m = "go_mapping opt" and ?b = "blank_sim (setting_of opt rfrac) (go_window opt) out"
  have b: "mapping ?b = ?m" "disk_count ?b = 4" by (simp_all add: blank_sim_def setting_of_def)
  obtain p where p: "draw_layout ?b = Ok () p" "drawn (sized ?m ?b) ?m (block_limit ?m) (parity_rows ?m) p"
    using draw_layout_drawn [of ?b] b assms(5) by auto
  have "block_count (sized ?m ?b) = block_limit ?m" using assms(5)
    by (elim good_mappingE) (simp_all add: sized_def block_limit_def)
  then have limit: "block_count p = block_limit ?m" using p(2) by (auto simp: drawn_def layout_only_def)
  obtain g where g: "graphics_main opt rand = Ready g"
    "built (setting_of opt rfrac) (go_window opt) (if go_print_options opt then option_lines opt else []) items g"
    using graphics_main_built [OF assms(4-8)] by blast
  have "mapping (setting_of opt rfrac) = ?m" by (simp add: setting_of_def)
  note place = raid_places_shown [OF assms(5,1)] and q = built_requests(4,5) [OF g(2), unfolded this]
  have shown: "\<forall>b \<in> {0..<block_count p}. \<exists>ds row. raid_places ?m b s = Ok (ds, row) s \<and>
     (\<forall>k < length ds. \<exists>r. disk_and_offset_to_rect_id p (ds ! k, row) = Some r \<and>
        label (canvas p ! nat r) = Some (if k = 1 \<and> (?m = 4 \<or> ?m = 5) then ''P'' @ show_int row else show_int b))"
    using place shown_at_place [OF assms(5) p(2)] limit by auto
  have "bmap5 3 t = Ok (3, 1) t"
    using bmap5_place [OF assms(3)] assms(2,3) by (simp add: place5_def data_disk5_def parity5_def four_disks_def Let_def)
  moreover have "\<exists>r. disk_and_offset_to_rect_id p (0, 1) = Some r \<and> label (canvas p ! nat r) = Some ''3''" if "?m = 5"
  proof -
    have "block_disks 5 3 = [0, 2]" "block_row 5 3 = 1" "show_int 3 = ''3''" by code_simp+
    then show ?thesis using shown_at_place [OF assms(5) p(2), of 3 0] that by (simp add: block_limit_def)
  qed
  ultimately show ?thesis using p(1) g(1) shown place q by blast
qed

theorem graphics_layouts_match_raid_witness:
  "\<exists>p g r. draw_layout (blank_sim (setting_of demo_options (Finite (1 / 2))) (- 1) []) = Ok () p \<and>
    graphics_main demo_options (\<lambda>_. 0) = Ready g \<and>
    raid_places 5 7 (sample_world 5 ''LA'') = Ok ([2, 1], 2) (sample_world 5 ''LA'') \<and>
    phys_disk_list (request_queue g ! 1) = Some [2, 1] \<and>
    disk_and_offset_to_rect_id p (1, 2) = Some r \<and> label (canvas p ! nat r) = Some ''P2'' \<and>
    bmap5 3 (sample_world 5 ''LS'') = Ok (3, 1) (sample_world 5 ''LS'')"
proof -
  let ?s = "sample_world 5 ''LA''" and ?t = "sample_world 5 ''LS''"
  have m: "go_mapping demo_options = 5" "go_window demo_options = - 1" by (simp_all add: demo_options_def default_goptions_def)
  have c: "layout_cfg (go_mapping demo_options) (cfg ?s)" "four_disks (cfg ?t)" "parity5 ''LS'' (cfg ?t)"
    by (simp_all add: m layout_cfg_def four_disks_def parity5_def sample_world_def)
  have o: "good_mapping (go_mapping demo_options)" "go_window demo_options \<noteq> 0" "good_items (go_mapping demo_options) demo_items"
    using demo_good(5) by (simp_all add: m good_mapping_def good_queue_def)
  obtain p g where pg: "draw_layout (blank_sim (setting_of demo_options (Finite (1 / 2))) (- 1) []) = Ok () p"
    "graphics_main demo_options (\<lambda>_. 0) = Ready g"
    "\<forall>b \<in> {0..<block_count p}. \<exists>ds row. raid_places 5 b ?s = Ok (ds, row) ?s \<and>
       (\<forall>k < length ds. \<exists>r. disk_and_offset_to_rect_id p (ds ! k, row) = Some r \<and>
          label (canvas p ! nat r) = Some (if k = 1 \<and> (5 = (4 :: int) \<or> (5 :: int) = 5) then ''P'' @ show_int row else show_int b))"
    "\<forall>j < length demo_items. \<exists>ds row. raid_places 5 (fst (demo_items ! j)) ?s = Ok (ds, row) ?s \<and>
       phys_disk_list (request_queue g ! j) = Some ds \<and> phys_offset (request_queue g ! j) = Some row"
    "bmap5 3 ?t = Ok (3, 1) ?t"
    using graphics_layouts_match_raid [OF c demo_good(1) o(1,2) demo_good(3) o(3), of "[]" "\<lambda>_. 0"] unfolding m by blast
  have n: "block_disks 5 7 = [2, 1]" "block_row 5 7 = 2" "show_int 2 = ''2''" by code_simp+
  have r: "raid_places 5 7 ?s = Ok ([2, 1], 2) ?s"
    using raid_places_shown [OF o(1) c(1)] by (simp add: m n)
  have "7 < block_count p"
    using draw_layout_drawn [of "blank_sim (setting_of demo_options (Finite (1 / 2))) (- 1) []"] pg(1)
    by (auto simp: blank_sim_def setting_of_def m good_mapping_def drawn_def layout_only_def sized_def)
  then obtain r' where "disk_and_offset_to_rect_id p (1, 2) = Some r'" "label (canvas p ! nat r') = Some ''P2''"
    using pg(3) [rule_format, of 7] r n(3) by auto
  moreover have "phys_disk_list (request_queue g ! 1) = Some [2, 1]"
    using pg(4) [rule_format, of 1] r by (simp add: demo_items_def)
  ultimately show ?thesis using pg(1,2,5) r by blast
qed

end
